(* ===== verification/Bits_Prelude.thy ===== *)
theory Bits_Prelude
  imports Main "HOL-Library.Word" "HOL-Library.Multiset" "HOL-Library.Char_ord"
begin

text \<open>
  Shared vocabulary of the development: Rust's machine integers as words, the
  \<open>Result\<close> and \<open>Option\<close> plumbing behind the \<open>?\<close> operator, checked and saturating
  integer operations, big-endian digit sequences, JSON values, time, and the
  generic lemmas on lists, maps and words which the component theories use.

  Conventions.
  \<^item> \<open>u8\<close>, \<open>u16\<close>, \<open>u32\<close>, \<open>u64\<close>, \<open>u128\<close> are words of that width.
  \<^item> \<open>Result<T, E>\<close> is the sum \<open>'e + 't\<close>: \<open>Inl\<close> is \<open>Err\<close>, \<open>Inr\<close> is \<open>Ok\<close>.
  \<^item> Rust characters are Isabelle characters, i.e. the scalar values up to U+00FF.
  \<^item> \<open>DateTime<Utc>\<close> is an integer number of nanoseconds since the Unix epoch;
    \<open>Duration\<close> and \<open>Instant\<close> are natural numbers of nanoseconds.
\<close>

unbundle bit_operations_syntax

named_theorems result_simps \<open>rewriting of the Result plumbing\<close>
named_theorems word_nat \<open>reading word operations as operations on naturals\<close>

type_synonym u8 = "8 word"
type_synonym u16 = "16 word"
type_synonym u32 = "32 word"
type_synonym u64 = "64 word"
type_synonym u128 = "128 word"

type_synonym datetime = int
type_synonym duration = nat
type_synonym instant = nat

abbreviation nanos_per_sec :: int where
  "nanos_per_sec \<equiv> 1000000000"

section \<open>Result and Option\<close>

text \<open>The \<open>?\<close> operator: continue with the value of an \<open>Ok\<close>, return an \<open>Err\<close> at once.\<close>

definition bind_result :: "'e + 'a \<Rightarrow> ('a \<Rightarrow> 'e + 'b) \<Rightarrow> 'e + 'b" where
  "bind_result r f = (case r of Inl e \<Rightarrow> Inl e | Inr x \<Rightarrow> f x)"

definition ok_or :: "'a option \<Rightarrow> 'e \<Rightarrow> 'e + 'a" where
  "ok_or opt e = (case opt of None \<Rightarrow> Inl e | Some x \<Rightarrow> Inr x)"

lemma bind_result_Inl [simp, result_simps]: "bind_result (Inl e) f = Inl e"
  by (simp add: bind_result_def)

lemma bind_result_Inr [simp, result_simps]: "bind_result (Inr x) f = f x"
  by (simp add: bind_result_def)

lemma bind_result_eq_Inr [result_simps]:
  "bind_result r f = Inr y \<longleftrightarrow> (\<exists>x. r = Inr x \<and> f x = Inr y)"
  by (cases r) auto

lemma bind_result_eq_Inl [result_simps]:
  "bind_result r f = Inl e \<longleftrightarrow> r = Inl e \<or> (\<exists>x. r = Inr x \<and> f x = Inl e)"
  by (cases r) auto

lemma ok_or_simps [simp, result_simps]:
  "ok_or None e = Inl e" "ok_or (Some x) e = Inr x"
  by (simp_all add: ok_or_def)

lemma ok_or_eq [result_simps]:
  "ok_or opt e = Inr y \<longleftrightarrow> opt = Some y"
  "ok_or opt e = Inl e' \<longleftrightarrow> opt = None \<and> e' = e"
  by (cases opt; auto)+

section \<open>Machine integers\<close>

definition checked_add :: "'a::len word \<Rightarrow> 'a word \<Rightarrow> 'a word option" where
  "checked_add a b = (if uint a + uint b < 2 ^ LENGTH('a) then Some (a + b) else None)"

definition checked_mul :: "'a::len word \<Rightarrow> 'a word \<Rightarrow> 'a word option" where
  "checked_mul a b = (if uint a * uint b < 2 ^ LENGTH('a) then Some (a * b) else None)"

definition saturating_mul :: "'a::len word \<Rightarrow> 'a word \<Rightarrow> 'a word" where
  "saturating_mul a b = (if uint a * uint b < 2 ^ LENGTH('a) then a * b else - 1)"

lemma uint_add_no_overflow [word_nat]:
  "uint a + uint b < 2 ^ LENGTH('a) \<Longrightarrow> uint (a + b) = uint a + uint (b :: 'a::len word)"
  by (simp add: uint_word_ariths)

lemma uint_mult_no_overflow [word_nat]:
  "uint a * uint b < 2 ^ LENGTH('a) \<Longrightarrow> uint (a * b) = uint a * uint (b :: 'a::len word)"
  by (simp add: uint_word_ariths)

lemma checked_add_Some:
  "checked_add a b = Some c \<longleftrightarrow> uint a + uint b = uint (c :: 'a::len word)"
proof
  assume "uint a + uint b = uint c"
  moreover have "uint c < 2 ^ LENGTH('a)" by (rule unsigned_less)
  ultimately show "checked_add a b = Some c"
    by (simp add: checked_add_def word_uint_eq_iff uint_add_no_overflow)
qed (auto simp: checked_add_def uint_add_no_overflow split: if_splits)

lemma checked_mul_Some:
  "checked_mul a b = Some c \<longleftrightarrow> uint a * uint b = uint (c :: 'a::len word)"
proof
  assume "uint a * uint b = uint c"
  moreover have "uint c < 2 ^ LENGTH('a)" by (rule unsigned_less)
  ultimately show "checked_mul a b = Some c"
    by (simp add: checked_mul_def word_uint_eq_iff uint_mult_no_overflow)
qed (auto simp: checked_mul_def uint_mult_no_overflow split: if_splits)

lemma checked_add_None: "checked_add a b = None \<longleftrightarrow> 2 ^ LENGTH('a) \<le> uint a + uint (b :: 'a::len word)"
  by (simp add: checked_add_def not_less)

lemma checked_mul_None: "checked_mul a b = None \<longleftrightarrow> 2 ^ LENGTH('a) \<le> uint a * uint (b :: 'a::len word)"
  by (simp add: checked_mul_def not_less)

lemma unat_less_numeral_uint:
  "unat (w :: 'a::len word) < numeral k \<longleftrightarrow> uint w < numeral k"
proof -
  have "unat w < numeral k \<longleftrightarrow> int (unat w) < int (numeral k)" by (simp only: of_nat_less_iff)
  then show ?thesis by (simp only: of_nat_unat of_nat_numeral)
qed

section \<open>Digit sequences, most significant first\<close>

primrec digits_be :: "int \<Rightarrow> nat \<Rightarrow> int \<Rightarrow> int list" where
  "digits_be b 0 v = []"
| "digits_be b (Suc n) v = digits_be b n (v div b) @ [v mod b]"

definition value_be :: "int \<Rightarrow> int list \<Rightarrow> int" where
  "value_be b ds = foldl (\<lambda>a d. a * b + d) 0 ds"

lemma value_be_Nil [simp]: "value_be b [] = 0"
  by (simp add: value_be_def)

lemma value_be_snoc [simp]: "value_be b (ds @ [d]) = value_be b ds * b + d"
  by (simp add: value_be_def)

lemma length_digits_be [simp]: "length (digits_be b n v) = n"
  by (induction n arbitrary: v) simp_all

lemma digits_be_range: "0 < b \<Longrightarrow> d \<in> set (digits_be b n v) \<Longrightarrow> 0 \<le> d \<and> d < b"
  by (induction n arbitrary: v) auto

lemma value_digits_be: "0 < b \<Longrightarrow> value_be b (digits_be b n v) = v mod b ^ n"
proof (induction n arbitrary: v)
  case (Suc n)
  have "v mod (b * b ^ n) = b * (v div b mod b ^ n) + v mod b"
    using \<open>0 < b\<close> by (intro zmod_zmult2_eq) simp
  with Suc show ?case by (simp add: mult.commute)
qed simp

lemma digits_value_be:
  "\<forall>d \<in> set ds. 0 \<le> d \<and> d < b \<Longrightarrow> digits_be b (length ds) (value_be b ds) = ds"
proof (induction ds rule: rev_induct)
  case (snoc d ds)
  then have "0 \<le> d" "d < b" by simp_all
  then have "(value_be b ds * b + d) div b = value_be b ds" "(value_be b ds * b + d) mod b = d"
    by simp_all
  with snoc show ?case by simp
qed simp

lemma value_be_range:
  "\<forall>d \<in> set ds. 0 \<le> d \<and> d < b \<Longrightarrow> 0 \<le> value_be b ds \<and> value_be b ds < b ^ length ds"
proof (induction ds rule: rev_induct)
  case (snoc d ds)
  then have "0 \<le> d" "d < b" "0 \<le> value_be b ds" and le: "value_be b ds + 1 \<le> b ^ length ds"
    by simp_all
  from le have "(value_be b ds + 1) * b \<le> b ^ length ds * b"
    using \<open>0 \<le> d\<close> \<open>d < b\<close> by (intro mult_right_mono) simp_all
  with \<open>0 \<le> d\<close> \<open>d < b\<close> \<open>0 \<le> value_be b ds\<close> show ?case by (simp add: algebra_simps)
qed simp

section \<open>Big-endian bytes\<close>

text \<open>\<open>to_be_bytes\<close> and \<open>from_be_bytes\<close> of the unsigned integer types.\<close>

definition to_be_bytes :: "nat \<Rightarrow> 'a::len word \<Rightarrow> u8 list" where
  "to_be_bytes n w = map of_int (digits_be 256 n (uint w))"

definition from_be_bytes :: "u8 list \<Rightarrow> 'a::len word" where
  "from_be_bytes bs = of_int (value_be 256 (map uint bs))"

lemma length_to_be_bytes [simp]: "length (to_be_bytes n w) = n"
  by (simp add: to_be_bytes_def)

lemma uint_u8_range: "0 \<le> uint (b :: u8) \<and> uint b < 256"
  using unsigned_less [of b, where 'a = int] by simp

lemma uint_of_int_small [word_nat]:
  "0 \<le> i \<Longrightarrow> i < 2 ^ LENGTH('a) \<Longrightarrow> uint (of_int i :: 'a::len word) = i"
  by (simp add: uint_word_of_int)

lemma from_to_be_bytes:
  fixes w :: "'a::len word"
  assumes "LENGTH('a) = 8 * n"
  shows "from_be_bytes (to_be_bytes n w) = w"
proof -
  have "map (\<lambda>x. uint (of_int x :: u8)) (digits_be 256 n (uint w)) = digits_be 256 n (uint w)"
  proof (rule map_idI)
    fix x assume "x \<in> set (digits_be 256 n (uint w))"
    then have "0 \<le> x \<and> x < 256" by (rule digits_be_range [rotated]) simp
    then show "uint (of_int x :: u8) = x" by (simp add: uint_of_int_small)
  qed
  moreover have "uint w < 256 ^ n"
    using unsigned_less [of w, where 'a = int] assms by (simp add: power_mult)
  ultimately show ?thesis
    by (simp add: from_be_bytes_def to_be_bytes_def comp_def value_digits_be)
qed

lemma uint_from_be_bytes:
  assumes "LENGTH('a::len) = 8 * length bs"
  shows "uint (from_be_bytes bs :: 'a word) = value_be 256 (map uint bs)"
proof -
  have "\<forall>d \<in> set (map uint bs). 0 \<le> d \<and> d < 256" by (auto simp: uint_u8_range)
  from value_be_range [OF this] assms show ?thesis
    by (simp add: from_be_bytes_def uint_of_int_small power_mult)
qed

lemma to_from_be_bytes:
  fixes bs :: "u8 list"
  assumes "LENGTH('a::len) = 8 * length bs"
  shows "to_be_bytes (length bs) (from_be_bytes bs :: 'a word) = bs"
proof -
  have "\<forall>d \<in> set (map uint bs). 0 \<le> d \<and> d < 256" by (auto simp: uint_u8_range)
  from digits_value_be [OF this] show ?thesis
    by (simp add: to_be_bytes_def comp_def uint_from_be_bytes [OF assms])
qed

section \<open>Formatting\<close>

definition digit_char :: "int \<Rightarrow> char" where
  "digit_char d = char_of (nat (d + 48))"

text \<open>\<open>Display\<close> of the unsigned integer types.\<close>

function show_uint :: "int \<Rightarrow> string" where
  "show_uint n = (if n < 10 then [digit_char n] else show_uint (n div 10) @ [digit_char (n mod 10)])"
  by auto
termination
  by (relation "measure nat") auto

declare show_uint.simps [simp del]

text \<open>\<open>Debug\<close> of strings: quotes, backslashes and the control characters are escaped.\<close>

definition hex_digit :: "int \<Rightarrow> char" where
  "hex_digit d = (if d < 10 then char_of (nat (d + 48)) else char_of (nat (d + 87)))"

definition escape_char :: "char \<Rightarrow> string" where
  "escape_char c =
    (let n = of_char c :: int in
     if n = 0 then [CHR 0x5C, CHR ''0'']
     else if n = 9 then [CHR 0x5C, CHR ''t'']
     else if n = 10 then [CHR 0x5C, CHR ''n'']
     else if n = 13 then [CHR 0x5C, CHR ''r'']
     else if n = 0x5C then [CHR 0x5C, CHR 0x5C]
     else if n < 16 then [CHR 0x5C] @ ''u{'' @ [hex_digit n] @ ''}''
     else if n < 32 \<or> 127 \<le> n \<and> n \<le> 159 \<or> n = 173
     then [CHR 0x5C] @ ''u{'' @ [hex_digit (n div 16), hex_digit (n mod 16)] @ ''}''
     else [c])"

definition debug_str :: "string \<Rightarrow> string" where
  "debug_str s =
    [CHR 0x22] @ concat (map (\<lambda>c. if c = CHR 0x22 then [CHR 0x5C, CHR 0x22] else escape_char c) s) @ [CHR 0x22]"

definition debug_char :: "char \<Rightarrow> string" where
  "debug_char c =
    [CHR 0x27] @ (if c = CHR 0x27 then [CHR 0x5C, CHR 0x27] else escape_char c) @ [CHR 0x27]"

section \<open>JSON values\<close>

text \<open>\<open>serde_json::Value\<close>; a number is a \<open>u64\<close>, a negative \<open>i64\<close>, or the bits of an \<open>f64\<close>.
  Objects are association lists, looked up by the first entry of a key.\<close>

datatype json =
    JNull
  | JBool bool
  | JPosInt u64
  | JNegInt int
  | JFloat u64
  | JString string
  | JArray "json list"
  | JObject "(string \<times> json) list"

primrec json_index :: "json \<Rightarrow> string \<Rightarrow> json" where
  "json_index JNull k = JNull"
| "json_index (JBool b) k = JNull"
| "json_index (JPosInt n) k = JNull"
| "json_index (JNegInt n) k = JNull"
| "json_index (JFloat n) k = JNull"
| "json_index (JString s) k = JNull"
| "json_index (JArray xs) k = JNull"
| "json_index (JObject kvs) k = (case map_of kvs k of Some v \<Rightarrow> v | None \<Rightarrow> JNull)"

definition json_get :: "json \<Rightarrow> string \<Rightarrow> json option" where
  "json_get v k = (case v of JObject kvs \<Rightarrow> map_of kvs k | _ \<Rightarrow> None)"

definition as_u64 :: "json \<Rightarrow> u64 option" where
  "as_u64 v = (case v of JPosInt n \<Rightarrow> Some n | _ \<Rightarrow> None)"

definition as_str :: "json \<Rightarrow> string option" where
  "as_str v = (case v of JString s \<Rightarrow> Some s | _ \<Rightarrow> None)"

definition as_array :: "json \<Rightarrow> json list option" where
  "as_array v = (case v of JArray xs \<Rightarrow> Some xs | _ \<Rightarrow> None)"

definition unwrap_or :: "'a option \<Rightarrow> 'a \<Rightarrow> 'a" where
  "unwrap_or opt d = (case opt of Some x \<Rightarrow> x | None \<Rightarrow> d)"

lemma unwrap_or_simps [simp]: "unwrap_or None d = d" "unwrap_or (Some x) d = x"
  by (simp_all add: unwrap_or_def)

end
