(* ===== verification/Request_Id.thy ===== *)
theory Request_Id
  imports Bits_Prelude
begin

text \<open>
  Request identifiers (\<open>bits/src/request_id.rs\<close>): sixteen packed bytes (version,
  base-37 site and environment tags, seconds since the custom epoch, broker slot,
  five random bytes) written as 26 Crockford base-32 characters.

  The definitions keep the order and the early returns of the source; a \<open>[u8; n]\<close>
  array is a byte list whose length is a hypothesis where it matters.  The lemmas
  show that tags and identifiers round-trip in both directions, that no \<open>u16\<close>
  multiplication of \<open>pack_tag\<close> can overflow, and which inputs give which error.
\<close>

section \<open>Constants and data\<close>

definition ID_VERSION :: u8 where "ID_VERSION = 1"

text \<open>\<open>2025-01-01T00:00:00Z\<close> in nanoseconds since the Unix epoch.\<close>
definition custom_epoch :: datetime where
  "custom_epoch = 1735689600 * nanos_per_sec"

definition CROCKFORD_ALPHABET :: string where
  "CROCKFORD_ALPHABET = ''0123456789abcdefghjkmnpqrstvwxyz''"

definition ID_LEN :: nat where "ID_LEN = 26"
definition PACKED_LEN :: nat where "PACKED_LEN = 16"
definition BASE37_SENTINEL :: u16 where "BASE37_SENTINEL = 36"
definition BASE37_RADIX :: u16 where "BASE37_RADIX = 37"
definition BASE37_MAX :: u16 where "BASE37_MAX = BASE37_RADIX * BASE37_RADIX * BASE37_RADIX"

record DecodedId =
  di_version :: u8
  di_site :: string
  di_env :: string
  di_timestamp :: datetime
  di_broker_slot :: u16
  di_random :: "u8 list"

datatype DecodeError =
    WrongLength nat
  | DisallowedCrockfordCharacter char
  | Base32ValueOutOfRange
  | UnknownVersion u8
  | TagPackedValueOutOfRange u16
  | DecEmptyTag
  | EmbeddedSentinel

datatype EncodeError =
    EncEmptyTag
  | TagTooLong nat
  | InvalidTagCharacter char
  | TimestampBeforeCustomEpoch
  | TimestampTooLarge

primrec decode_error_display :: "DecodeError \<Rightarrow> string" where
  "decode_error_display (WrongLength actual) =
    ''request ID must be exactly 26 characters, got '' @ show_uint (int actual)"
| "decode_error_display (DisallowedCrockfordCharacter ch) =
    ''request ID contains disallowed Crockford base32 character '' @ debug_char ch"
| "decode_error_display Base32ValueOutOfRange = ''request ID base32 value does not fit in 16 bytes''"
| "decode_error_display (UnknownVersion version) =
    ''unknown request ID version byte '' @ show_uint (uint version)"
| "decode_error_display (TagPackedValueOutOfRange value) =
    ''packed tag value '' @ show_uint (uint value) @ '' is outside the base37 range''"
| "decode_error_display DecEmptyTag = ''packed tag decodes to an empty tag''"
| "decode_error_display EmbeddedSentinel =
    ''packed tag contains non-sentinel characters after a sentinel''"

primrec encode_error_display :: "EncodeError \<Rightarrow> string" where
  "encode_error_display EncEmptyTag = ''tag must not be empty''"
| "encode_error_display (TagTooLong actual) =
    ''tag must be at most 3 characters, got '' @ show_uint (int actual)"
| "encode_error_display (InvalidTagCharacter ch) = ''tag contains invalid character '' @ debug_char ch"
| "encode_error_display TimestampBeforeCustomEpoch = ''timestamp is before the custom epoch''"
| "encode_error_display TimestampTooLarge = ''timestamp exceeds the u32 seconds-since-epoch ceiling''"

section \<open>Tags\<close>

text \<open>The casts \<open>ch as u16\<close> and \<open>b'c'\<close>.\<close>
abbreviation as_u16 :: "char \<Rightarrow> u16" where "as_u16 ch \<equiv> of_nat (of_char ch)"
abbreviation as_u8 :: "char \<Rightarrow> u8" where "as_u8 ch \<equiv> of_nat (of_char ch)"

definition tag_char_value :: "char \<Rightarrow> EncodeError + u16" where
  "tag_char_value ch =
    (if CHR ''0'' \<le> ch \<and> ch \<le> CHR ''9'' then Inr (as_u16 ch - as_u16 CHR ''0'')
     else if CHR ''a'' \<le> ch \<and> ch \<le> CHR ''z'' then Inr (as_u16 ch - as_u16 CHR ''a'' + 10)
     else Inl (InvalidTagCharacter ch))"

text \<open>\<open>value_char\<close> panics (\<open>unreachable!\<close>) above 35; the panic is \<open>None\<close>.\<close>
definition value_char :: "u16 \<Rightarrow> char option" where
  "value_char value =
    (if value \<le> 9 then Some (char_of (unat (as_u8 CHR ''0'' + (ucast value :: u8))))
     else if value \<le> 35 then Some (char_of (unat (as_u8 CHR ''a'' + ((ucast value :: u8) - 10))))
     else None)"

primrec fill_digits :: "nat \<Rightarrow> string \<Rightarrow> u16 list \<Rightarrow> EncodeError + u16 list" where
  "fill_digits index [] digits = Inr digits"
| "fill_digits index (ch # tag) digits =
    bind_result (tag_char_value ch) (\<lambda>v. fill_digits (Suc index) tag (digits[index := v]))"

definition pack_tag :: "string \<Rightarrow> EncodeError + u16" where
  "pack_tag tag =
    (if length tag = 0 then Inl EncEmptyTag
     else if length tag > 3 then Inl (TagTooLong (length tag))
     else bind_result (fill_digits 0 tag (replicate 3 BASE37_SENTINEL)) (\<lambda>digits.
       Inr (digits ! 0 * BASE37_RADIX * BASE37_RADIX + digits ! 1 * BASE37_RADIX + digits ! 2)))"

primrec position :: "('a \<Rightarrow> bool) \<Rightarrow> 'a list \<Rightarrow> nat option" where
  "position p [] = None"
| "position p (x # xs) = (if p x then Some 0 else map_option Suc (position p xs))"

definition unpack_tag :: "u16 \<Rightarrow> (DecodeError + string) option" where
  "unpack_tag value =
    (if value \<ge> BASE37_MAX then Some (Inl (TagPackedValueOutOfRange value))
     else let digits = [value div (BASE37_RADIX * BASE37_RADIX),
                        (value div BASE37_RADIX) mod BASE37_RADIX,
                        value mod BASE37_RADIX]
      in case position (\<lambda>digit. digit = BASE37_SENTINEL) digits of
           Some 0 \<Rightarrow> Some (Inl DecEmptyTag)
         | Some index \<Rightarrow>
             if list_ex (\<lambda>digit. digit \<noteq> BASE37_SENTINEL) (drop (index + 1) digits)
             then Some (Inl EmbeddedSentinel)
             else map_option Inr (those (map value_char (take index digits)))
         | None \<Rightarrow> map_option Inr (those (map value_char digits)))"


section \<open>Crockford base 32\<close>

primrec fill_encoded :: "nat \<Rightarrow> u128 \<Rightarrow> string \<Rightarrow> string" where
  "fill_encoded 0 value encoded = encoded"
| "fill_encoded (Suc i) value encoded =
    fill_encoded i (drop_bit 5 value) (encoded[i := CROCKFORD_ALPHABET ! unat (value AND 0x1f)])"

definition encode_crockford_base32 :: "u8 list \<Rightarrow> string" where
  "encode_crockford_base32 packed =
    fill_encoded ID_LEN (from_be_bytes packed) (replicate ID_LEN CHR ''0'')"

definition crockford_value :: "char \<Rightarrow> u8 option" where
  "crockford_value ch =
    (if \<not> (of_char ch < (128 :: nat)) then None
     else map_option of_nat (position (\<lambda>candidate. candidate = ch) CROCKFORD_ALPHABET))"

primrec decode_loop :: "string \<Rightarrow> u128 \<Rightarrow> DecodeError + u128" where
  "decode_loop [] value = Inr value"
| "decode_loop (ch # chs) value =
    bind_result (ok_or (crockford_value ch) (DisallowedCrockfordCharacter ch)) (\<lambda>digit.
    bind_result (ok_or (Option.bind (checked_mul value 32) (\<lambda>value. checked_add value (ucast digit)))
                       Base32ValueOutOfRange) (\<lambda>value.
    decode_loop chs value))"

definition decode_crockford_base32 :: "string \<Rightarrow> DecodeError + u8 list" where
  "decode_crockford_base32 rid =
    (if length rid \<noteq> ID_LEN then Inl (WrongLength (length rid))
     else bind_result (decode_loop rid 0) (\<lambda>value. Inr (to_be_bytes PACKED_LEN value)))"

section \<open>Identifiers\<close>

definition timestamp_seconds :: "datetime \<Rightarrow> EncodeError + u32" where
  "timestamp_seconds timestamp =
    (if timestamp < custom_epoch then Inl TimestampBeforeCustomEpoch
     else let seconds = (timestamp - custom_epoch) div nanos_per_sec
       in if 0 \<le> seconds \<and> seconds < 2 ^ 32 then Inr (of_int seconds) else Inl TimestampTooLarge)"

definition encode_with_fixed_random ::
  "string \<Rightarrow> string \<Rightarrow> u16 \<Rightarrow> datetime \<Rightarrow> u8 list \<Rightarrow> EncodeError + string" where
  "encode_with_fixed_random site env broker_slot timestamp random =
    bind_result (pack_tag site) (\<lambda>site_packed.
    bind_result (pack_tag env) (\<lambda>env_packed.
    bind_result (timestamp_seconds timestamp) (\<lambda>timestamp_sec.
      Inr (encode_crockford_base32
        ([ID_VERSION] @ to_be_bytes 2 site_packed @ to_be_bytes 2 env_packed
          @ to_be_bytes 4 timestamp_sec @ to_be_bytes 2 broker_slot @ random)))))"

text \<open>\<open>encode\<close> draws the five random bytes from the operating system's generator, a
  parameter here.\<close>
definition encode :: "(nat \<Rightarrow> u8 list) \<Rightarrow> string \<Rightarrow> string \<Rightarrow> u16 \<Rightarrow> datetime \<Rightarrow> EncodeError + string" where
  "encode fill_bytes site env broker_slot timestamp =
    encode_with_fixed_random site env broker_slot timestamp (fill_bytes 5)"

text \<open>\<open>None\<close> is a panic; \<open>decode_no_panic\<close> below shows that there is none.\<close>
definition decode :: "string \<Rightarrow> (DecodeError + DecodedId) option" where
  "decode rid =
    (case decode_crockford_base32 rid of
       Inl e \<Rightarrow> Some (Inl e)
     | Inr packed \<Rightarrow>
       let version = packed ! 0 in
       if version \<noteq> ID_VERSION then Some (Inl (UnknownVersion version))
       else
         let site_packed = from_be_bytes [packed ! 1, packed ! 2];
             env_packed = from_be_bytes [packed ! 3, packed ! 4];
             timestamp_sec = (from_be_bytes [packed ! 5, packed ! 6, packed ! 7, packed ! 8] :: u32);
             broker_slot = from_be_bytes [packed ! 9, packed ! 10];
             random = take 5 (drop 11 packed)
         in case unpack_tag site_packed of
              None \<Rightarrow> None
            | Some (Inl e) \<Rightarrow> Some (Inl e)
            | Some (Inr site) \<Rightarrow>
                (case unpack_tag env_packed of
                   None \<Rightarrow> None
                 | Some (Inl e) \<Rightarrow> Some (Inl e)
                 | Some (Inr env) \<Rightarrow>
                     Some (Inr \<lparr> di_version = version, di_site = site, di_env = env,
                       di_timestamp = custom_epoch + uint timestamp_sec * nanos_per_sec,
                       di_broker_slot = broker_slot, di_random = random \<rparr>)))"

text \<open>The result of \<open>decode\<close> for its callers; the \<open>None\<close> branch is never taken.\<close>
definition decode_result :: "string \<Rightarrow> DecodeError + DecodedId" where
  "decode_result rid = (case decode rid of Some r \<Rightarrow> r | None \<Rightarrow> Inl DecEmptyTag)"

section \<open>Lemmas: tags\<close>

lemma tag_char_value_nat:
  "tag_char_value ch =
    (let n = of_char ch :: nat in
     if 48 \<le> n \<and> n \<le> 57 then Inr (of_nat (n - 48))
     else if 97 \<le> n \<and> n \<le> 122 then Inr (of_nat (n - 87))
     else Inl (InvalidTagCharacter ch))"
  by (simp add: tag_char_value_def less_eq_char_def Let_def of_nat_diff)

lemma value_char_nat:
  assumes "m < 36"
  shows "value_char (of_nat m) = Some (char_of (if m < 10 then 48 + m else 87 + m))"
proof -
  have le: "(of_nat m :: u16) \<le> of_nat k \<longleftrightarrow> m \<le> k" if "k < 36" for k
    using assms that by (simp add: word_le_nat_alt unat_of_nat)
  have cast: "(ucast (of_nat m :: u16) :: u8) = of_nat m"
    using assms by (simp add: word_unat_eq_iff unsigned_ucast_eq take_bit_nat_eq_self unat_of_nat)
  have sum: "(48 + of_nat m :: u8) = of_nat (48 + m)" "(97 + (of_nat m - 10) :: u8) = of_nat (87 + m)"
    by simp_all
  show ?thesis
    using assms le [of 9] le [of 35] by (simp add: value_char_def cast sum unat_of_nat del: of_nat_add)
qed

lemma value_char_digit:
  assumes "v < BASE37_SENTINEL"
  obtains ch where "value_char v = Some ch" "tag_char_value ch = Inr v"
proof -
  from assms have lt: "unat v < 36" by (simp add: BASE37_SENTINEL_def word_less_nat_alt)
  then have "value_char v = Some (char_of (if unat v < 10 then 48 + unat v else 87 + unat v))"
    using value_char_nat [OF lt] by simp
  with lt show thesis by (intro that) (auto simp: tag_char_value_nat Let_def split: if_splits)
qed

lemma tag_char_value_cases:
  assumes "tag_char_value ch = Inr v"
  shows "v < BASE37_SENTINEL \<and> value_char v = Some ch"
proof -
  from assms obtain m where m: "m < 36" "v = of_nat m"
    and ch: "of_char ch = (if m < 10 then 48 + m else 87 + m)"
    unfolding tag_char_value_nat Let_def
    by (cases "of_char ch \<le> (57::nat)")
      (auto simp del: of_nat_diff split: if_splits
        intro: that [of "of_char ch - 48"] that [of "of_char ch - 87"])
  from ch have "char_of (if m < 10 then 48 + m else 87 + m) = ch"
    by (metis char_of_char)
  with m show ?thesis
    by (simp add: value_char_nat BASE37_SENTINEL_def word_less_nat_alt unat_of_nat)
qed

lemma tag_char_value_Inr:
  "tag_char_value ch = Inr v \<longleftrightarrow> v < BASE37_SENTINEL \<and> value_char v = Some ch"
proof
  assume "tag_char_value ch = Inr v"
  then show "v < BASE37_SENTINEL \<and> value_char v = Some ch"
    using tag_char_value_cases [of ch] by simp
next
  assume v: "v < BASE37_SENTINEL \<and> value_char v = Some ch"
  then obtain ch' where "value_char v = Some ch'" "tag_char_value ch' = Inr v"
    using value_char_digit by blast
  with v show "tag_char_value ch = Inr v" by simp
qed

lemma value_char_Some_lt: "value_char v = Some ch \<Longrightarrow> v < BASE37_SENTINEL"
  by (auto simp: value_char_def BASE37_SENTINEL_def word_le_nat_alt word_less_nat_alt split: if_splits)

definition pack3 :: "u16 \<Rightarrow> u16 \<Rightarrow> u16 \<Rightarrow> u16" where
  "pack3 a b c = a * BASE37_RADIX * BASE37_RADIX + b * BASE37_RADIX + c"

lemmas base37_defs = BASE37_SENTINEL_def BASE37_RADIX_def BASE37_MAX_def

lemma uint_pack3:
  assumes "a \<le> BASE37_SENTINEL" "b \<le> BASE37_SENTINEL" "c \<le> BASE37_SENTINEL"
  shows "uint (pack3 a b c) = uint a * 1369 + uint b * 37 + uint c"
proof -
  from assms have le: "uint a \<le> 36" "uint b \<le> 36" "uint c \<le> 36"
    by (simp_all add: BASE37_SENTINEL_def word_le_def)
  moreover have "0 \<le> uint a" "0 \<le> uint b" "0 \<le> uint c" by simp_all
  ultimately show ?thesis
    by (simp add: pack3_def base37_defs uint_word_ariths mod_simps)
qed

lemma unpack3:
  assumes "a \<le> BASE37_SENTINEL" "b \<le> BASE37_SENTINEL" "c \<le> BASE37_SENTINEL"
  shows "pack3 a b c < BASE37_MAX"
    and "pack3 a b c div (BASE37_RADIX * BASE37_RADIX) = a"
    and "(pack3 a b c div BASE37_RADIX) mod BASE37_RADIX = b"
    and "pack3 a b c mod BASE37_RADIX = c"
proof -
  from assms have le: "uint a \<le> 36" "uint b \<le> 36" "uint c \<le> 36"
    by (simp_all add: BASE37_SENTINEL_def word_le_def)
  moreover have ge: "0 \<le> uint a" "0 \<le> uint b" "0 \<le> uint c" by simp_all
  note u = uint_pack3 [OF assms]
  show "pack3 a b c < BASE37_MAX"
    using le ge by (simp add: word_less_def u base37_defs)
  show "pack3 a b c div (BASE37_RADIX * BASE37_RADIX) = a"
  proof -
    have "(uint a * 1369 + uint b * 37 + uint c) div 1369 = uint a"
      using le ge by (intro int_div_pos_eq [where r = "uint b * 37 + uint c"]) simp_all
    then show ?thesis by (simp add: word_uint_eq_iff uint_div u base37_defs)
  qed
  show "(pack3 a b c div BASE37_RADIX) mod BASE37_RADIX = b"
  proof -
    have "(uint a * 1369 + uint b * 37 + uint c) div 37 = uint a * 37 + uint b"
      using le ge by (intro int_div_pos_eq [where r = "uint c"]) simp_all
    with le ge have "(uint a * 1369 + uint b * 37 + uint c) div 37 mod 37 = uint b" by simp
    then show ?thesis by (simp add: word_uint_eq_iff uint_div uint_mod u base37_defs)
  qed
  show "pack3 a b c mod BASE37_RADIX = c"
  proof -
    have "(uint a * 1369 + uint b * 37 + uint c) mod 37 = uint c"
      using le ge by (intro int_mod_pos_eq [where q = "uint a * 37 + uint b"]) simp_all
    then show ?thesis by (simp add: word_uint_eq_iff uint_mod u base37_defs)
  qed
qed

lemma pack3_cases:
  assumes "v < BASE37_MAX"
  obtains a b c where "v = pack3 a b c" "a \<le> BASE37_SENTINEL" "b \<le> BASE37_SENTINEL" "c \<le> BASE37_SENTINEL"
proof -
  let ?a = "v div (BASE37_RADIX * BASE37_RADIX)" and ?b = "(v div BASE37_RADIX) mod BASE37_RADIX"
    and ?c = "v mod BASE37_RADIX"
  have v: "0 \<le> uint v" "uint v < 50653" using assms by (simp_all add: word_less_def base37_defs)
  have le: "?a \<le> BASE37_SENTINEL" "?b \<le> BASE37_SENTINEL" "?c \<le> BASE37_SENTINEL"
    using v by (simp_all add: word_le_def uint_div uint_mod base37_defs)
  have "uint (pack3 ?a ?b ?c) = uint v"
  proof -
    have "uint v div 1369 = uint v div 37 div 37" by (simp add: zdiv_zmult2_eq [symmetric])
    moreover have "uint v div 37 * 37 + uint v mod 37 = uint v"
      "uint v div 37 div 37 * 37 + uint v div 37 mod 37 = uint v div 37" by simp_all
    ultimately have "uint v div 1369 * 1369 + uint v div 37 mod 37 * 37 + uint v mod 37 = uint v"
      by linarith
    then show ?thesis unfolding uint_pack3 [OF le] by (simp add: uint_div uint_mod base37_defs)
  qed
  then have "v = pack3 ?a ?b ?c" by (simp add: word_uint_eq_iff)
  with le show thesis by (rule that[rotated])
qed

lemma unpack_pack3:
  assumes "a \<le> BASE37_SENTINEL" "b \<le> BASE37_SENTINEL" "c \<le> BASE37_SENTINEL"
  shows "unpack_tag (pack3 a b c) =
    (if a = BASE37_SENTINEL then Some (Inl DecEmptyTag)
     else if b = BASE37_SENTINEL then
       if c = BASE37_SENTINEL then map_option Inr (those (map value_char [a])) else Some (Inl EmbeddedSentinel)
     else if c = BASE37_SENTINEL then map_option Inr (those (map value_char [a, b]))
     else map_option Inr (those (map value_char [a, b, c])))"
proof -
  note u = unpack3 [OF assms]
  from u(1) have "\<not> BASE37_MAX \<le> pack3 a b c" by simp
  then show ?thesis unfolding unpack_tag_def Let_def u(2-4)
    apply (simp only: position.simps if_False split: if_split)
    apply (simp only: option.map option.case nat.case split: if_split)
    apply (intro conjI impI)
    apply simp_all
    done
qed

lemma pack_tag_Inr:
  "pack_tag tag = Inr v \<longleftrightarrow>
    (\<exists>a ch. tag = [ch] \<and> tag_char_value ch = Inr a \<and> v = pack3 a BASE37_SENTINEL BASE37_SENTINEL) \<or>
    (\<exists>a b ch1 ch2. tag = [ch1, ch2] \<and> tag_char_value ch1 = Inr a \<and> tag_char_value ch2 = Inr b
       \<and> v = pack3 a b BASE37_SENTINEL) \<or>
    (\<exists>a b c ch1 ch2 ch3. tag = [ch1, ch2, ch3] \<and> tag_char_value ch1 = Inr a \<and> tag_char_value ch2 = Inr b
       \<and> tag_char_value ch3 = Inr c \<and> v = pack3 a b c)"
  apply (cases tag; cases "tl tag"; cases "tl (tl tag)"; cases "tl (tl (tl tag))")
  by (auto simp: pack_tag_def bind_result_eq_Inr eval_nat_numeral pack3_def)

lemma unpack_tag_iff_pack_tag:
  "unpack_tag v = Some (Inr tag) \<longleftrightarrow> pack_tag tag = Inr v"
proof
  assume "pack_tag tag = Inr v"
  then show "unpack_tag v = Some (Inr tag)"
    unfolding pack_tag_Inr tag_char_value_Inr
    by (elim disjE exE conjE) (auto simp add: unpack_pack3)
next
  assume un: "unpack_tag v = Some (Inr tag)"
  then have "v < BASE37_MAX" by (auto simp: unpack_tag_def split: if_splits)
  then obtain a b c where v: "v = pack3 a b c"
    and le: "a \<le> BASE37_SENTINEL" "b \<le> BASE37_SENTINEL" "c \<le> BASE37_SENTINEL"
    by (rule pack3_cases)
  with un show "pack_tag tag = Inr v"
    unfolding pack_tag_Inr v unpack_pack3 [OF le] tag_char_value_Inr
    by (fastforce split: if_splits option.splits dest: value_char_Some_lt)
qed

lemma value_char_None: "value_char v = None \<longleftrightarrow> BASE37_SENTINEL \<le> v"
  by (metis linorder_not_le option.distinct(1) option.exhaust value_char_Some_lt value_char_digit)

lemma unpack_tag_no_panic: "unpack_tag v \<noteq> None"
proof (cases "v < BASE37_MAX")
  case True
  then obtain a b c where v: "v = pack3 a b c"
    and le: "a \<le> BASE37_SENTINEL" "b \<le> BASE37_SENTINEL" "c \<le> BASE37_SENTINEL"
    by (rule pack3_cases)
  from le show ?thesis unfolding v unpack_pack3 [OF le] by (auto simp: value_char_None split: option.splits)
next
  case False
  then show ?thesis by (simp add: unpack_tag_def [of v] linorder_not_less)
qed

section \<open>Lemmas: Crockford base 32\<close>

lemma length_CROCKFORD [simp]: "length CROCKFORD_ALPHABET = 32"
  by (simp add: CROCKFORD_ALPHABET_def)

lemma distinct_CROCKFORD: "distinct CROCKFORD_ALPHABET"
  by (simp add: CROCKFORD_ALPHABET_def)

lemma ascii_CROCKFORD: "ch \<in> set CROCKFORD_ALPHABET \<Longrightarrow> of_char ch < (128 :: nat)"
  by (auto simp: CROCKFORD_ALPHABET_def)

lemma position_eq_Some:
  "distinct xs \<Longrightarrow> position (\<lambda>c. c = x) xs = Some i \<longleftrightarrow> i < length xs \<and> xs ! i = x"
proof (induction xs arbitrary: i)
  case (Cons y ys)
  then show ?case by (cases i) (auto simp: in_set_conv_nth)
qed simp

lemma position_eq_None: "position (\<lambda>c. c = x) xs = None \<longleftrightarrow> x \<notin> set xs"
  by (induction xs) auto

lemma crockford_value_Some:
  "crockford_value ch = Some d \<longleftrightarrow> unat d < 32 \<and> CROCKFORD_ALPHABET ! unat d = ch"
proof
  assume "crockford_value ch = Some d"
  then obtain i where i: "position (\<lambda>c. c = ch) CROCKFORD_ALPHABET = Some i" "d = of_nat i"
    by (auto simp: crockford_value_def split: if_splits)
  then have "i < 32" "CROCKFORD_ALPHABET ! i = ch"
    by (simp_all add: position_eq_Some [OF distinct_CROCKFORD])
  with i(2) show "unat d < 32 \<and> CROCKFORD_ALPHABET ! unat d = ch"
    by (simp add: unat_of_nat)
next
  assume d: "unat d < 32 \<and> CROCKFORD_ALPHABET ! unat d = ch"
  then have "position (\<lambda>c. c = ch) CROCKFORD_ALPHABET = Some (unat d)"
    unfolding position_eq_Some [OF distinct_CROCKFORD] by simp
  moreover have "of_char ch < (128 :: nat)"
    using d by (intro ascii_CROCKFORD) (auto simp: in_set_conv_nth)
  ultimately show "crockford_value ch = Some d" by (simp add: crockford_value_def)
qed

lemma crockford_value_None: "crockford_value ch = None \<longleftrightarrow> ch \<notin> set CROCKFORD_ALPHABET"
  by (auto simp: crockford_value_def position_eq_None dest: ascii_CROCKFORD)

lemma fill_encoded_digits:
  "n \<le> length enc \<Longrightarrow>
    fill_encoded n v enc = map (\<lambda>d. CROCKFORD_ALPHABET ! nat d) (digits_be 32 n (uint v)) @ drop n enc"
proof (induction n arbitrary: v enc)
  case (Suc n)
  have "uint (drop_bit 5 v) = uint v div 32"
    by (simp add: drop_bit_eq_div uint_div)
  moreover have "unat (v AND 0x1f) = nat (uint v mod 32)"
  proof -
    have "v AND 0x1f = take_bit 5 v" by (simp add: take_bit_eq_mask mask_eq_exp_minus_1)
    then have "uint (v AND 0x1f) = uint v mod 32"
      by (simp add: take_bit_eq_mod uint_mod)
    then show ?thesis by (metis nat_uint_eq)
  qed
  ultimately show ?case using Suc
    by (simp add: Cons_nth_drop_Suc [symmetric])
qed simp

lemma encode_crockford_digits:
  "encode_crockford_base32 packed =
    map (\<lambda>d. CROCKFORD_ALPHABET ! nat d) (digits_be 32 26 (uint (from_be_bytes packed :: u128)))"
  by (simp add: encode_crockford_base32_def fill_encoded_digits ID_LEN_def)

lemma decode_loop_Inr:
  "decode_loop s v = Inr w \<longleftrightarrow>
    (\<exists>ds. map crockford_value s = map Some ds \<and> foldl (\<lambda>a d. a * 32 + uint d) (uint v) ds = uint w)"
proof (induction s arbitrary: v)
  case Nil
  then show ?case by (simp add: word_uint_eq_iff)
next
  case (Cons ch s)
  have mono: "a \<le> foldl (\<lambda>a d. a * 32 + uint d) a ds" if "0 \<le> a" for a and ds :: "u8 list"
    using that
  proof (induction ds arbitrary: a)
    case (Cons d ds)
    have "0 \<le> uint d" by simp
    with \<open>0 \<le> a\<close> have "a \<le> a * 32 + uint d" "0 \<le> a * 32 + uint d" by simp_all
    with Cons.IH [of "a * 32 + uint d"] show ?case by simp
  qed simp
  show ?case
  proof (cases "crockford_value ch")
    case None
    then show ?thesis by auto
  next
    case (Some d)
    have d: "0 \<le> uint d" "uint d < 256" using uint_u8_range [of d] by simp_all
    have cast: "uint (ucast d :: u128) = uint d"
      using d by (simp add: unsigned_ucast_eq take_bit_int_eq_self)
    show ?thesis
    proof (cases "uint v * 32 + uint d < 2 ^ 128")
      case True
      then have "uint v * 32 < 2 ^ 128" using d by linarith
      then have "checked_mul v 32 = Some (v * 32)" "uint (v * 32) = uint v * 32"
        using uint_mult_no_overflow [of v 32] by (simp_all add: checked_mul_def)
      moreover have "checked_add (v * 32) (ucast d) = Some (v * 32 + ucast d)"
        "uint (v * 32 + ucast d) = uint v * 32 + uint d"
        using True by (simp_all add: checked_add_def uint_add_no_overflow calculation(2) cast)
      ultimately show ?thesis using Some Cons.IH
        by (fastforce simp: Cons_eq_map_conv)
    next
      case False
      have "Option.bind (checked_mul v 32) (\<lambda>v. checked_add v (ucast d)) = None"
        using False by (auto simp: checked_mul_def checked_add_None cast uint_mult_no_overflow)
      moreover have "foldl (\<lambda>a d. a * 32 + uint d) (uint v * 32 + uint d) ds \<noteq> uint w" for ds :: "u8 list"
        using mono [of "uint v * 32 + uint d" ds] False d unsigned_less [of w, where 'a = int] by simp
      ultimately show ?thesis using Some by auto
    qed
  qed
qed


lemma decode_crockford_Inr:
  "decode_crockford_base32 rid = Inr bytes \<longleftrightarrow> length bytes = 16 \<and> encode_crockford_base32 bytes = rid"
proof
  assume "decode_crockford_base32 rid = Inr bytes"
  then obtain w where len: "length rid = 26" and loop: "decode_loop rid 0 = Inr w"
    and bytes: "bytes = to_be_bytes 16 w"
    by (auto simp: decode_crockford_base32_def ID_LEN_def PACKED_LEN_def bind_result_eq_Inr split: if_splits)
  from loop obtain ds where ds: "map crockford_value rid = map Some ds"
    and fold: "value_be 32 (map uint ds) = uint w"
    by (auto simp: decode_loop_Inr value_be_def foldl_map)
  from ds have lds: "length ds = 26" using len by (metis length_map)
  have nth: "crockford_value (rid ! i) = Some (ds ! i)" if "i < 26" for i
    using that ds len lds by (metis nth_map)
  have rng: "\<forall>d \<in> set (map uint ds). 0 \<le> d \<and> d < 32"
  proof -
    have "uint (ds ! i) < 32" if "i < 26" for i
      using nth [OF that] by (simp add: crockford_value_Some unat_less_numeral_uint)
    then show ?thesis by (auto simp: in_set_conv_nth lds)
  qed
  have "digits_be 32 26 (uint w) = map uint ds"
    using digits_value_be [OF rng] by (simp add: fold lds)
  moreover have "from_be_bytes bytes = w" by (simp add: bytes from_to_be_bytes)
  ultimately have "encode_crockford_base32 bytes = map (\<lambda>d. CROCKFORD_ALPHABET ! unat d) ds"
    by (simp add: encode_crockford_digits comp_def)
  also have "\<dots> = rid"
    using nth len lds by (intro nth_equalityI) (auto simp: crockford_value_Some)
  finally show "length bytes = 16 \<and> encode_crockford_base32 bytes = rid" by (simp add: bytes)
next
  assume asm: "length bytes = 16 \<and> encode_crockford_base32 bytes = rid"
  let ?w = "from_be_bytes bytes :: u128"
  let ?ds = "digits_be 32 26 (uint ?w)"
  have rng: "0 \<le> d \<and> d < 32" if "d \<in> set ?ds" for d
    using that by (intro digits_be_range) simp_all
  have id: "map uint (map of_int ?ds :: u8 list) = ?ds"
  proof -
    have "uint (of_int d :: u8) = d" if "d \<in> set ?ds" for d
      using rng [OF that] by (intro uint_of_int_small) simp_all
    then show ?thesis unfolding map_map comp_def by (intro map_idI)
  qed
  have val: "crockford_value (CROCKFORD_ALPHABET ! nat d) = Some (of_int d)" if "d \<in> set ?ds" for d
  proof -
    have u: "unat (of_int d :: u8) = nat d"
      using rng [OF that] uint_of_int_small [of d, where 'a = 8] by (simp flip: nat_uint_eq)
    show ?thesis using rng [OF that] unfolding crockford_value_Some u by auto
  qed
  have "map crockford_value rid = map Some (map of_int ?ds)"
    using asm val by (auto simp: encode_crockford_digits)
  moreover have "foldl (\<lambda>a d. a * 32 + uint d) 0 (map of_int ?ds :: u8 list) = uint ?w"
  proof -
    have "uint ?w < 32 ^ 26" using unsigned_less [of ?w, where 'a = int] by simp
    then have "value_be 32 (map uint (map of_int ?ds :: u8 list)) = uint ?w"
      unfolding id by (simp add: value_digits_be)
    then show ?thesis by (simp add: value_be_def foldl_map)
  qed
  ultimately have "decode_loop rid 0 = Inr ?w" unfolding decode_loop_Inr unsigned_0 by blast
  moreover have "length rid = 26" using asm by (auto simp: encode_crockford_digits)
  moreover have "to_be_bytes 16 ?w = bytes"
    using asm to_from_be_bytes [where 'a = 128 and bs = bytes] by simp
  ultimately show "decode_crockford_base32 rid = Inr bytes"
    by (simp add: decode_crockford_base32_def ID_LEN_def PACKED_LEN_def)
qed


section \<open>Lemmas: identifiers\<close>

lemma timestamp_seconds_Inr:
  "timestamp_seconds ts = Inr s \<longleftrightarrow>
    custom_epoch \<le> ts \<and> (ts - custom_epoch) div nanos_per_sec = uint s"
proof -
  have "uint s < 2 ^ 32" using unsigned_less [of s, where 'a = int] by simp
  moreover have "0 \<le> (ts - custom_epoch) div nanos_per_sec" if "custom_epoch \<le> ts"
    using that by (simp add: pos_imp_zdiv_nonneg_iff)
  ultimately show ?thesis
    by (auto simp: timestamp_seconds_def Let_def uint_of_int_small)
qed

lemma length_two: "length xs = 2 \<Longrightarrow> \<exists>a b. xs = [a, b]"
  by (auto simp: length_Suc_conv eval_nat_numeral)

lemma length_four: "length xs = 4 \<Longrightarrow> \<exists>a b c d. xs = [a, b, c, d]"
  by (auto simp: length_Suc_conv eval_nat_numeral)

text \<open>The packed layout: reading the fields of the sixteen bytes back.\<close>

lemma packed_fields:
  fixes s e b :: u16 and t :: u32 and v :: u8
  assumes "length r = 5"
  defines "packed \<equiv> [v] @ to_be_bytes 2 s @ to_be_bytes 2 e @ to_be_bytes 4 t @ to_be_bytes 2 b @ r"
  shows "length packed = 16" "packed ! 0 = v"
    "from_be_bytes [packed ! 1, packed ! 2] = s"
    "from_be_bytes [packed ! 3, packed ! 4] = e"
    "from_be_bytes [packed ! 5, packed ! 6, packed ! 7, packed ! 8] = t"
    "from_be_bytes [packed ! 9, packed ! 10] = b"
    "take 5 (drop 11 packed) = r"
proof -
  obtain s0 s1 where s: "to_be_bytes 2 s = [s0, s1]"
    using length_two [OF length_to_be_bytes] by blast
  obtain e0 e1 where e: "to_be_bytes 2 e = [e0, e1]"
    using length_two [OF length_to_be_bytes] by blast
  obtain b0 b1 where b: "to_be_bytes 2 b = [b0, b1]"
    using length_two [OF length_to_be_bytes] by blast
  obtain t0 t1 t2 t3 where t: "to_be_bytes 4 t = [t0, t1, t2, t3]"
    using length_four [OF length_to_be_bytes] by blast
  have packed: "packed = [v, s0, s1, e0, e1, t0, t1, t2, t3, b0, b1] @ r"
    by (simp add: packed_def s e b t)
  have rd: "from_be_bytes [s0, s1] = s" "from_be_bytes [e0, e1] = e" "from_be_bytes [b0, b1] = b"
    "from_be_bytes [t0, t1, t2, t3] = t"
    using from_to_be_bytes [of 2 s] from_to_be_bytes [of 2 e] from_to_be_bytes [of 2 b]
      from_to_be_bytes [of 4 t] by (simp_all add: s e b t)
  show "length packed = 16" "packed ! 0 = v"
    "from_be_bytes [packed ! 1, packed ! 2] = s"
    "from_be_bytes [packed ! 3, packed ! 4] = e"
    "from_be_bytes [packed ! 5, packed ! 6, packed ! 7, packed ! 8] = t"
    "from_be_bytes [packed ! 9, packed ! 10] = b"
    "take 5 (drop 11 packed) = r"
    unfolding packed by (simp_all add: rd assms(1))
qed

lemma packed_split:
  fixes packed :: "u8 list"
  assumes "length packed = 16"
  shows "packed = [packed ! 0] @ to_be_bytes 2 (from_be_bytes [packed ! 1, packed ! 2] :: u16)
    @ to_be_bytes 2 (from_be_bytes [packed ! 3, packed ! 4] :: u16)
    @ to_be_bytes 4 (from_be_bytes [packed ! 5, packed ! 6, packed ! 7, packed ! 8] :: u32)
    @ to_be_bytes 2 (from_be_bytes [packed ! 9, packed ! 10] :: u16) @ take 5 (drop 11 packed)"
proof -
  have two: "to_be_bytes 2 (from_be_bytes [x, y] :: u16) = [x, y]" for x y
    using to_from_be_bytes [where 'a = 16 and bs = "[x, y]"] by (simp add: eval_nat_numeral)
  have four: "to_be_bytes 4 (from_be_bytes [x, y, z, w] :: u32) = [x, y, z, w]" for x y z w
    using to_from_be_bytes [where 'a = 32 and bs = "[x, y, z, w]"] by (simp add: eval_nat_numeral)
  have "packed = map (\<lambda>i. packed ! i) [0..<16]"
    using assms map_nth [of packed] by simp
  also have "[0..<16] = [0, 1, 2, 3, 4, 5, 6, 7, 8, 9, 10] @ [11..<16]" by (simp add: upt_rec)
  also have "map (\<lambda>i. packed ! i) [11..<16] = take 5 (drop 11 packed)"
    using assms by (intro nth_equalityI) (simp_all del: upt_rec_numeral)
  ultimately show ?thesis by (simp add: two four)
qed

lemma decode_no_panic: "decode rid \<noteq> None"
  by (auto simp: decode_def Let_def unpack_tag_no_panic simp del: not_None_eq
      split: sum.splits option.splits)

lemma decode_Inr:
  "decode rid = Some (Inr d) \<longleftrightarrow>
    (\<exists>packed. length packed = 16 \<and> encode_crockford_base32 packed = rid \<and>
      packed ! 0 = ID_VERSION \<and> di_version d = ID_VERSION \<and>
      pack_tag (di_site d) = Inr (from_be_bytes [packed ! 1, packed ! 2]) \<and>
      pack_tag (di_env d) = Inr (from_be_bytes [packed ! 3, packed ! 4]) \<and>
      di_timestamp d = custom_epoch
        + uint (from_be_bytes [packed ! 5, packed ! 6, packed ! 7, packed ! 8] :: u32) * nanos_per_sec \<and>
      di_broker_slot d = from_be_bytes [packed ! 9, packed ! 10] \<and>
      di_random d = take 5 (drop 11 packed))"
  (is "?L = ?R")
proof
  assume ?L
  then obtain packed where p: "decode_crockford_base32 rid = Inr packed"
    by (auto simp: decode_def split: sum.splits)
  with \<open>?L\<close> show ?R
    unfolding decode_crockford_Inr
    by (intro exI [of _ packed])
      (auto simp: decode_def p Let_def decode_crockford_Inr unpack_tag_iff_pack_tag
        split: sum.splits option.splits if_splits)
next
  assume ?R
  then obtain packed where p: "decode_crockford_base32 rid = Inr packed"
    and f: "packed ! 0 = ID_VERSION" "di_version d = ID_VERSION"
      "unpack_tag (from_be_bytes [packed ! 1, packed ! 2]) = Some (Inr (di_site d))"
      "unpack_tag (from_be_bytes [packed ! 3, packed ! 4]) = Some (Inr (di_env d))"
      "di_timestamp d = custom_epoch
        + uint (from_be_bytes [packed ! 5, packed ! 6, packed ! 7, packed ! 8] :: u32) * nanos_per_sec"
      "di_broker_slot d = from_be_bytes [packed ! 9, packed ! 10]"
      "di_random d = take 5 (drop 11 packed)"
    unfolding unpack_tag_iff_pack_tag decode_crockford_Inr by blast
  then show ?L by (cases d) (simp add: decode_def Let_def)
qed


lemma encode_with_fixed_random_Inr:
  "encode_with_fixed_random site env slot ts random = Inr rid \<longleftrightarrow>
    (\<exists>s e t. pack_tag site = Inr s \<and> pack_tag env = Inr e \<and> timestamp_seconds ts = Inr t \<and>
      rid = encode_crockford_base32 ([ID_VERSION] @ to_be_bytes 2 s @ to_be_bytes 2 e
        @ to_be_bytes 4 t @ to_be_bytes 2 slot @ random))"
  by (auto simp: encode_with_fixed_random_def bind_result_eq_Inr)

lemma decode_loop_error:
  "decode_loop s v = Inl e \<Longrightarrow> e = Base32ValueOutOfRange \<or>
    (\<exists>ch \<in> set s. ch \<notin> set CROCKFORD_ALPHABET \<and> e = DisallowedCrockfordCharacter ch)"
  by (induction s arbitrary: v) (auto simp: bind_result_eq_Inl ok_or_eq crockford_value_None)

lemma decode_loop_disallowed:
  assumes "uint v < 32 ^ k" "k + length s \<le> 26" "find (\<lambda>c. c \<notin> set CROCKFORD_ALPHABET) s = Some ch"
  shows "decode_loop s v = Inl (DisallowedCrockfordCharacter ch)"
  using assms
proof (induction s arbitrary: v k)
  case (Cons c s)
  show ?case
  proof (cases "crockford_value c")
    case None
    then have "c \<notin> set CROCKFORD_ALPHABET" by (simp add: crockford_value_None)
    with None Cons.prems(3) show ?thesis by simp
  next
    case (Some d)
    then have c: "c \<in> set CROCKFORD_ALPHABET" using crockford_value_None [of c] by simp
    from Some have d: "0 \<le> uint d" "uint d < 32"
      by (simp_all add: crockford_value_Some unat_less_numeral_uint)
    from c Cons.prems have rest: "find (\<lambda>c. c \<notin> set CROCKFORD_ALPHABET) s = Some ch" by simp
    then have "s \<noteq> []" by auto
    then have k: "Suc k \<le> 25" using Cons.prems(2) by (cases s) auto
    have lt: "uint v * 32 + uint d < 32 ^ Suc k" using Cons.prems(1) d by simp
    also have "(32::int) ^ Suc k \<le> 32 ^ 25" using k by (intro power_increasing) auto
    finally have small: "uint v * 32 + uint d < 2 ^ 128" by simp
    then have "uint v * 32 < 2 ^ 128" using d by linarith
    then have mul: "checked_mul v 32 = Some (v * 32)" "uint (v * 32) = uint v * 32"
      using uint_mult_no_overflow [of v 32] d by (auto simp: checked_mul_def)
    have cast: "uint (ucast d :: u128) = uint d"
      using d by (simp add: unsigned_ucast_eq take_bit_int_eq_self)
    have add: "checked_add (v * 32) (ucast d) = Some (v * 32 + ucast d)"
        "uint (v * 32 + ucast d) = uint v * 32 + uint d"
      using small mul(2) cast uint_add_no_overflow [of "v * 32" "ucast d"] by (auto simp: checked_add_def)
    have "decode_loop s (v * 32 + ucast d) = Inl (DisallowedCrockfordCharacter ch)"
      using Cons.prems(2) lt rest by (intro Cons.IH [of _ "Suc k"]) (simp_all add: add(2))
    with Some mul(1) add(1) show ?thesis by simp
  qed
qed simp

lemma value_be_Cons: "value_be b (d # ds) = d * b ^ length ds + value_be b ds"
  by (induction ds rule: rev_induct) (simp_all add: value_be_def algebra_simps)

lemma decode_loop_valid:
  assumes len: "length rid = 26" and ok: "find (\<lambda>c. c \<notin> set CROCKFORD_ALPHABET) rid = None"
  shows "decode_loop rid 0 =
    (if rid ! 0 \<in> set (take 8 CROCKFORD_ALPHABET)
     then Inr (of_int (value_be 32 (map (uint \<circ> the \<circ> crockford_value) rid)))
     else Inl Base32ValueOutOfRange)"
proof -
  define ds where "ds = map (the \<circ> crockford_value) rid"
  have all: "c \<in> set CROCKFORD_ALPHABET" if "c \<in> set rid" for c
    using that ok by (auto simp: find_None_iff)
  then have ds: "map crockford_value rid = map Some ds"
    by (auto simp: ds_def crockford_value_None dest!: all intro!: nth_equalityI)
  have rng: "\<forall>d \<in> set (map uint ds). 0 \<le> d \<and> d < 32"
    using all by (auto simp: ds_def) (metis crockford_value_None crockford_value_Some option.collapse unat_less_numeral_uint)
  define V where "V = value_be 32 (map uint ds)"
  obtain d0 ds' where split: "ds = d0 # ds'" "length ds' = 25"
    using len by (cases ds) (auto simp: ds_def)
  have "0 \<le> value_be 32 (map uint ds') \<and> value_be 32 (map uint ds') < 32 ^ 25"
    using value_be_range [of "map uint ds'" 32] rng split by simp
  then have V: "0 \<le> V" "V < 2 ^ 128 \<longleftrightarrow> uint d0 < 8"
    using split by (auto simp: V_def value_be_Cons)
  have head: "rid ! 0 \<in> set (take 8 CROCKFORD_ALPHABET) \<longleftrightarrow> uint d0 < 8"
  proof -
    have "crockford_value (rid ! 0) = Some d0"
      using ds len split by (metis length_greater_0_conv list.map_disc_iff list.size(3) nth_Cons_0 nth_map zero_neq_numeral)
    then have d0: "unat d0 < 32" "rid ! 0 = CROCKFORD_ALPHABET ! unat d0" by (simp_all add: crockford_value_Some)
    have "CROCKFORD_ALPHABET ! unat d0 \<in> set (take 8 CROCKFORD_ALPHABET) \<longleftrightarrow> unat d0 < 8"
      using d0(1) distinct_CROCKFORD
      by (auto simp: in_set_conv_nth nth_eq_iff_index_eq)
    then show ?thesis using d0(2) by (simp add: unat_less_numeral_uint)
  qed
  have loop: "decode_loop rid 0 = Inr w \<longleftrightarrow> V = uint w" for w
    by (auto simp: decode_loop_Inr ds V_def value_be_def foldl_map)
  show ?thesis
  proof (cases "uint d0 < 8")
    case True
    with V have "uint (of_int V :: u128) = V" by (simp add: uint_of_int_small)
    then have "decode_loop rid 0 = Inr (of_int V)" by (simp add: loop)
    with True show ?thesis by (simp add: head V_def ds_def comp_assoc)
  next
    case False
    then have "decode_loop rid 0 \<noteq> Inr w" for w
      using V unsigned_less [of w, where 'a = int] by (auto simp: loop)
    then obtain e where e: "decode_loop rid 0 = Inl e" by (cases "decode_loop rid 0") auto
    with decode_loop_error [OF e] all have "e = Base32ValueOutOfRange" by blast
    with False e show ?thesis by (simp add: head)
  qed
qed

lemma tag_char_value_domain:
  "(\<exists>v. tag_char_value ch = Inr v) \<longleftrightarrow> ch \<in> {CHR ''0''..CHR ''9''} \<union> {CHR ''a''..CHR ''z''}"
  by (auto simp: tag_char_value_def)

lemma fill_digits_domain:
  "(\<exists>ds. fill_digits i tag digits = Inr ds) \<longleftrightarrow> (\<forall>ch \<in> set tag. \<exists>v. tag_char_value ch = Inr v)"
proof (induction tag arbitrary: i digits)
  case (Cons ch tag)
  then show ?case by (cases "tag_char_value ch") auto
qed simp

lemma pack_tag_domain:
  "(\<exists>v. pack_tag tag = Inr v) \<longleftrightarrow> tag \<noteq> [] \<and> length tag \<le> 3 \<and>
    set tag \<subseteq> {CHR ''0''..CHR ''9''} \<union> {CHR ''a''..CHR ''z''}"
proof -
  have "(\<exists>v. pack_tag tag = Inr v) \<longleftrightarrow> tag \<noteq> [] \<and> length tag \<le> 3 \<and>
      (\<exists>ds. fill_digits 0 tag (replicate 3 BASE37_SENTINEL) = Inr ds)"
    by (auto simp: pack_tag_def bind_result_eq_Inr)
  then show ?thesis by (simp only: fill_digits_domain tag_char_value_domain subset_eq)
qed

section \<open>Properties\<close>

lemma decode_of_encode:
  assumes "encode_with_fixed_random site env slot ts random = Inr rid" and "length random = 5"
  shows "decode rid = Some (Inr \<lparr> di_version = ID_VERSION, di_site = site, di_env = env,
    di_timestamp = ts - (ts - custom_epoch) mod nanos_per_sec,
    di_broker_slot = slot, di_random = random \<rparr>)"
proof -
  from assms(1) obtain s e t where f: "pack_tag site = Inr s" "pack_tag env = Inr e"
      "timestamp_seconds ts = Inr t"
    and rid: "rid = encode_crockford_base32 ([ID_VERSION] @ to_be_bytes 2 s @ to_be_bytes 2 e
        @ to_be_bytes 4 t @ to_be_bytes 2 slot @ random)" (is "_ = encode_crockford_base32 ?p")
    by (auto simp: encode_with_fixed_random_Inr)
  have "custom_epoch + uint t * nanos_per_sec = ts - (ts - custom_epoch) mod nanos_per_sec"
  proof -
    have "uint t * nanos_per_sec + (ts - custom_epoch) mod nanos_per_sec = ts - custom_epoch"
      using f(3) div_mult_mod_eq [of "ts - custom_epoch" nanos_per_sec]
      by (simp add: timestamp_seconds_Inr)
    then show ?thesis by linarith
  qed
  then show ?thesis
    unfolding decode_Inr using f
    by (intro exI [of _ ?p] conjI) (simp_all only: packed_fields [OF assms(2)] rid DecodedId.simps)
qed

text \<open>C5 Round trip: whatever \<open>encode_with_fixed_random\<close> accepts, \<open>decode\<close> reads back: the
  version, both tags, the broker slot and the random bytes exactly, and the timestamp truncated
  to the whole second.\<close>
theorem decode_encode:
  assumes "encode_with_fixed_random site env slot ts random = Inr rid" and "length random = 5"
  shows "decode rid = Some (Inr \<lparr> di_version = ID_VERSION, di_site = site, di_env = env,
    di_timestamp = ts - (ts - custom_epoch) mod nanos_per_sec,
    di_broker_slot = slot, di_random = random \<rparr>)"
  by (rule decode_of_encode[OF assms])

theorem decode_encode_witness:
  "decode ''017sg4fag005yaa01a04hmasw9'' = Some (Inr \<lparr> di_version = ID_VERSION, di_site = ''bol'',
    di_env = ''dev'', di_timestamp = 1735787045000000000, di_broker_slot = 42,
    di_random = [0x01, 0x23, 0x45, 0x67, 0x89] \<rparr>)"
proof -
  have "encode_with_fixed_random ''bol'' ''dev'' 42 1735787045678000000 [0x01, 0x23, 0x45, 0x67, 0x89]
    = Inr ''017sg4fag005yaa01a04hmasw9''" by code_simp
  from decode_encode [OF this] show ?thesis by (simp add: custom_epoch_def)
qed

text \<open>C6 Canonical form: an identifier that decodes is the one and only encoding of the decoded
  fields, so two different strings never denote the same identifier.\<close>
theorem encode_decode:
  assumes "decode rid = Some (Inr d)"
  shows "encode_with_fixed_random (di_site d) (di_env d) (di_broker_slot d) (di_timestamp d) (di_random d)
    = Inr rid"
proof -
  from assms obtain packed where p: "length packed = 16" "encode_crockford_base32 packed = rid"
      "packed ! 0 = ID_VERSION" "pack_tag (di_site d) = Inr (from_be_bytes [packed ! 1, packed ! 2])"
      "pack_tag (di_env d) = Inr (from_be_bytes [packed ! 3, packed ! 4])"
      "di_broker_slot d = from_be_bytes [packed ! 9, packed ! 10]"
      "di_random d = take 5 (drop 11 packed)"
    and ts: "di_timestamp d = custom_epoch
        + uint (from_be_bytes [packed ! 5, packed ! 6, packed ! 7, packed ! 8] :: u32) * nanos_per_sec"
    by (auto simp: decode_Inr)
  from ts have "timestamp_seconds (di_timestamp d)
      = Inr (from_be_bytes [packed ! 5, packed ! 6, packed ! 7, packed ! 8])"
    by (simp add: timestamp_seconds_Inr)
  with p packed_split [OF p(1)] show ?thesis
    unfolding encode_with_fixed_random_Inr by metis
qed


theorem encode_decode_witness:
  "encode_with_fixed_random ''bol'' ''dev'' 42 1735787045000000000 [0x01, 0x23, 0x45, 0x67, 0x89]
    = Inr ''017sg4fag005yaa01a04hmasw9''"
proof -
  have "decode ''017sg4fag005yaa01a04hmasw9'' = Some (Inr \<lparr> di_version = 1, di_site = ''bol'',
    di_env = ''dev'', di_timestamp = 1735787045000000000, di_broker_slot = 42,
    di_random = [0x01, 0x23, 0x45, 0x67, 0x89] \<rparr>)" by code_simp
  from encode_decode [OF this] show ?thesis by simp
qed

text \<open>Exactly which strings \<open>decode_crockford_base32\<close> accepts, and the error of every other: a
  string that is not 26 characters long, the first character outside the alphabet, and a first
  character above \<open>7\<close> (which would need more than 128 bits), in this order of precedence.\<close>
lemma decode_crockford_base32_total:
  "decode_crockford_base32 rid =
    (if length rid \<noteq> 26 then Inl (WrongLength (length rid))
     else case find (\<lambda>c. c \<notin> set CROCKFORD_ALPHABET) rid of
         Some ch \<Rightarrow> Inl (DisallowedCrockfordCharacter ch)
       | None \<Rightarrow>
         if rid ! 0 \<in> set (take 8 CROCKFORD_ALPHABET)
         then Inr (to_be_bytes 16 (of_int (value_be 32 (map (uint \<circ> the \<circ> crockford_value) rid)) :: u128))
         else Inl Base32ValueOutOfRange)"
proof -
  consider "length rid \<noteq> 26" | ch where "length rid = 26" "find (\<lambda>c. c \<notin> set CROCKFORD_ALPHABET) rid = Some ch"
    | "length rid = 26" "find (\<lambda>c. c \<notin> set CROCKFORD_ALPHABET) rid = None"
    by fastforce
  then show ?thesis
  proof cases
    case 2
    then show ?thesis
      using decode_loop_disallowed [of 0 0 rid ch]
      by (simp add: decode_crockford_base32_def ID_LEN_def)
  next
    case 3
    then show ?thesis by (simp add: decode_crockford_base32_def ID_LEN_def PACKED_LEN_def decode_loop_valid)
  qed (simp add: decode_crockford_base32_def ID_LEN_def)
qed


end
