(* ===== verification/Job_Model.thy ===== *)
theory Job_Model
  imports Request_Id
begin

text \<open>
  Jobs, their results and the error types (\<open>bits/src/job.rs\<close>, \<open>result.rs\<close>, \<open>error.rs\<close>, the
  error and result types of \<open>actions/mod.rs\<close>, the record types of \<open>db/mod.rs\<close>).

  A \<open>Job\<close> owns its request, result slot and \<open>persisted\<close> flag; the lifecycle cells
  (\<open>cancelled\<close>, \<open>active_pollers\<close>, \<open>reconnect_deadline_nanos\<close>, \<open>pending_status\<close> and the two
  \<open>Notify\<close> objects) are behind \<open>Arc\<close>s which every clone shares.  They are one cell of an
  explicit heap, named by the job's address \<open>job_lc\<close>; a \<open>Notify\<close> is the number of times it
  has been notified.  The other \<open>Arc\<close>s are copy-on-write and are plain values.
\<close>

section \<open>Results\<close>

text \<open>A byte stream is the sequence of chunks it yields, an \<open>io::Error\<close> being its message.\<close>
type_synonym ByteStream = "(string + u8 list) list"

datatype JobResult =
    JR_Success string int ByteStream
  | JR_Redirect string string "string option" "u64 option"
  | JR_Error string
  | JR_Failed string
  | JR_Overloaded string
  | JR_RateLimited string
  | JR_Cancelled
  | JR_ClientGone

definition is_deliverable :: "JobResult \<Rightarrow> bool" where
  "is_deliverable r = (case r of JR_Success _ _ _ \<Rightarrow> True | JR_Redirect _ _ _ _ \<Rightarrow> True | _ \<Rightarrow> False)"

primrec job_result_outcome :: "JobResult \<Rightarrow> string" where
  "job_result_outcome (JR_Success ct sz st) = ''success''"
| "job_result_outcome (JR_Redirect l m ct cl) = ''redirect''"
| "job_result_outcome (JR_Error m) = ''error''"
| "job_result_outcome (JR_Failed r) = ''failed''"
| "job_result_outcome (JR_Overloaded r) = ''overloaded''"
| "job_result_outcome (JR_RateLimited r) = ''rate_limited''"
| "job_result_outcome JR_Cancelled = ''cancelled''"
| "job_result_outcome JR_ClientGone = ''client_gone''"

section \<open>Errors\<close>

datatype ActionError =
    NetworkError string
  | QueueFull string
  | Timeout string
  | AE_ConfigError string
  | AuthError string
  | ResourceError string
  | AE_Cancelled
  | AE_ClientGone
  | UserLimitExceeded string

primrec action_error_display :: "ActionError \<Rightarrow> string" where
  "action_error_display (NetworkError msg) = ''Network error: '' @ msg"
| "action_error_display (QueueFull msg) = ''Queue full: '' @ msg"
| "action_error_display (Timeout msg) = ''Timeout: '' @ msg"
| "action_error_display (AE_ConfigError msg) = ''Config error: '' @ msg"
| "action_error_display (AuthError msg) = ''Auth error: '' @ msg"
| "action_error_display (ResourceError msg) = ''Resource error: '' @ msg"
| "action_error_display AE_Cancelled = ''Cancelled''"
| "action_error_display AE_ClientGone = ''Client disconnected before data could be delivered''"
| "action_error_display (UserLimitExceeded msg) = ''User limit exceeded: '' @ msg"

primrec action_error_code :: "ActionError \<Rightarrow> string" where
  "action_error_code (NetworkError m) = ''ACTION_NETWORK''"
| "action_error_code (QueueFull m) = ''ACTION_QUEUE_FULL''"
| "action_error_code (Timeout m) = ''ACTION_TIMEOUT''"
| "action_error_code (AE_ConfigError m) = ''ACTION_CONFIG''"
| "action_error_code (AuthError m) = ''ACTION_AUTH''"
| "action_error_code (ResourceError m) = ''ACTION_RESOURCE''"
| "action_error_code AE_Cancelled = ''ACTION_CANCELLED''"
| "action_error_code AE_ClientGone = ''ACTION_CLIENT_GONE''"
| "action_error_code (UserLimitExceeded m) = ''ACTION_USER_LIMIT''"

definition action_error_is_retryable :: "ActionError \<Rightarrow> bool" where
  "action_error_is_retryable e =
    (case e of NetworkError _ \<Rightarrow> True | Timeout _ \<Rightarrow> True | QueueFull _ \<Rightarrow> True | _ \<Rightarrow> False)"

datatype DbError =
    Conflict string
  | Backend string
  | SlotExhausted string string u16

primrec db_error_display :: "DbError \<Rightarrow> string" where
  "db_error_display (Conflict message) = ''conflict: '' @ message"
| "db_error_display (Backend message) = ''backend error: '' @ message"
| "db_error_display (SlotExhausted site env ceiling) =
    ''broker slot allocation exhausted for site '' @ [CHR 0x27] @ site @ [CHR 0x27] @ '' env ''
    @ [CHR 0x27] @ env @ [CHR 0x27] @ '': reached slot ceiling '' @ show_uint (uint ceiling)
    @ ''; recovery requires bumping the broker-id version byte before allocating more broker slots''"

primrec db_error_code :: "DbError \<Rightarrow> string" where
  "db_error_code (Conflict m) = ''PERSISTENCE_CONFLICT''"
| "db_error_code (Backend m) = ''PERSISTENCE_BACKEND''"
| "db_error_code (SlotExhausted s e c) = ''PERSISTENCE_SLOT_EXHAUSTED''"

definition db_error_is_retryable :: "DbError \<Rightarrow> bool" where
  "db_error_is_retryable e = (case e of SlotExhausted _ _ _ \<Rightarrow> False | _ \<Rightarrow> True)"

text \<open>The YAML and JSON errors wrapped by \<open>ConfigError\<close> are third-party values; only their
  message matters.\<close>

datatype ConfigError =
    CE_Yaml string
  | CE_Validation string string
  | CE_MissingField string
  | CE_FeatureDisabled string string
  | CE_Decode string string string
  | CE_PersistenceInit string string string

primrec config_error_code :: "ConfigError \<Rightarrow> string" where
  "config_error_code (CE_Yaml e) = ''CONFIG_YAML_SYNTAX''"
| "config_error_code (CE_Validation p r) = ''CONFIG_VALIDATION''"
| "config_error_code (CE_MissingField p) = ''CONFIG_MISSING_FIELD''"
| "config_error_code (CE_FeatureDisabled p f) = ''CONFIG_FEATURE_DISABLED''"
| "config_error_code (CE_Decode p t s) = ''CONFIG_DECODE''"
| "config_error_code (CE_PersistenceInit p b r) = ''CONFIG_PERSISTENCE_INIT''"

datatype RoutingError =
    InvalidRoute string string
  | InvalidAction string string string
  | MissingTarget string

primrec routing_error_code :: "RoutingError \<Rightarrow> string" where
  "routing_error_code (InvalidRoute r x) = ''ROUTING_INVALID_ROUTE''"
| "routing_error_code (InvalidAction r a x) = ''ROUTING_INVALID_ACTION''"
| "routing_error_code (MissingTarget r) = ''ROUTING_MISSING_TARGET''"

datatype WorkerServerError =
    WS_Bind string string
  | WS_PoolRegistration string string

primrec worker_server_error_code :: "WorkerServerError \<Rightarrow> string" where
  "worker_server_error_code (WS_Bind a r) = ''WORKER_BIND''"
| "worker_server_error_code (WS_PoolRegistration n r) = ''WORKER_POOL''"

datatype BitsError =
    BE_Config ConfigError
  | BE_Routing RoutingError
  | BE_Persistence DbError
  | BE_Action ActionError
  | BE_WorkerServer WorkerServerError

primrec bits_error_code :: "BitsError \<Rightarrow> string" where
  "bits_error_code (BE_Config e) = config_error_code e"
| "bits_error_code (BE_Routing e) = routing_error_code e"
| "bits_error_code (BE_Persistence e) = db_error_code e"
| "bits_error_code (BE_Action e) = action_error_code e"
| "bits_error_code (BE_WorkerServer e) = worker_server_error_code e"

definition bits_error_is_retryable :: "BitsError \<Rightarrow> bool" where
  "bits_error_is_retryable e =
    (case e of BE_Persistence e \<Rightarrow> db_error_is_retryable e
     | BE_Action e \<Rightarrow> action_error_is_retryable e | _ \<Rightarrow> False)"

section \<open>Durable records\<close>

record PersistentJobRecord =
  pjr_job_id :: string
  pjr_broker_id :: string
  pjr_original_request :: json
  pjr_user :: json
  pjr_metadata :: json
  pjr_created_at :: datetime

record BrokerLeaseRecord =
  blr_broker_id :: string
  blr_internal_poll_base_url :: string
  blr_lease_until :: datetime
  blr_updated_at :: datetime

record UserLimitEntry =
  ule_scope :: string
  ule_user :: string
  ule_job_id :: string
  ule_owner_broker_id :: string
  ule_seq :: u64
  ule_created_at :: datetime

datatype ClaimResult =
    CR_NotFound
  | CR_Active string
  | CR_Claimed PersistentJobRecord

section \<open>Jobs\<close>

datatype PendingStatus = Queued | Processing

primrec pending_status_u8 :: "PendingStatus \<Rightarrow> u8" where
  "pending_status_u8 Queued = 0"
| "pending_status_u8 Processing = 1"

primrec pending_status_as_str :: "PendingStatus \<Rightarrow> string" where
  "pending_status_as_str Queued = ''queued''"
| "pending_status_as_str Processing = ''processing''"

definition pending_status_from_header :: "string \<Rightarrow> PendingStatus option" where
  "pending_status_from_header value =
    (if value = ''queued'' then Some Queued
     else if value = ''processing'' then Some Processing
     else None)"

record Lifecycle =
  lc_cancelled :: bool
  lc_active_pollers :: nat
  lc_reconnect_deadline_nanos :: u64
  lc_pending_status :: u8
  lc_notify :: nat
  lc_dispatch_notify :: nat

record Job =
  job_id :: string
  job_original_request :: json
  job_request :: json
  job_user :: json
  job_created_at :: datetime
  job_metadata :: json
  job_lc :: nat
  job_persisted :: bool
  job_result :: "JobResult option"

text \<open>The heap of lifecycle cells, with the process-wide \<open>EPOCH\<close> instant.\<close>
record Heap =
  h_cell :: "nat \<Rightarrow> Lifecycle"
  h_next :: nat
  h_epoch :: instant

definition instant_to_nanos :: "instant \<Rightarrow> instant \<Rightarrow> u64" where
  "instant_to_nanos epoch t = of_nat (t - epoch)"

definition nanos_to_instant :: "instant \<Rightarrow> u64 \<Rightarrow> instant" where
  "nanos_to_instant epoch n = epoch + unat n"

definition is_client_present :: "instant \<Rightarrow> instant \<Rightarrow> nat \<Rightarrow> u64 \<Rightarrow> bool" where
  "is_client_present epoch now pollers deadline_nanos \<longleftrightarrow>
    pollers > 0 \<or> now < nanos_to_instant epoch deadline_nanos"

text \<open>\<open>default_cancelled\<close>, \<open>default_active_pollers\<close>, \<open>default_reconnect_deadline_nanos\<close> and
  \<open>default_pending_status\<close>, allocated together.\<close>
definition default_lifecycle :: "instant \<Rightarrow> instant \<Rightarrow> Lifecycle" where
  "default_lifecycle epoch now =
    \<lparr> lc_cancelled = False, lc_active_pollers = 0,
      lc_reconnect_deadline_nanos = instant_to_nanos epoch now,
      lc_pending_status = pending_status_u8 Queued, lc_notify = 0, lc_dispatch_notify = 0 \<rparr>"

definition alloc_lifecycle :: "instant \<Rightarrow> Heap \<Rightarrow> nat \<times> Heap" where
  "alloc_lifecycle now h =
    (h_next h, h\<lparr> h_cell := (h_cell h)(h_next h := default_lifecycle (h_epoch h) now),
                  h_next := Suc (h_next h) \<rparr>)"

definition job_new_with_id :: "instant \<Rightarrow> datetime \<Rightarrow> string \<Rightarrow> json \<Rightarrow> Heap \<Rightarrow> Job \<times> Heap" where
  "job_new_with_id now utc_now jid request h =
    (let (a, h') = alloc_lifecycle now h in
     (\<lparr> job_id = jid, job_original_request = request, job_request = request, job_user = JObject [],
        job_created_at = utc_now, job_metadata = JObject [], job_lc = a, job_persisted = False,
        job_result = None \<rparr>, h'))"

definition job_restore :: "instant \<Rightarrow> PersistentJobRecord \<Rightarrow> Heap \<Rightarrow> Job \<times> Heap" where
  "job_restore now record h =
    (let (a, h') = alloc_lifecycle now h in
     (\<lparr> job_id = pjr_job_id record, job_original_request = pjr_original_request record,
        job_request = pjr_original_request record, job_user = pjr_user record,
        job_created_at = pjr_created_at record, job_metadata = pjr_metadata record, job_lc = a,
        job_persisted = False, job_result = None \<rparr>, h'))"

definition job_clone :: "Job \<Rightarrow> Job" where
  "job_clone j = j\<lparr> job_persisted := False, job_result := None \<rparr>"

definition lc_of :: "Heap \<Rightarrow> Job \<Rightarrow> Lifecycle" where
  "lc_of h j = h_cell h (job_lc j)"

definition lc_update :: "Job \<Rightarrow> (Lifecycle \<Rightarrow> Lifecycle) \<Rightarrow> Heap \<Rightarrow> Heap" where
  "lc_update j f h = h\<lparr> h_cell := (h_cell h)(job_lc j := f (h_cell h (job_lc j))) \<rparr>"

definition is_cancelled :: "Heap \<Rightarrow> Job \<Rightarrow> bool" where
  "is_cancelled h j = lc_cancelled (lc_of h j)"

definition request_cancel :: "Job \<Rightarrow> Heap \<Rightarrow> Heap" where
  "request_cancel j =
    lc_update j (\<lambda>l. l\<lparr> lc_cancelled := True, lc_dispatch_notify := Suc (lc_dispatch_notify l) \<rparr>)"

definition client_present :: "instant \<Rightarrow> Heap \<Rightarrow> Job \<Rightarrow> bool" where
  "client_present now h j =
    is_client_present (h_epoch h) now (lc_active_pollers (lc_of h j))
      (lc_reconnect_deadline_nanos (lc_of h j))"

definition pending_status :: "Heap \<Rightarrow> Job \<Rightarrow> PendingStatus" where
  "pending_status h j =
    (if lc_pending_status (lc_of h j) = pending_status_u8 Processing then Processing else Queued)"

definition mark_processing :: "Job \<Rightarrow> Heap \<Rightarrow> Heap" where
  "mark_processing j =
    lc_update j (\<lambda>l.
      let previous = lc_pending_status l;
          l = l\<lparr> lc_pending_status := pending_status_u8 Processing \<rparr>
      in if previous \<noteq> pending_status_u8 Processing then l\<lparr> lc_notify := Suc (lc_notify l) \<rparr> else l)"

definition set_reconnect_deadline :: "Job \<Rightarrow> instant \<Rightarrow> Heap \<Rightarrow> Heap" where
  "set_reconnect_deadline j deadline h =
    lc_update j (\<lambda>l. l\<lparr> lc_reconnect_deadline_nanos := instant_to_nanos (h_epoch h) deadline \<rparr>) h"

section \<open>Lemmas\<close>

lemma lc_of_lc_update [simp]:
  "lc_of (lc_update j f h) j' = (if job_lc j' = job_lc j then f (lc_of h j) else lc_of h j')"
  by (simp add: lc_of_def lc_update_def)

lemma heap_lc_update [simp]:
  "h_next (lc_update j f h) = h_next h" "h_epoch (lc_update j f h) = h_epoch h"
  by (simp_all add: lc_update_def)

lemma job_lc_clone [simp]: "job_lc (job_clone j) = job_lc j"
  by (simp add: job_clone_def)

lemma lc_of_clone [simp]: "lc_of h (job_clone j) = lc_of h j"
  by (simp add: lc_of_def)

lemma lc_update_clone [simp]: "lc_update (job_clone j) f h = lc_update j f h"
  by (simp add: lc_update_def)

lemma nanos_to_instant_to_nanos:
  "epoch \<le> t \<Longrightarrow> t < epoch + 2 ^ 64 \<Longrightarrow> nanos_to_instant epoch (instant_to_nanos epoch t) = t"
  by (auto simp: nanos_to_instant_def instant_to_nanos_def unat_of_nat le_iff_add)

lemma client_present_set_deadline:
  assumes "h_epoch h \<le> d" "d < h_epoch h + 2 ^ 64"
  shows "client_present now (set_reconnect_deadline j d h) j \<longleftrightarrow>
    lc_active_pollers (lc_of h j) > 0 \<or> now < d"
  using assms
  by (simp add: client_present_def set_reconnect_deadline_def is_client_present_def nanos_to_instant_to_nanos)

lemma alloc_lifecycle_frame:
  assumes "alloc_lifecycle now h = (a, h')" "job_lc j < h_next h"
  shows "lc_of h' j = lc_of h j"
  using assms by (auto simp: alloc_lifecycle_def lc_of_def)

lemma pending_status_mark_processing [simp]:
  "pending_status (mark_processing j h) j = Processing"
  by (simp add: pending_status_def mark_processing_def Let_def)

lemma notify_mark_processing:
  "lc_notify (lc_of (mark_processing j h) j) =
    lc_notify (lc_of h j) + (if pending_status h j = Processing then 0 else 1)"
  by (simp add: pending_status_def mark_processing_def Let_def)

section \<open>Examples\<close>

definition demo_heap :: Heap where
  "demo_heap = snd (job_new_with_id 5 0 ''a'' JNull
    \<lparr> h_cell = (\<lambda>_. default_lifecycle 0 0), h_next = 0, h_epoch = 0 \<rparr>)"

definition demo_job :: Job where
  "demo_job = fst (job_new_with_id 5 0 ''a'' JNull
    \<lparr> h_cell = (\<lambda>_. default_lifecycle 0 0), h_next = 0, h_epoch = 0 \<rparr>)"

definition demo_record :: PersistentJobRecord where
  "demo_record = \<lparr> pjr_job_id = ''017sg4fag005yaa01a04hmasw9'', pjr_broker_id = ''b'',
    pjr_original_request = JBool True, pjr_user = JNull, pjr_metadata = JNull, pjr_created_at = 0 \<rparr>"

end
