(* ===== verification/Job_Queue.thy ===== *)
theory Job_Queue
  imports Job_Model
begin

text \<open>
  The \<open>Queue\<close> trait (\<open>bits/src/dispatcher/queue/mod.rs\<close>) as an interface.

  \<open>contents\<close> is the multiset of buffered jobs and \<open>is_open\<close> whether \<open>close\<close> has been
  called.  \<open>dequeue\<close> is the answer a caller gets once the queue's worker has caught up:
  a job, the end of the queue (\<open>None\<close> in the source), or the caller keeps waiting.  The
  laws are the ones the trait documents: an open queue loses nothing and invents nothing,
  a closed one refuses new jobs, never lets a caller wait, and may drain or drop what it holds.

  \<open>Fifo_Queue\<close>, \<open>Cost_Weighted_Queue\<close> and \<open>Age_Priority_Queue\<close> interpret the interface.
\<close>

datatype QueueKind = Fifo | CostWeighted | AgePriority

datatype 'j dequeued = Got 'j | EndOfQueue | Waiting

datatype ordering = Less | Equal | Greater

definition ord_cmp :: "'a::linorder \<Rightarrow> 'a \<Rightarrow> ordering" where
  "ord_cmp a b = (if a < b then Less else if a = b then Equal else Greater)"

definition ordering_then :: "ordering \<Rightarrow> ordering \<Rightarrow> ordering" where
  "ordering_then a b = (case a of Equal \<Rightarrow> b | _ \<Rightarrow> a)"

text \<open>\<open>job.metadata["cost"].as_u64().unwrap_or(dflt)\<close>\<close>
definition job_cost :: "u64 \<Rightarrow> Job \<Rightarrow> u64" where
  "job_cost dflt job = unwrap_or (as_u64 (json_index (job_metadata job) ''cost'')) dflt"

text \<open>\<open>n\<close> calls of \<open>dequeue\<close>, as a worker loop makes them: it stops at the first call which does
  not return a job.\<close>

primrec drain :: "('s \<Rightarrow> Job dequeued \<times> 's) \<Rightarrow> nat \<Rightarrow> 's \<Rightarrow> Job list \<times> 's" where
  "drain dequeue 0 s = ([], s)"
| "drain dequeue (Suc n) s =
    (case dequeue s of
       (Got j, s') \<Rightarrow> (case drain dequeue n s' of (js, t) \<Rightarrow> (j # js, t))
     | _ \<Rightarrow> ([], s))"

primrec enqueue_all :: "(Job \<Rightarrow> 's \<Rightarrow> 's) \<Rightarrow> Job list \<Rightarrow> 's \<Rightarrow> 's" where
  "enqueue_all enqueue [] s = s"
| "enqueue_all enqueue (j # js) s = enqueue_all enqueue js (enqueue j s)"

text \<open>A job with a cost, for examples.\<close>
definition job_with_cost :: "string \<Rightarrow> u64 \<Rightarrow> Job" where
  "job_with_cost jid c = \<lparr> job_id = jid, job_original_request = JNull, job_request = JNull, job_user = JNull,
    job_created_at = 0, job_metadata = JObject [(''cost'', JPosInt c)], job_lc = 0,
    job_persisted = False, job_result = None \<rparr>"

section \<open>The interface\<close>

locale job_queue =
  fixes enqueue :: "Job \<Rightarrow> 's \<Rightarrow> 's"
    and dequeue :: "'s \<Rightarrow> Job dequeued \<times> 's"
    and close :: "'s \<Rightarrow> 's"
    and contents :: "'s \<Rightarrow> Job multiset"
    and is_open :: "'s \<Rightarrow> bool"
    and invar :: "'s \<Rightarrow> bool"
  assumes enqueue_open: "invar s \<Longrightarrow> is_open s \<Longrightarrow> contents (enqueue j s) = add_mset j (contents s)"
    and enqueue_closed: "invar s \<Longrightarrow> \<not> is_open s \<Longrightarrow> contents (enqueue j s) = contents s"
    and enqueue_keeps: "invar s \<Longrightarrow> invar (enqueue j s) \<and> is_open (enqueue j s) = is_open s"
    and dequeue_got: "invar s \<Longrightarrow> dequeue s = (Got j, s') \<Longrightarrow>
      j \<in># contents s \<and> contents s' = contents s - {#j#}"
    and dequeue_not_got: "invar s \<Longrightarrow> dequeue s = (r, s') \<Longrightarrow> (\<forall>j. r \<noteq> Got j) \<Longrightarrow>
      contents s' \<subseteq># contents s \<and> (is_open s \<longrightarrow> contents s = {#})"
    and dequeue_waiting: "invar s \<Longrightarrow> fst (dequeue s) = Waiting \<longleftrightarrow> is_open s \<and> contents s = {#}"
    and dequeue_keeps: "invar s \<Longrightarrow> fst (dequeue s) \<noteq> Waiting \<Longrightarrow>
      invar (snd (dequeue s)) \<and> is_open (snd (dequeue s)) = is_open s"
    and close_closes: "invar s \<Longrightarrow> invar (close s) \<and> \<not> is_open (close s) \<and> contents (close s) \<subseteq># contents s"
begin

lemma open_nonempty_got:
  assumes "invar s" "is_open s" "contents s \<noteq> {#}"
  obtains j s' where "dequeue s = (Got j, s')"
proof (cases "dequeue s")
  case (Pair r s')
  with dequeue_not_got [OF assms(1) Pair] assms(2,3) that show thesis by (cases r) auto
qed

lemma enqueue_all_open:
  "invar s \<Longrightarrow> is_open s \<Longrightarrow>
    invar (enqueue_all enqueue js s) \<and> is_open (enqueue_all enqueue js s) \<and>
    contents (enqueue_all enqueue js s) = contents s + mset js"
  by (induction js arbitrary: s) (simp_all add: enqueue_keeps enqueue_open)

lemma enqueue_all_closed:
  "invar s \<Longrightarrow> \<not> is_open s \<Longrightarrow>
    invar (enqueue_all enqueue js s) \<and> \<not> is_open (enqueue_all enqueue js s) \<and> contents (enqueue_all enqueue js s) = contents s"
  by (induction js arbitrary: s) (simp_all add: enqueue_keeps enqueue_closed)

lemma drain_conserves:
  "invar s \<Longrightarrow> drain dequeue n s = (js, t) \<Longrightarrow>
    invar t \<and> is_open t = is_open s \<and> contents s = mset js + contents t \<and> length js \<le> n"
proof (induction n arbitrary: s js t)
  case (Suc n)
  show ?case
  proof (cases "\<exists>j s'. dequeue s = (Got j, s')")
    case True
    then obtain j s' where d: "dequeue s = (Got j, s')" by blast
    obtain js' t' where r: "drain dequeue n s' = (js', t')" by (rule prod.exhaust)
    from Suc.prems(2) d r have js: "js = j # js'" "t = t'" by simp_all
    have "invar s'" "is_open s' = is_open s" using dequeue_keeps [OF Suc.prems(1)] d by auto
    moreover have "contents s = add_mset j (contents s')"
      using dequeue_got [OF Suc.prems(1) d] by simp
    ultimately show ?thesis using Suc.IH [OF _ r] js by simp
  next
    case False
    with Suc.prems show ?thesis by (cases "dequeue s"; cases "fst (dequeue s)") auto
  qed
qed simp

lemma drain_all:
  "invar s \<Longrightarrow> is_open s \<Longrightarrow> drain dequeue (size (contents s)) s = (js, t) \<Longrightarrow>
    mset js = contents s \<and> contents t = {#}"
proof (induction "size (contents s)" arbitrary: s js t)
  case (Suc n)
  then have "contents s \<noteq> {#}" by auto
  then obtain j s' where d: "dequeue s = (Got j, s')"
    using Suc.prems open_nonempty_got by blast
  have s': "invar s'" "is_open s'" using dequeue_keeps [OF Suc.prems(1)] d Suc.prems(2) by auto
  have c: "j \<in># contents s" "contents s' = contents s - {#j#}"
    using dequeue_got [OF Suc.prems(1) d] by simp_all
  then have n: "n = size (contents s')" using Suc.hyps(2) by (simp add: size_Diff_singleton)
  obtain js' t' where r: "drain dequeue n s' = (js', t')" by (rule prod.exhaust)
  from Suc.prems(3) d r have js: "js = j # js'" "t = t'" by (simp_all flip: Suc.hyps(2))
  have "mset js' = contents s' \<and> contents t' = {#}"
    using Suc.hyps(1) [OF n s'] r n by simp
  with c js show ?case by (simp add: insert_DiffM)
qed simp

text \<open>Nothing is lost and nothing is invented while the queue is open, whatever the order.\<close>

lemma roundtrip_all:
  assumes "invar s" "is_open s" "contents s = {#}" "drain dequeue (length js) (enqueue_all enqueue js s) = (ks, t)"
  shows "mset ks = mset js \<and> contents t = {#} \<and> fst (dequeue t) = Waiting"
proof -
  have e: "invar (enqueue_all enqueue js s)" "is_open (enqueue_all enqueue js s)" "contents (enqueue_all enqueue js s) = mset js"
    using enqueue_all_open [OF assms(1,2), of js] assms(3) by simp_all
  then have l: "size (contents (enqueue_all enqueue js s)) = length js" by simp
  from drain_all [OF e(1,2), unfolded l, OF assms(4)] drain_conserves [OF e(1) assms(4)] e
  show ?thesis by (simp add: dequeue_waiting)
qed

text \<open>A closed queue delivers at most what it held, accepts nothing, and never blocks a caller.\<close>

lemma closed_bounded:
  assumes "invar s" "drain dequeue n (enqueue_all enqueue js (close s)) = (ks, t)"
  shows "mset ks \<subseteq># contents s \<and> fst (dequeue t) \<noteq> Waiting"
proof -
  have c: "invar (close s)" "\<not> is_open (close s)" "contents (close s) \<subseteq># contents s"
    using close_closes [OF assms(1)] by simp_all
  then have e: "invar (enqueue_all enqueue js (close s))" "\<not> is_open (enqueue_all enqueue js (close s))"
    "contents (enqueue_all enqueue js (close s)) = contents (close s)"
    using enqueue_all_closed by simp_all
  from drain_conserves [OF e(1) assms(2)] e c show ?thesis
    by (auto simp: dequeue_waiting) (metis mset_subset_eq_add_left subset_mset.order_trans)
qed

end

end
