(* ===== verification/Fifo_Queue.thy ===== *)
theory Fifo_Queue
  imports Job_Queue
begin

text \<open>
  The FIFO queue (\<open>bits/src/dispatcher/queue/fifo.rs\<close>): an unbounded channel whose sender is
  dropped by \<open>close\<close>.  The receiver stays with the queue, so \<open>send\<close> cannot fail while the
  sender is there, and \<open>recv\<close> drains the buffer before it reports the end.
\<close>

record FifoQueue =
  fq_tx :: bool
  fq_buf :: "Job list"

definition fifo_new :: FifoQueue where
  "fifo_new = \<lparr> fq_tx = True, fq_buf = [] \<rparr>"

definition fifo_enqueue :: "Job \<Rightarrow> FifoQueue \<Rightarrow> FifoQueue" where
  "fifo_enqueue job q = (if fq_tx q then q\<lparr> fq_buf := fq_buf q @ [job] \<rparr> else q)"

definition fifo_dequeue :: "FifoQueue \<Rightarrow> Job dequeued \<times> FifoQueue" where
  "fifo_dequeue q =
    (case fq_buf q of
       job # buf \<Rightarrow> (Got job, q\<lparr> fq_buf := buf \<rparr>)
     | [] \<Rightarrow> (if fq_tx q then Waiting else EndOfQueue, q))"

definition fifo_close :: "FifoQueue \<Rightarrow> FifoQueue" where
  "fifo_close q = q\<lparr> fq_tx := False \<rparr>"

definition fifo_contents :: "FifoQueue \<Rightarrow> Job multiset" where
  "fifo_contents q = mset (fq_buf q)"

section \<open>The interface is implemented\<close>

lemmas fifo_defs = fifo_enqueue_def fifo_dequeue_def fifo_close_def fifo_contents_def

interpretation fifo: job_queue fifo_enqueue fifo_dequeue fifo_close fifo_contents fq_tx "\<lambda>_. True"
  by unfold_locales (auto simp: fifo_defs split: list.splits if_splits)

section \<open>Order\<close>

lemma fifo_enqueue_all_buf: "fq_tx q \<Longrightarrow> fq_buf (enqueue_all fifo_enqueue js q) = fq_buf q @ js \<and> fq_tx (enqueue_all fifo_enqueue js q)"
  by (induction js arbitrary: q) (simp_all add: fifo_enqueue_def)

lemma fifo_drain_buf: "drain fifo_dequeue n q = (take n (fq_buf q), q\<lparr> fq_buf := drop n (fq_buf q) \<rparr>)"
proof (induction n arbitrary: q)
  case (Suc n)
  then show ?case by (cases "fq_buf q") (simp_all add: fifo_dequeue_def)
qed simp

end
