(* ===== verification/Cost_Weighted_Queue.thy ===== *)
theory Cost_Weighted_Queue
  imports Job_Queue "HOL-Library.Product_Lexorder"
begin

text \<open>
  The cost-weighted queue (\<open>bits/src/dispatcher/queue/cost_weighted.rs\<close>): callers send
  commands over a channel to a background worker which owns a binary heap and the waiting
  callers.  A caller is named by a number, the reply channel it waits on.

  Each worker iteration is one call of \<open>cw_worker_cmd\<close>; its argument \<open>alive\<close> says for which callers
  the receiving end still exists at the moment of the send, so a cancellation at any point of
  an iteration is some value of it.  \<open>BinaryHeap\<close> is the list of its entries, \<open>pop\<close> removing a
  greatest one for the source's \<open>Ord\<close>.
\<close>

record Entry =
  en_cost :: u64
  en_seq :: u64
  en_job :: Job

definition entry_cmp :: "Entry \<Rightarrow> Entry \<Rightarrow> ordering" where
  "entry_cmp self other =
    ordering_then (ord_cmp (en_cost other) (en_cost self)) (ord_cmp (en_seq other) (en_seq self))"

datatype WorkerCmd =
    WC_Enqueue u64 u64 Job
  | WC_Dequeue nat

record Worker =
  wk_heap :: "Entry list"
  wk_waiters :: "nat list"
  wk_replies :: "(nat \<times> Job) list"

definition heap_push :: "Entry \<Rightarrow> Entry list \<Rightarrow> Entry list" where
  "heap_push e h = e # h"

text \<open>The greatest of \<open>x # xs\<close> and the others.\<close>
fun heap_pop_from :: "Entry \<Rightarrow> Entry list \<Rightarrow> Entry \<times> Entry list" where
  "heap_pop_from x [] = (x, [])"
| "heap_pop_from x (y # ys) =
    (case heap_pop_from y ys of (m, rest) \<Rightarrow>
       if entry_cmp x m = Less then (m, x # rest) else (x, m # rest))"

text \<open>The inner loop of \<open>worker\<close>: match waiters with the heap until one of them is empty.\<close>
fun cw_match :: "(nat \<Rightarrow> bool) \<Rightarrow> Entry list \<Rightarrow> nat list \<Rightarrow> (nat \<times> Job) list \<Rightarrow> Worker" where
  "cw_match alive heap [] replies = \<lparr> wk_heap = heap, wk_waiters = [], wk_replies = replies \<rparr>"
| "cw_match alive [] waiters replies = \<lparr> wk_heap = [], wk_waiters = waiters, wk_replies = replies \<rparr>"
| "cw_match alive (x # xs) (reply # waiters) replies =
    (case heap_pop_from x xs of (entry, heap) \<Rightarrow>
       if alive reply then cw_match alive heap waiters (replies @ [(reply, en_job entry)])
       else cw_match alive
         (heap_push \<lparr> en_cost = job_cost 0 (en_job entry), en_seq = en_seq entry, en_job = en_job entry \<rparr> heap)
         waiters replies)"

definition cw_worker_cmd :: "(nat \<Rightarrow> bool) \<Rightarrow> WorkerCmd \<Rightarrow> Worker \<Rightarrow> Worker" where
  "cw_worker_cmd alive cmd w =
    (let w = (case cmd of
        WC_Enqueue cost seq job \<Rightarrow>
          w\<lparr> wk_heap := heap_push \<lparr> en_cost = cost, en_seq = seq, en_job = job \<rparr> (wk_heap w) \<rparr>
      | WC_Dequeue reply \<Rightarrow> w\<lparr> wk_waiters := wk_waiters w @ [reply] \<rparr>)
     in cw_match alive (wk_heap w) (wk_waiters w) (wk_replies w))"

text \<open>\<open>cw_alive\<close> is false once the worker has returned, dropping its heap and its waiters.\<close>
record CostWeightedQueue =
  cw_tx :: bool
  cw_seq :: u64
  cw_dead :: bool
  cw_chan :: "WorkerCmd list"
  cw_worker :: Worker
  cw_alive :: bool

definition cw_new :: CostWeightedQueue where
  "cw_new = \<lparr> cw_tx = True, cw_seq = 0, cw_dead = False, cw_chan = [],
    cw_worker = \<lparr> wk_heap = [], wk_waiters = [], wk_replies = [] \<rparr>, cw_alive = True \<rparr>"

text \<open>The worker task: receive every buffered command, and return when the sender is gone.\<close>
definition cw_run_worker :: "(nat \<Rightarrow> bool) \<Rightarrow> CostWeightedQueue \<Rightarrow> CostWeightedQueue" where
  "cw_run_worker alive q =
    (if \<not> cw_alive q then q
     else let w = foldl (\<lambda>w cmd. cw_worker_cmd alive cmd w) (cw_worker q) (cw_chan q) in
       if cw_tx q then q\<lparr> cw_chan := [], cw_worker := w \<rparr>
       else q\<lparr> cw_chan := [], cw_worker := w\<lparr> wk_heap := [], wk_waiters := [] \<rparr>, cw_alive := False \<rparr>)"

definition cw_send :: "WorkerCmd \<Rightarrow> CostWeightedQueue \<Rightarrow> bool \<times> CostWeightedQueue" where
  "cw_send cmd q =
    (if cw_tx q \<and> cw_alive q then (False, q\<lparr> cw_chan := cw_chan q @ [cmd] \<rparr>) else (True, q))"

definition cw_enqueue :: "Job \<Rightarrow> CostWeightedQueue \<Rightarrow> CostWeightedQueue" where
  "cw_enqueue job q =
    (let cost = job_cost 0 job;
         seq = cw_seq q;
         q = q\<lparr> cw_seq := seq + 1 \<rparr>;
         (send_failed, q) = cw_send (WC_Enqueue cost seq job) q
     in if send_failed then q\<lparr> cw_dead := True \<rparr> else q)"

text \<open>The start of \<open>dequeue\<close>, up to the \<open>await\<close> on the reply channel: \<open>None\<close> when it returns at once.\<close>
definition cw_dequeue_start :: "nat \<Rightarrow> CostWeightedQueue \<Rightarrow> bool \<times> CostWeightedQueue" where
  "cw_dequeue_start reply q =
    (if cw_dead q then (False, q)
     else case cw_send (WC_Dequeue reply) q of
       (True, q) \<Rightarrow> (False, q\<lparr> cw_dead := True \<rparr>)
     | (False, q) \<Rightarrow> (True, q))"

text \<open>The end of \<open>dequeue\<close>: the reply, or \<open>None\<close> when the worker dropped the reply channel.\<close>
definition cw_dequeue_finish :: "nat \<Rightarrow> CostWeightedQueue \<Rightarrow> Job dequeued \<times> CostWeightedQueue" where
  "cw_dequeue_finish reply q =
    (case map_of (wk_replies (cw_worker q)) reply of
       Some job \<Rightarrow>
         (Got job, q\<lparr> cw_worker := (cw_worker q)\<lparr> wk_replies :=
            filter (\<lambda>r. fst r \<noteq> reply) (wk_replies (cw_worker q)) \<rparr> \<rparr>)
     | None \<Rightarrow> if cw_alive q then (Waiting, q) else (EndOfQueue, q\<lparr> cw_dead := True \<rparr>))"

definition cw_close :: "CostWeightedQueue \<Rightarrow> CostWeightedQueue" where
  "cw_close q = q\<lparr> cw_dead := True, cw_tx := False \<rparr>"

text \<open>A whole \<open>dequeue\<close> by a caller which stays, the worker running in between.\<close>
definition cw_dequeue :: "CostWeightedQueue \<Rightarrow> Job dequeued \<times> CostWeightedQueue" where
  "cw_dequeue q =
    (case cw_dequeue_start 0 q of
       (False, q) \<Rightarrow> (EndOfQueue, q)
     | (True, q) \<Rightarrow> cw_dequeue_finish 0 (cw_run_worker (\<lambda>_. True) q))"

section \<open>Abstraction\<close>

definition cmd_entries :: "WorkerCmd list \<Rightarrow> Entry list" where
  "cmd_entries cmds = concat (map (\<lambda>c. case c of
      WC_Enqueue cost seq job \<Rightarrow> [\<lparr> en_cost = cost, en_seq = seq, en_job = job \<rparr>]
    | WC_Dequeue reply \<Rightarrow> []) cmds)"

text \<open>Every buffered entry, those still in the channel first, latest first.\<close>
definition cw_entries :: "CostWeightedQueue \<Rightarrow> Entry list" where
  "cw_entries q = rev (cmd_entries (cw_chan q)) @ wk_heap (cw_worker q)"

definition cw_contents :: "CostWeightedQueue \<Rightarrow> Job multiset" where
  "cw_contents q = image_mset en_job (mset (cw_entries q))"

text \<open>No caller is waiting or has an unread reply, the worker lives as long as the sender, and
  a queue with its sender is not marked dead.\<close>
definition cw_idle :: "CostWeightedQueue \<Rightarrow> bool" where
  "cw_idle q \<longleftrightarrow> wk_waiters (cw_worker q) = [] \<and> wk_replies (cw_worker q) = [] \<and>
    (\<forall>r. WC_Dequeue r \<notin> set (cw_chan q)) \<and> (cw_tx q \<longrightarrow> cw_alive q) \<and> (cw_dead q = (\<not> cw_tx q))"

abbreviation en_key :: "Entry \<Rightarrow> u64 \<times> u64" where
  "en_key e \<equiv> (en_cost e, en_seq e)"

section \<open>Lemmas: the heap\<close>

lemma entry_cmp_Less: "entry_cmp a b = Less \<longleftrightarrow> en_key b < en_key a"
  by (auto simp: entry_cmp_def ordering_then_def ord_cmp_def less_prod_def' split: if_splits)

lemma heap_pop_from_mset: "heap_pop_from x xs = (m, rest) \<Longrightarrow> add_mset m (mset rest) = add_mset x (mset xs)"
  by (induction x xs arbitrary: m rest rule: heap_pop_from.induct) (auto split: prod.splits if_splits)

lemma heap_pop_from_min:
  "heap_pop_from x xs = (m, rest) \<Longrightarrow> \<forall>e \<in> set (x # xs). en_key m \<le> en_key e"
proof (induction x xs arbitrary: m rest rule: heap_pop_from.induct)
  case (2 x y ys)
  obtain m' rest' where r: "heap_pop_from y ys = (m', rest')" by (rule prod.exhaust)
  with 2 show ?case
    by (auto simp: entry_cmp_Less not_less split: if_splits intro: order.trans less_imp_le)
qed simp

section \<open>Lemmas: the worker\<close>

lemma cw_match_conserves:
  "cw_match alive heap waiters replies = w \<Longrightarrow>
    image_mset en_job (mset (wk_heap w)) + mset (map snd (wk_replies w)) =
    image_mset en_job (mset heap) + mset (map snd replies)"
proof (induction alive heap waiters replies arbitrary: w rule: cw_match.induct)
  case (3 alive x xs reply waiters replies)
  obtain entry heap where p: "heap_pop_from x xs = (entry, heap)" by (rule prod.exhaust)
  then have "image_mset en_job (add_mset entry (mset heap)) = image_mset en_job (add_mset x (mset xs))"
    by (simp only: heap_pop_from_mset)
  with 3 p show ?case
    by (cases "alive reply") (auto simp: heap_push_def)
qed auto

lemma cw_match_quiet:
  "wk_waiters (cw_match alive heap waiters replies) = [] \<or> wk_heap (cw_match alive heap waiters replies) = []"
  by (induction alive heap waiters replies rule: cw_match.induct) (auto split: prod.splits)

lemma cw_match_replies:
  "\<exists>rs. wk_replies (cw_match alive heap waiters replies) = replies @ rs \<and> (\<forall>r \<in> set rs. alive (fst r))"
proof (induction alive heap waiters replies rule: cw_match.induct)
  case (3 alive x xs reply waiters replies)
  obtain entry heap where p: "heap_pop_from x xs = (entry, heap)" by (rule prod.exhaust)
  show ?case
  proof (cases "alive reply")
    case True
    with 3(1) [OF p [symmetric] True] p show ?thesis by auto
  next
    case False
    with 3(2) [OF p [symmetric] False] p show ?thesis by auto
  qed
qed auto

lemma cw_worker_cmd_conserves:
  assumes "cw_worker_cmd alive cmd w = w'"
  shows "image_mset en_job (mset (wk_heap w')) + mset (map snd (wk_replies w')) =
    image_mset en_job (mset (wk_heap w)) + mset (map snd (wk_replies w))
      + image_mset en_job (mset (cmd_entries [cmd]))"
    and "wk_waiters w' = [] \<or> wk_heap w' = []"
    and "\<exists>rs. wk_replies w' = wk_replies w @ rs \<and> (\<forall>r \<in> set rs. alive (fst r))"
proof -
  obtain heap waiters where w': "w' = cw_match alive heap waiters (wk_replies w)"
    and heap: "image_mset en_job (mset heap) =
      image_mset en_job (mset (wk_heap w)) + image_mset en_job (mset (cmd_entries [cmd]))"
    using assms by (cases cmd) (auto simp: cw_worker_cmd_def heap_push_def cmd_entries_def intro: that)
  show "image_mset en_job (mset (wk_heap w')) + mset (map snd (wk_replies w')) =
    image_mset en_job (mset (wk_heap w)) + mset (map snd (wk_replies w))
      + image_mset en_job (mset (cmd_entries [cmd]))"
    using cw_match_conserves [OF w' [symmetric]] heap by simp
  show "wk_waiters w' = [] \<or> wk_heap w' = []" unfolding w' by (rule cw_match_quiet)
  show "\<exists>rs. wk_replies w' = wk_replies w @ rs \<and> (\<forall>r \<in> set rs. alive (fst r))"
    unfolding w' by (rule cw_match_replies)
qed

lemma cw_run_conserves:
  assumes "foldl (\<lambda>w cmd. cw_worker_cmd alive cmd w) w cmds = w'" "wk_waiters w = [] \<or> wk_heap w = []"
  shows "image_mset en_job (mset (wk_heap w')) + mset (map snd (wk_replies w')) =
    image_mset en_job (mset (wk_heap w)) + mset (map snd (wk_replies w))
      + image_mset en_job (mset (cmd_entries cmds))
    \<and> (wk_waiters w' = [] \<or> wk_heap w' = [])
    \<and> (\<exists>rs. wk_replies w' = wk_replies w @ rs \<and> (\<forall>r \<in> set rs. alive (fst r)))"
  using assms
proof (induction cmds arbitrary: w)
  case (Cons cmd cmds)
  let ?w = "cw_worker_cmd alive cmd w"
  have e: "cmd_entries (cmd # cmds) = cmd_entries [cmd] @ cmd_entries cmds" by (simp add: cmd_entries_def)
  note c = cw_worker_cmd_conserves [OF refl, of alive cmd w]
  have ih: "image_mset en_job (mset (wk_heap w')) + mset (map snd (wk_replies w')) =
      image_mset en_job (mset (wk_heap ?w)) + mset (map snd (wk_replies ?w))
        + image_mset en_job (mset (cmd_entries cmds))"
    "wk_waiters w' = [] \<or> wk_heap w' = []"
    "\<exists>rs. wk_replies w' = wk_replies ?w @ rs \<and> (\<forall>r \<in> set rs. alive (fst r))"
    using Cons.IH [of ?w] Cons.prems(1) c(2) by simp_all
  have "\<exists>rs. wk_replies w' = wk_replies w @ rs \<and> (\<forall>r \<in> set rs. alive (fst r))"
    using c(3) ih(3) by (metis Un_iff append.assoc set_append)
  then show ?case unfolding ih(1) c(1) e using ih(2) by simp
qed (simp add: cmd_entries_def)

lemma cw_run_enqueues:
  "wk_waiters w = [] \<Longrightarrow> \<forall>r. WC_Dequeue r \<notin> set cmds \<Longrightarrow>
    foldl (\<lambda>w cmd. cw_worker_cmd alive cmd w) w cmds = w\<lparr> wk_heap := rev (cmd_entries cmds) @ wk_heap w \<rparr>"
proof (induction cmds arbitrary: w)
  case (Cons cmd cmds)
  then obtain cost seq job where "cmd = WC_Enqueue cost seq job" by (cases cmd) auto
  with Cons show ?case
    by (cases w) (simp add: cw_worker_cmd_def heap_push_def cmd_entries_def)
qed (simp add: cmd_entries_def)

section \<open>Lemmas: one whole dequeue\<close>

lemma cw_dequeue_open:
  assumes "cw_idle q" "cw_tx q"
  shows "cw_dequeue q =
    (case cw_entries q of
       [] \<Rightarrow> (Waiting, q\<lparr> cw_chan := [], cw_worker := \<lparr> wk_heap = [], wk_waiters = [0], wk_replies = [] \<rparr> \<rparr>)
     | x # xs \<Rightarrow> (Got (en_job (fst (heap_pop_from x xs))),
         q\<lparr> cw_chan := [], cw_worker := \<lparr> wk_heap = snd (heap_pop_from x xs), wk_waiters = [], wk_replies = [] \<rparr> \<rparr>))"
proof -
  have "foldl (\<lambda>w cmd. cw_worker_cmd (\<lambda>_. True) cmd w) (cw_worker q) (cw_chan q)
      = (cw_worker q)\<lparr> wk_heap := cw_entries q \<rparr>"
    using assms by (subst cw_run_enqueues) (auto simp: cw_idle_def cw_entries_def)
  with assms show ?thesis
    by (cases "cw_worker q")
      (auto simp: cw_dequeue_def cw_dequeue_start_def cw_send_def cw_run_worker_def cw_idle_def Let_def
        cw_dequeue_finish_def cw_worker_cmd_def split: list.splits prod.splits)
qed

lemma cw_dequeue_dead: "cw_dead q \<Longrightarrow> cw_dequeue q = (EndOfQueue, q)"
  by (simp add: cw_dequeue_def cw_dequeue_start_def)

lemma cw_idle_dequeue_got:
  assumes "cw_idle q" "cw_dequeue q = (Got j, q')"
  obtains e where "en_job e = j" "add_mset e (mset (cw_entries q')) = mset (cw_entries q)"
    "\<forall>e' \<in> set (cw_entries q). en_key e \<le> en_key e'" "cw_idle q'" "cw_tx q'" "cw_tx q" "cw_seq q' = cw_seq q"
proof -
  have tx: "cw_tx q" using assms cw_dequeue_dead [of q] by (auto simp: cw_idle_def)
  with assms obtain x xs where q: "cw_entries q = x # xs"
    by (cases "cw_entries q") (auto simp: cw_dequeue_open)
  obtain e rest where p: "heap_pop_from x xs = (e, rest)" by (rule prod.exhaust)
  from assms tx q p have r: "j = en_job e"
    "q' = q\<lparr> cw_chan := [], cw_worker := \<lparr> wk_heap = rest, wk_waiters = [], wk_replies = [] \<rparr> \<rparr>"
    by (simp_all add: cw_dequeue_open)
  have "cw_entries q' = rest" by (simp add: r cw_entries_def cmd_entries_def)
  with r q tx assms(1) heap_pop_from_mset [OF p] heap_pop_from_min [OF p] show thesis
    by (intro that [of e]) (auto simp: cw_idle_def)
qed

lemma cw_entries_enqueue:
  "cw_idle q \<Longrightarrow> cw_tx q \<Longrightarrow>
    cw_entries (cw_enqueue j q) = \<lparr> en_cost = job_cost 0 j, en_seq = cw_seq q, en_job = j \<rparr> # cw_entries q"
  by (simp add: cw_enqueue_def cw_send_def cw_idle_def cw_entries_def cmd_entries_def Let_def)

lemma cw_enqueue_idle:
  "cw_idle q \<Longrightarrow> cw_idle (cw_enqueue j q) \<and> cw_tx (cw_enqueue j q) = cw_tx q
    \<and> cw_seq (cw_enqueue j q) = cw_seq q + 1"
  by (auto simp: cw_enqueue_def cw_send_def cw_idle_def Let_def)

lemma cw_entries_enqueue_closed:
  "cw_idle q \<Longrightarrow> \<not> cw_tx q \<Longrightarrow> cw_entries (cw_enqueue j q) = cw_entries q"
  by (simp add: cw_enqueue_def cw_send_def cw_idle_def cw_entries_def Let_def)

section \<open>The interface is implemented\<close>

interpretation cw: job_queue cw_enqueue cw_dequeue cw_close cw_contents cw_tx cw_idle
proof unfold_locales
  fix s s' :: CostWeightedQueue and j :: Job and r :: "Job dequeued"
  assume inv: "cw_idle s"
  have dead: "\<not> cw_tx s \<Longrightarrow> cw_dequeue s = (EndOfQueue, s)"
    using inv cw_dequeue_dead [of s] by (simp add: cw_idle_def)
  show "cw_tx s \<Longrightarrow> cw_contents (cw_enqueue j s) = add_mset j (cw_contents s)"
    using inv by (simp add: cw_contents_def cw_entries_enqueue)
  show "\<not> cw_tx s \<Longrightarrow> cw_contents (cw_enqueue j s) = cw_contents s"
    using inv by (simp add: cw_contents_def cw_entries_enqueue_closed)
  show "cw_idle (cw_enqueue j s) \<and> cw_tx (cw_enqueue j s) = cw_tx s"
    using inv by (simp add: cw_enqueue_idle)
  show "j \<in># cw_contents s \<and> cw_contents s' = cw_contents s - {#j#}" if d: "cw_dequeue s = (Got j, s')"
  proof -
    from cw_idle_dequeue_got [OF inv d] obtain e
      where "en_job e = j" "add_mset e (mset (cw_entries s')) = mset (cw_entries s)" by blast
    then show ?thesis unfolding cw_contents_def by (metis add_mset_remove_trivial image_mset_add_mset union_single_eq_member)
  qed
  show "cw_contents s' \<subseteq># cw_contents s \<and> (cw_tx s \<longrightarrow> cw_contents s = {#})"
    if d: "cw_dequeue s = (r, s')" "\<forall>j. r \<noteq> Got j"
    using d inv dead by (cases "cw_tx s"; cases "cw_entries s")
      (auto simp: cw_dequeue_open cw_contents_def cw_entries_def [of s'] cmd_entries_def)
  show "fst (cw_dequeue s) = Waiting \<longleftrightarrow> cw_tx s \<and> cw_contents s = {#}"
    using inv dead by (cases "cw_tx s"; cases "cw_entries s") (auto simp: cw_dequeue_open cw_contents_def)
  show "cw_idle (snd (cw_dequeue s)) \<and> cw_tx (snd (cw_dequeue s)) = cw_tx s"
    if "fst (cw_dequeue s) \<noteq> Waiting"
    using that inv dead by (cases "cw_tx s"; cases "cw_entries s") (auto simp: cw_dequeue_open cw_idle_def)
  show "cw_idle (cw_close s) \<and> \<not> cw_tx (cw_close s) \<and> cw_contents (cw_close s) \<subseteq># cw_contents s"
    using inv by (simp add: cw_close_def cw_idle_def cw_contents_def cw_entries_def)
qed

section \<open>Lemmas: the order of delivery\<close>

lemma cw_drain_sorted:
  "cw_idle q \<Longrightarrow> cw_tx q \<Longrightarrow> distinct (map en_key (cw_entries q)) \<Longrightarrow>
    fst (drain cw_dequeue (length (cw_entries q)) q) = map en_job (sort_key en_key (cw_entries q))"
proof (induction "length (cw_entries q)" arbitrary: q)
  case (Suc n)
  obtain j q' where d: "cw_dequeue q = (Got j, q')"
  proof -
    have "cw_contents q \<noteq> {#}" using Suc.hyps(2) by (auto simp: cw_contents_def)
    with that show thesis using cw.open_nonempty_got [OF Suc.prems(1,2)] by blast
  qed
  from cw_idle_dequeue_got [OF Suc.prems(1) d] obtain e
    where e: "en_job e = j" "add_mset e (mset (cw_entries q')) = mset (cw_entries q)"
      "\<forall>e' \<in> set (cw_entries q). en_key e \<le> en_key e'" and q': "cw_idle q'" "cw_tx q'" by blast
  have len: "n = length (cw_entries q')"
    using arg_cong [OF e(2), of size] Suc.hyps(2) by simp
  have dist: "distinct (map en_key (e # cw_entries q'))"
  proof -
    have "mset (map en_key (e # cw_entries q')) = mset (map en_key (cw_entries q))"
      using arg_cong [OF e(2), of "image_mset en_key"] by simp
    from mset_eq_imp_distinct_iff [OF this] Suc.prems(3) show ?thesis by simp
  qed
  have "sort_key en_key (cw_entries q) = e # sort_key en_key (cw_entries q')"
  proof (rule sort_key_inj_key_eq)
    show "mset (cw_entries q) = mset (e # sort_key en_key (cw_entries q'))" using e(2) by simp
    show "inj_on en_key (set (cw_entries q))" using Suc.prems(3) by (simp add: distinct_map)
    have "set (cw_entries q') \<subseteq> set (cw_entries q)"
      using e(2) by (metis set_mset_add_mset_insert set_mset_mset subset_insertI)
    then show "sorted (map en_key (e # sort_key en_key (cw_entries q')))"
      using e(3) by auto
  qed
  moreover have "fst (drain cw_dequeue n q') = map en_job (sort_key en_key (cw_entries q'))"
    using Suc.hyps(1) [OF len q'] dist len by simp
  ultimately show ?case
    using e(1) d by (auto simp flip: Suc.hyps(2) split: prod.splits)
qed simp

primrec numbered :: "u64 \<Rightarrow> Job list \<Rightarrow> Entry list" where
  "numbered s [] = []"
| "numbered s (j # js) = \<lparr> en_cost = job_cost 0 j, en_seq = s, en_job = j \<rparr> # numbered (s + 1) js"

lemma numbered_conv: "numbered s js =
    map (\<lambda>i. \<lparr> en_cost = job_cost 0 (js ! i), en_seq = s + of_nat i, en_job = js ! i \<rparr>) [0..<length js]"
proof (induction js arbitrary: s)
  case (Cons j js)
  have "[0..<length (j # js)] = 0 # map Suc [0..<length js]" by (simp add: upt_conv_Cons map_Suc_upt del: upt_Suc)
  with Cons show ?case by (simp add: comp_def ac_simps)
qed simp

lemma cw_enqueue_all_entries:
  "cw_idle q \<Longrightarrow> cw_tx q \<Longrightarrow>
    cw_entries (enqueue_all cw_enqueue js q) = rev (numbered (cw_seq q) js) @ cw_entries q"
proof (induction js arbitrary: q)
  case (Cons j js)
  then show ?case
    using cw_enqueue_idle [OF Cons.prems(1), of j] by (simp add: cw_entries_enqueue)
qed simp

lemma numbered_jobs: "map en_job (numbered s js) = js"
  by (induction js arbitrary: s) simp_all

lemma numbered_cost: "e \<in> set (numbered s js) \<Longrightarrow> en_cost e = job_cost 0 (en_job e)"
  by (induction js arbitrary: s) auto

lemma numbered_seq:
  assumes "length js \<le> 2 ^ 64"
  shows "sorted_wrt (<) (map en_seq (numbered 0 js))"
proof -
  have "(of_nat i :: u64) < of_nat j" if "i < j" "j < length js" for i j
    using that assms by (simp add: word_less_nat_alt unat_of_nat)
  then show ?thesis by (simp add: sorted_wrt_iff_nth_less numbered_conv)
qed

lemma sort_key_cost_seq:
  assumes "sorted_wrt (<) (map en_seq m)" "mset xs = mset m"
  shows "filter (\<lambda>e. en_cost e = c) (sort_key en_key xs) = filter (\<lambda>e. en_cost e = c) m" (is "?l = ?r")
proof -
  have dm: "distinct (map en_seq m)" using assms(1) by (simp add: strict_sorted_iff)
  have ms: "mset ?r = mset ?l" using assms(2) by (simp add: mset_filter)
  have inj: "inj_on en_seq (set ?r)" using dm by (auto simp: distinct_map inj_on_def)
  have "sorted (map en_key (sort_key en_key xs))" by simp
  then have "sorted (map en_key ?l)" by (rule sorted_filter)
  moreover have "sorted (map en_key ys) \<Longrightarrow> \<forall>e \<in> set ys. en_cost e = c \<Longrightarrow> sorted (map en_seq ys)" for ys
    by (induction ys) auto
  ultimately have l: "sorted (map en_seq ?l)" by simp
  have "sorted (map en_seq m)" using assms(1) by (simp add: strict_sorted_iff)
  then have r: "sorted (map en_seq ?r)" by (rule sorted_filter)
  from sort_key_inj_key_eq [OF ms inj l] sort_key_inj_key_eq [OF refl inj r] show ?thesis by simp
qed


lemma cw_new_idle: "cw_idle cw_new" "cw_tx cw_new" "cw_entries cw_new = []" "cw_seq cw_new = 0"
  by (simp_all add: cw_idle_def cw_new_def cw_entries_def cmd_entries_def)

lemma cw_stable_sort:
  assumes "length js \<le> 2 ^ 64"
  shows "map en_job (sort_key en_key (rev (numbered 0 js))) = sort_key (job_cost 0) js"
proof -
  let ?s = "sort_key en_key (rev (numbered 0 js))"
  have cost: "\<forall>e \<in> set ?s. en_cost e = job_cost 0 (en_job e)" using numbered_cost by auto
  have f: "filter (\<lambda>x. c = job_cost 0 x) (map en_job es) = map en_job (filter (\<lambda>e. en_cost e = c) es)"
    if "set es \<subseteq> set (numbered 0 js)" for c es
    using that numbered_cost by (induction es) auto
  have "sort_key (job_cost 0) js = map en_job ?s"
  proof (rule properties_for_sort_key)
    show "mset (map en_job ?s) = mset js" using arg_cong [OF numbered_jobs [of 0 js], of mset] by simp
    show "filter (\<lambda>x. job_cost 0 k = job_cost 0 x) (map en_job ?s) = filter (\<lambda>x. job_cost 0 k = job_cost 0 x) js"
      if "k \<in> set (map en_job ?s)" for k
    proof -
      have "filter (\<lambda>x. job_cost 0 k = job_cost 0 x) js
          = filter (\<lambda>x. job_cost 0 k = job_cost 0 x) (map en_job (numbered 0 js))"
        by (simp add: numbered_jobs)
      then show ?thesis
        using sort_key_cost_seq [OF numbered_seq [OF assms], of "rev (numbered 0 js)"] by (simp add: f)
    qed
    have "sorted (map en_key ys) \<Longrightarrow> sorted (map en_cost ys)" for ys
      by (induction ys) auto
    then have "sorted (map en_cost ?s)" by simp
    moreover have "map (job_cost 0) (map en_job ?s) = map en_cost ?s" using cost by simp
    ultimately show "sorted (map (job_cost 0) (map en_job ?s))" by (simp only:)
  qed
  then show ?thesis by simp
qed

section \<open>Properties\<close>

text \<open>C7 Jobs enqueued on a fresh cost-weighted queue come out cheapest first, jobs of equal cost in
  the order they were enqueued: draining it is the stable sort by cost (a missing or non-integer
  cost counting as 0).  The bound is the range of the sequence counter.\<close>
theorem cost_weighted_stable_order:
  assumes "length js \<le> 2 ^ 64"
  shows "fst (drain cw_dequeue (length js) (enqueue_all cw_enqueue js cw_new)) = sort_key (job_cost 0) js"
proof -
  let ?q = "enqueue_all cw_enqueue js cw_new"
  have q: "cw_idle ?q" "cw_tx ?q" using cw.enqueue_all_open [of cw_new js] cw_new_idle by simp_all
  have e: "cw_entries ?q = rev (numbered 0 js)" using cw_enqueue_all_entries [of cw_new js] cw_new_idle by simp
  have "distinct (map en_seq (numbered 0 js))" using numbered_seq [OF assms] by (simp add: strict_sorted_iff)
  then have "distinct (map en_key (cw_entries ?q))" by (auto simp: e distinct_map inj_on_def rev_map)
  from cw_drain_sorted [OF q this] have "fst (drain cw_dequeue (length (numbered 0 js)) ?q)
      = map en_job (sort_key en_key (rev (numbered 0 js)))" by (simp add: e)
  moreover have "length (numbered 0 js) = length js" by (metis length_map numbered_jobs)
  ultimately show ?thesis by (simp add: cw_stable_sort [OF assms])
qed

theorem cost_weighted_stable_order_witness:
  "map job_id (fst (drain cw_dequeue 3
      (enqueue_all cw_enqueue [job_with_cost ''a'' 9, job_with_cost ''b'' 2, job_with_cost ''c'' 2] cw_new)))
    = [''b'', ''c'', ''a'']"
proof -
  have "fst (drain cw_dequeue (length [job_with_cost ''a'' 9, job_with_cost ''b'' 2, job_with_cost ''c'' 2])
      (enqueue_all cw_enqueue [job_with_cost ''a'' 9, job_with_cost ''b'' 2, job_with_cost ''c'' 2] cw_new))
    = sort_key (job_cost 0) [job_with_cost ''a'' 9, job_with_cost ''b'' 2, job_with_cost ''c'' 2]"
    by (rule cost_weighted_stable_order) simp
  moreover have "job_cost 0 (job_with_cost jid c) = c" for jid c
    by (simp add: job_with_cost_def job_cost_def as_u64_def)
  moreover have "job_id (job_with_cost jid c) = jid" for jid c by (simp add: job_with_cost_def)
  moreover have "length [job_with_cost ''a'' 9, job_with_cost ''b'' 2, job_with_cost ''c'' 2] = 3" by simp
  ultimately show ?thesis by (simp add: numeral_3_eq_3 del: drain.simps enqueue_all.simps)
qed

text \<open>The background worker loses no job and invents none, even when callers go away while it
  matches them: after any commands, the jobs in its heap and in sent replies are those it had
  plus those enqueued; a reply goes only to a caller which was still there; and it never
  leaves both a waiting caller and a job.\<close>
lemma cost_weighted_worker_conserves:
  assumes "foldl (\<lambda>w cmd. cw_worker_cmd alive cmd w) w cmds = w'" "wk_waiters w = [] \<or> wk_heap w = []"
  shows "image_mset en_job (mset (wk_heap w')) + mset (map snd (wk_replies w')) =
      image_mset en_job (mset (wk_heap w)) + mset (map snd (wk_replies w))
        + image_mset en_job (mset (cmd_entries cmds))
    \<and> (wk_waiters w' = [] \<or> wk_heap w' = [])
    \<and> (\<exists>rs. wk_replies w' = wk_replies w @ rs \<and> (\<forall>r \<in> set rs. alive (fst r)))"
  using cw_run_conserves [OF assms] .


end
