(* ===== verification/Age_Priority_Queue.thy ===== *)
theory Age_Priority_Queue
  imports Job_Queue Complex_Main "HOL-Library.Product_Lexorder"
begin

text \<open>
  The age-priority queue (\<open>bits/src/dispatcher/queue/age_priority.rs\<close>): a worker thread keeps
  a vector sorted by waiting time over the integer square root of the cost and serves waiting
  callers from its end.  It sorts after every batch with an enqueue and on every timeout.

  The clock is a component of the state, so \<open>Instant::now()\<close> reads it.  As for the cost-weighted
  queue, two arguments of the service loop say which callers are gone at the \<open>is_closed\<close> test and
  which are still there at the send.
\<close>

record AgeEntry =
  ae_cost :: u64
  ae_seq :: u64
  ae_enqueued_at :: instant
  ae_job :: Job

datatype AgeCmd =
    AC_Enqueue AgeEntry
  | AC_Dequeue nat

section \<open>Priority\<close>

text \<open>The \<open>while\<close> loop of \<open>integer_sqrt\<close>.\<close>
function isqrt_loop :: "u128 \<Rightarrow> u128 \<Rightarrow> u128 \<Rightarrow> u128" where
  "isqrt_loop value x y =
    (if y < x then isqrt_loop value y ((y + value div y) div 2) else x)"
  by auto
termination
  by (relation "measure (\<lambda>(value, x, y). unat x)") (auto simp: word_less_nat_alt)

declare isqrt_loop.simps [simp del]

definition integer_sqrt :: "u128 \<Rightarrow> u128" where
  "integer_sqrt value = max (isqrt_loop value value (value div 2 + value mod 2)) 1"

text \<open>\<open>now.duration_since(t).as_nanos()\<close>, which saturates at zero.\<close>
definition wait_nanos :: "instant \<Rightarrow> instant \<Rightarrow> u128" where
  "wait_nanos now t = of_nat (now - t)"

definition compare_entries :: "instant \<Rightarrow> AgeEntry \<Rightarrow> AgeEntry \<Rightarrow> ordering" where
  "compare_entries now left right =
    (let left_cost = integer_sqrt (ucast (max (ae_cost left) 1));
         right_cost = integer_sqrt (ucast (max (ae_cost right) 1));
         left_wait = wait_nanos now (ae_enqueued_at left);
         right_wait = wait_nanos now (ae_enqueued_at right);
         left_score = saturating_mul left_wait right_cost;
         right_score = saturating_mul right_wait left_cost
     in case ord_cmp left_score right_score of
          Equal \<Rightarrow> ord_cmp (ae_seq right) (ae_seq left)
        | other \<Rightarrow> other)"

text \<open>The standard library's stable \<open>sort_by\<close>, as insertion: the result for every total order.\<close>
primrec insert_by :: "('a \<Rightarrow> 'a \<Rightarrow> ordering) \<Rightarrow> 'a \<Rightarrow> 'a list \<Rightarrow> 'a list" where
  "insert_by cmp x [] = [x]"
| "insert_by cmp x (y # ys) = (if cmp y x = Less then y # insert_by cmp x ys else x # y # ys)"

definition sort_by :: "('a \<Rightarrow> 'a \<Rightarrow> ordering) \<Rightarrow> 'a list \<Rightarrow> 'a list" where
  "sort_by cmp xs = foldr (insert_by cmp) xs []"

definition rebalance :: "instant \<Rightarrow> AgeEntry list \<Rightarrow> AgeEntry list" where
  "rebalance now entries =
    (if length entries < 2 then entries else sort_by (compare_entries now) entries)"

section \<open>The worker\<close>

record AgeWorker =
  aw_entries :: "AgeEntry list"
  aw_waiters :: "nat list"
  aw_replies :: "(nat \<times> Job) list"
  aw_needs_rebalance :: bool

fun service_waiters ::
  "(nat \<Rightarrow> bool) \<Rightarrow> (nat \<Rightarrow> bool) \<Rightarrow> AgeEntry list \<Rightarrow> nat list \<Rightarrow> (nat \<times> Job) list
    \<Rightarrow> AgeEntry list \<times> nat list \<times> (nat \<times> Job) list" where
  "service_waiters gone alive entries [] replies = (entries, [], replies)"
| "service_waiters gone alive entries (reply # waiters) replies =
    (if entries = [] then (entries, reply # waiters, replies)
     else if gone reply then service_waiters gone alive entries waiters replies
     else let entry = last entries; entries = butlast entries in
       if alive reply
       then service_waiters gone alive entries waiters (replies @ [(reply, ae_job entry)])
       else service_waiters gone alive (entries @ [entry]) waiters replies)"

primrec handle_cmd :: "AgeCmd \<Rightarrow> AgeWorker \<Rightarrow> AgeWorker" where
  "handle_cmd (AC_Enqueue entry) w = w\<lparr> aw_entries := aw_entries w @ [entry] \<rparr>"
| "handle_cmd (AC_Dequeue reply) w = w\<lparr> aw_waiters := aw_waiters w @ [reply] \<rparr>"

definition is_enqueue :: "AgeCmd \<Rightarrow> bool" where
  "is_enqueue cmd = (case cmd of AC_Enqueue _ \<Rightarrow> True | AC_Dequeue _ \<Rightarrow> False)"

text \<open>One iteration of the worker loop.  The batch is what \<open>recv_timeout\<close> and the following
  \<open>try_recv\<close> calls yield; the empty batch is the timeout.\<close>
definition age_receive :: "AgeCmd list \<Rightarrow> AgeWorker \<Rightarrow> AgeWorker" where
  "age_receive batch w =
    (case batch of
       [] \<Rightarrow> w\<lparr> aw_needs_rebalance := length (aw_entries w) > 1 \<rparr>
     | cmd # cmds \<Rightarrow>
         let w = foldl (\<lambda>w c. (handle_cmd c w)\<lparr> aw_needs_rebalance := aw_needs_rebalance w \<or> is_enqueue c \<rparr>)
                   (handle_cmd cmd w) cmds
         in w\<lparr> aw_needs_rebalance := aw_needs_rebalance w \<or> is_enqueue cmd \<rparr>)"

definition age_iteration ::
  "instant \<Rightarrow> (nat \<Rightarrow> bool) \<Rightarrow> (nat \<Rightarrow> bool) \<Rightarrow> AgeCmd list \<Rightarrow> AgeWorker \<Rightarrow> AgeWorker" where
  "age_iteration now gone alive batch w =
    (let w = age_receive batch w;
         w = (if aw_needs_rebalance w
              then w\<lparr> aw_entries := rebalance now (aw_entries w), aw_needs_rebalance := False \<rparr> else w);
         (entries, waiters, replies) =
           service_waiters gone alive (aw_entries w) (aw_waiters w) (aw_replies w)
     in w\<lparr> aw_entries := entries, aw_waiters := waiters, aw_replies := replies \<rparr>)"

section \<open>The queue\<close>

record AgePriorityQueue =
  ag_tx :: bool
  ag_seq :: u64
  ag_dead :: bool
  ag_chan :: "AgeCmd list"
  ag_worker :: AgeWorker
  ag_alive :: bool
  ag_clock :: instant

definition age_new :: "instant \<Rightarrow> AgePriorityQueue" where
  "age_new now = \<lparr> ag_tx = True, ag_seq = 0, ag_dead = False, ag_chan = [],
    ag_worker = \<lparr> aw_entries = [], aw_waiters = [], aw_replies = [], aw_needs_rebalance = False \<rparr>,
    ag_alive = True, ag_clock = now \<rparr>"

text \<open>The thread takes everything in the channel as one batch; when the sender is gone too, the
  next \<open>recv_timeout\<close> reports \<open>Disconnected\<close> and the thread ends, dropping entries and waiters.\<close>
definition age_run_worker :: "AgePriorityQueue \<Rightarrow> AgePriorityQueue" where
  "age_run_worker q =
    (if \<not> ag_alive q then q
     else let w = (if ag_chan q = [] \<and> \<not> ag_tx q then ag_worker q
                   else age_iteration (ag_clock q) (\<lambda>_. False) (\<lambda>_. True) (ag_chan q) (ag_worker q)) in
       if ag_tx q then q\<lparr> ag_chan := [], ag_worker := w \<rparr>
       else q\<lparr> ag_chan := [], ag_worker := w\<lparr> aw_entries := [], aw_waiters := [] \<rparr>, ag_alive := False \<rparr>)"

definition age_send :: "AgeCmd \<Rightarrow> AgePriorityQueue \<Rightarrow> bool \<times> AgePriorityQueue" where
  "age_send cmd q =
    (if ag_tx q \<and> ag_alive q then (False, q\<lparr> ag_chan := ag_chan q @ [cmd] \<rparr>) else (True, q))"

definition age_enqueue :: "Job \<Rightarrow> AgePriorityQueue \<Rightarrow> AgePriorityQueue" where
  "age_enqueue job q =
    (let cost = job_cost 1 job;
         seq = ag_seq q;
         q = q\<lparr> ag_seq := seq + 1 \<rparr>;
         (send_failed, q) = age_send (AC_Enqueue
           \<lparr> ae_cost = cost, ae_seq = seq, ae_enqueued_at = ag_clock q, ae_job = job \<rparr>) q
     in if send_failed then q\<lparr> ag_dead := True \<rparr> else q)"

definition age_dequeue_start :: "nat \<Rightarrow> AgePriorityQueue \<Rightarrow> bool \<times> AgePriorityQueue" where
  "age_dequeue_start reply q =
    (if ag_dead q then (False, q)
     else case age_send (AC_Dequeue reply) q of
       (True, q) \<Rightarrow> (False, q\<lparr> ag_dead := True \<rparr>)
     | (False, q) \<Rightarrow> (True, q))"

definition age_dequeue_finish :: "nat \<Rightarrow> AgePriorityQueue \<Rightarrow> Job dequeued \<times> AgePriorityQueue" where
  "age_dequeue_finish reply q =
    (case map_of (aw_replies (ag_worker q)) reply of
       Some job \<Rightarrow>
         (Got job, q\<lparr> ag_worker := (ag_worker q)\<lparr> aw_replies :=
            filter (\<lambda>r. fst r \<noteq> reply) (aw_replies (ag_worker q)) \<rparr> \<rparr>)
     | None \<Rightarrow> if ag_alive q then (Waiting, q) else (EndOfQueue, q\<lparr> ag_dead := True \<rparr>))"

definition age_close :: "AgePriorityQueue \<Rightarrow> AgePriorityQueue" where
  "age_close q = q\<lparr> ag_dead := True, ag_tx := False \<rparr>"

definition age_dequeue :: "AgePriorityQueue \<Rightarrow> Job dequeued \<times> AgePriorityQueue" where
  "age_dequeue q =
    (case age_dequeue_start 0 q of
       (False, q) \<Rightarrow> (EndOfQueue, q)
     | (True, q) \<Rightarrow> age_dequeue_finish 0 (age_run_worker q))"

section \<open>Abstraction\<close>

definition age_cmd_entries :: "AgeCmd list \<Rightarrow> AgeEntry list" where
  "age_cmd_entries cmds = concat (map (\<lambda>c. case c of AC_Enqueue e \<Rightarrow> [e] | AC_Dequeue _ \<Rightarrow> []) cmds)"

definition age_entries :: "AgePriorityQueue \<Rightarrow> AgeEntry list" where
  "age_entries q = aw_entries (ag_worker q) @ age_cmd_entries (ag_chan q)"

definition age_contents :: "AgePriorityQueue \<Rightarrow> Job multiset" where
  "age_contents q = image_mset ae_job (mset (age_entries q))"

definition age_idle :: "AgePriorityQueue \<Rightarrow> bool" where
  "age_idle q \<longleftrightarrow> aw_waiters (ag_worker q) = [] \<and> aw_replies (ag_worker q) = [] \<and>
    (\<forall>r. AC_Dequeue r \<notin> set (ag_chan q)) \<and> (ag_tx q \<longrightarrow> ag_alive q) \<and> (ag_dead q = (\<not> ag_tx q))
    \<and> \<not> aw_needs_rebalance (ag_worker q)"

section \<open>Lemmas: the integer square root\<close>

text \<open>One Newton step from above stays above the root.\<close>
lemma newton_above:
  fixes s v x :: nat
  assumes "s * s \<le> v" "0 < x"
  shows "s \<le> (x + v div x) div 2"
proof -
  have "2 * s \<le> x + v div x"
  proof (cases "2 * s \<le> x")
    case False
    then have "x * (2 * s - x) \<le> s * s"
    proof -
      have "int x * (2 * int s - int x) \<le> int s * int s"
        using zero_le_square [of "int s - int x"] by (simp add: algebra_simps)
      moreover have "int (x * (2 * s - x)) = int x * (2 * int s - int x)" using False by (simp add: of_nat_diff)
      ultimately show ?thesis by (metis of_nat_le_iff of_nat_mult)
    qed
    with assms(1) have "(2 * s - x) * x \<le> v" by (simp add: mult.commute)
    then have "2 * s - x \<le> v div x" using assms(2) by (simp add: less_eq_div_iff_mult_less_eq)
    then show ?thesis by simp
  qed simp
  then show ?thesis by simp
qed

lemma newton_stop:
  fixes v x :: nat
  assumes "x \<le> (x + v div x) div 2" "0 < x"
  shows "x * x \<le> v"
proof -
  from assms(1) have "x \<le> v div x" by simp
  then show ?thesis using assms(2) by (simp add: less_eq_div_iff_mult_less_eq)
qed

lemma isqrt_loop_correct:
  fixes v x y :: u128
  assumes "s * s \<le> unat v" "unat v < (s + 1) * (s + 1)" "1 \<le> s" "s \<le> unat x" "s \<le> unat y"
    "unat y \<le> 2 ^ 127" "y < x \<or> unat y = (unat x + unat v div unat x) div 2"
  shows "unat (isqrt_loop v x y) = s"
  using assms
proof (induction v x y rule: isqrt_loop.induct)
  case (1 v x y)
  show ?case
  proof (cases "y < x")
    case True
    let ?y = "unat y" and ?v = "unat v"
    have y0: "0 < ?y" using "1.prems"(3,5) by simp
    have vlt: "?v < 2 ^ 128" using unsigned_less [of v, where 'a = nat] by simp
    have sum: "?y + ?v div ?y < 2 ^ 128"
    proof (cases "?y = 1")
      case True
      then have "s = 1" using "1.prems"(3,5) by simp
      then show ?thesis using "1.prems"(2) True by simp
    next
      case False
      then have "?v div ?y \<le> ?v div 2" using y0 by (intro div_le_mono2) auto
      then show ?thesis using vlt "1.prems"(6) by simp
    qed
    have u: "unat ((y + v div y) div 2) = (?y + ?v div ?y) div 2"
    proof -
      have "unat (y + v div y) = ?y + ?v div ?y"
        using sum by (simp add: unat_word_ariths unat_div)
      then show ?thesis by (simp add: unat_div)
    qed
    have "unat (isqrt_loop v y ((y + v div y) div 2)) = s"
    proof (rule "1.IH" [OF True "1.prems"(1-3) "1.prems"(5)])
      show "s \<le> unat ((y + v div y) div 2)" unfolding u using "1.prems"(1) y0 by (rule newton_above)
      show "unat ((y + v div y) div 2) \<le> 2 ^ 127" unfolding u using sum by simp
    qed (simp add: u)
    with True show ?thesis by (simp add: isqrt_loop.simps [of v x y])
  next
    case False
    then have "unat x \<le> (unat x + unat v div unat x) div 2"
      using "1.prems"(7) by (auto simp: word_less_nat_alt)
    then have "unat x * unat x \<le> unat v" using "1.prems"(3,4) by (intro newton_stop) auto
    then have "unat x * unat x < (s + 1) * (s + 1)" using "1.prems"(2) by simp
    then have "unat x < s + 1" by (metis mult_le_mono not_less)
    with "1.prems"(4) False show ?thesis by (simp add: isqrt_loop.simps)
  qed
qed

lemma sqrt_exists: "\<exists>s. s * s \<le> v \<and> v < (s + 1) * (s + 1)" for v :: nat
proof (induction v)
  case (Suc v)
  then obtain s where s: "s * s \<le> v" "v < (s + 1) * (s + 1)" by blast
  show ?case
  proof (cases "Suc v < (s + 1) * (s + 1)")
    case False
    with s have "Suc v = (s + 1) * (s + 1)" by simp
    then show ?thesis by (intro exI [of _ "s + 1"]) simp
  next
    case True
    then show ?thesis using s(1) by (intro exI [of _ s]) simp
  qed
qed (rule exI [of _ 0], simp)

lemma integer_sqrt_correct:
  assumes "0 < v"
  shows "unat (integer_sqrt v) * unat (integer_sqrt v) \<le> unat v
    \<and> unat v < (unat (integer_sqrt v) + 1) * (unat (integer_sqrt v) + 1)"
proof -
  have v0: "0 < unat v" using assms by (simp add: word_less_nat_alt)
  obtain s where s: "s * s \<le> unat v" "unat v < (s + 1) * (s + 1)" using sqrt_exists by blast
  have s1: "1 \<le> s" using s(2) v0 by (cases s) auto
  have vlt: "unat v < 2 ^ 128" using unsigned_less [of v, where 'a = nat] by simp
  have y: "unat (v div 2 + v mod 2) = unat v div 2 + unat v mod 2"
    using vlt by (subst unat_word_ariths) (simp add: unat_div unat_mod)
  have sv: "s \<le> unat v" using s(1) s1 by (metis le_trans mult.right_neutral mult_le_mono2)
  have "unat (isqrt_loop v v (v div 2 + v mod 2)) = s"
  proof (rule isqrt_loop_correct [OF s s1 sv])
    show "s \<le> unat (v div 2 + v mod 2)"
    proof (cases "s = 1")
      case False
      then have "2 * s \<le> s * s" using s1 by simp
      with s(1) have "2 * s \<le> unat v" by (rule order.trans [rotated])
      then show ?thesis unfolding y by linarith
    next
      case True
      then show ?thesis unfolding y using v0 by presburger
    qed
    show "unat (v div 2 + v mod 2) \<le> 2 ^ 127" unfolding y using vlt by simp
    show "v div 2 + v mod 2 < v
      \<or> unat (v div 2 + v mod 2) = (unat v + unat v div unat v) div 2"
    proof -
      have "unat v div unat v = 1" using v0 by simp
      then show ?thesis unfolding word_less_nat_alt y \<open>unat v div unat v = 1\<close> using v0 by presburger
    qed
  qed
  moreover from this s1 have "integer_sqrt v = isqrt_loop v v (v div 2 + v mod 2)"
    by (auto simp: integer_sqrt_def max_def word_le_nat_alt word_unat_eq_iff)
  ultimately show ?thesis using s by simp
qed

lemma integer_sqrt_pos: "1 \<le> unat (integer_sqrt v)"
proof -
  have "1 \<le> integer_sqrt v" by (simp add: integer_sqrt_def)
  then show ?thesis by (simp add: word_le_nat_alt)
qed


section \<open>Lemmas: the priority order\<close>

abbreviation root_cost :: "AgeEntry \<Rightarrow> nat" where
  "root_cost e \<equiv> unat (integer_sqrt (ucast (max (ae_cost e) 1)))"

lemma root_cost_bounds: "1 \<le> root_cost e \<and> root_cost e < 2 ^ 32"
proof -
  let ?c = "ucast (max (ae_cost e) 1) :: u128"
  have u: "unat ?c = unat (max (ae_cost e) 1)"
  proof -
    have "unat (max (ae_cost e) 1) < 2 ^ 64"
      using unsigned_less [of "max (ae_cost e) 1", where 'a = nat] by simp
    then show ?thesis by (simp add: unsigned_ucast_eq take_bit_nat_eq_self)
  qed
  have "1 \<le> max (ae_cost e) 1" by simp
  then have "1 \<le> unat ?c" unfolding u by (simp add: word_le_nat_alt)
  then have "0 < ?c" by (simp add: word_less_nat_alt)
  then have "root_cost e * root_cost e \<le> unat ?c" using integer_sqrt_correct by blast
  also have "unat ?c < 2 ^ 64" unfolding u using unsigned_less [of "max (ae_cost e) 1", where 'a = nat] by simp
  finally have "root_cost e * root_cost e < 2 ^ 32 * 2 ^ 32" by simp
  then have "root_cost e < 2 ^ 32" by (metis mult_le_mono not_less)
  with integer_sqrt_pos show ?thesis by simp
qed

text \<open>Durations have at most \<open>2 ^ 64\<close> seconds, so they are below \<open>2 ^ 94\<close> nanoseconds.\<close>

lemma saturating_mul_score:
  assumes "now < 2 ^ 94"
  shows "uint (saturating_mul (wait_nanos now t) (integer_sqrt (ucast (max (ae_cost e) 1))))
    = int ((now - t) * root_cost e)"
proof -
  let ?w = "wait_nanos now t" and ?r = "integer_sqrt (ucast (max (ae_cost e) 1)) :: u128"
  have w: "unat ?w = now - t" using assms by (simp add: wait_nanos_def unat_of_nat del: of_nat_diff)
  have "now - t \<le> 2 ^ 94" using assms by simp
  moreover have "unat ?r \<le> 2 ^ 32" using root_cost_bounds [of e] by simp
  ultimately have "(now - t) * unat ?r \<le> 2 ^ 94 * 2 ^ 32" by (rule mult_le_mono)
  then have "(now - t) * unat ?r < 2 ^ 128" by simp
  then have "int ((now - t) * unat ?r) < int (2 ^ 128)" by (simp only: of_nat_less_iff)
  then have lt: "uint ?w * uint ?r < 2 ^ LENGTH(128)" by (simp flip: w)
  then have "saturating_mul ?w ?r = ?w * ?r" "uint (?w * ?r) = uint ?w * uint ?r"
    by (simp_all only: saturating_mul_def uint_mult_no_overflow if_True)
  then show ?thesis by (simp flip: w)
qed

lemma compare_entries_score:
  assumes "now < 2 ^ 94"
  shows "compare_entries now l r =
    (let sl = (now - ae_enqueued_at l) * root_cost r; sr = (now - ae_enqueued_at r) * root_cost l in
     if sl < sr then Less else if sr < sl then Greater
     else ord_cmp (ae_seq r) (ae_seq l))"
  by (auto simp: compare_entries_def Let_def ord_cmp_def word_less_def word_uint_eq_iff
      saturating_mul_score [OF assms] simp del: of_nat_mult of_nat_diff split: if_splits)


text \<open>The order of the source is the order of an exact rational score, waiting time over the
  root of the cost, and among equal scores the earlier enqueued entry is greater.\<close>

definition age_key :: "instant \<Rightarrow> AgeEntry \<Rightarrow> rat \<times> int" where
  "age_key now e = (of_nat (now - ae_enqueued_at e) / of_nat (root_cost e), - uint (ae_seq e))"

lemma compare_entries_key:
  assumes "now < 2 ^ 94"
  shows "compare_entries now l r = ord_cmp (age_key now l) (age_key now r)"
proof -
  let ?wl = "now - ae_enqueued_at l" and ?wr = "now - ae_enqueued_at r"
  have pos: "0 < root_cost l" "0 < root_cost r" using root_cost_bounds [of l] root_cost_bounds [of r] by simp_all
  have cross: "(of_nat a / of_nat c < (of_nat b / of_nat d :: rat)) \<longleftrightarrow> a * d < b * c" if "0 < c" "0 < d" for a b c d :: nat
  proof -
    have "of_nat a / of_nat c < (of_nat b / of_nat d :: rat) \<longleftrightarrow> of_nat a * of_nat d < (of_nat b * of_nat c :: rat)"
      using that by (simp add: divide_less_eq less_divide_eq mult.commute mult.left_commute)
    also have "\<dots> \<longleftrightarrow> a * d < b * c" unfolding of_nat_mult [symmetric] of_nat_less_iff ..
    finally show ?thesis .
  qed
  have lt: "fst (age_key now l) < fst (age_key now r) \<longleftrightarrow> ?wl * root_cost r < ?wr * root_cost l"
    and gt: "fst (age_key now r) < fst (age_key now l) \<longleftrightarrow> ?wr * root_cost l < ?wl * root_cost r"
    unfolding age_key_def fst_conv by (simp_all only: cross pos)
  have snd: "snd (age_key now e) = - uint (ae_seq e)" for e by (simp add: age_key_def)
  obtain a b c d where k: "age_key now l = (a, b)" "age_key now r = (c, d)" by (metis prod.exhaust)
  show ?thesis
    unfolding compare_entries_score [OF assms] Let_def lt [symmetric] gt [symmetric]
    using snd [of l] snd [of r] by (auto simp: k ord_cmp_def word_less_def word_uint_eq_iff)
qed

lemma sort_by_key: "sort_by (\<lambda>a b. ord_cmp (f a) (f b)) xs = sort_key f xs"
proof -
  have "insert_by (\<lambda>a b. ord_cmp (f a) (f b)) x ys = insort_key f x ys" for x ys
    by (induction ys) (auto simp: ord_cmp_def)
  then have "insert_by (\<lambda>a b. ord_cmp (f a) (f b)) = insort_key f" by blast
  then show ?thesis by (simp add: sort_by_def sort_key_def)
qed

lemma rebalance_key:
  assumes "now < 2 ^ 94"
  shows "rebalance now entries = sort_key (age_key now) entries"
proof (cases "length entries < 2")
  case True
  then consider "entries = []" | e where "entries = [e]" by (cases entries; cases "tl entries") auto
  then show ?thesis by cases (simp_all add: rebalance_def)
next
  case False
  have "compare_entries now = (\<lambda>a b. ord_cmp (age_key now a) (age_key now b))"
    using compare_entries_key [OF assms] by blast
  with False show ?thesis by (simp add: rebalance_def sort_by_key)
qed

lemma mset_insert_by: "mset (insert_by cmp x ys) = add_mset x (mset ys)"
  by (induction ys) auto

lemma mset_rebalance [simp]: "mset (rebalance now entries) = mset entries"
proof -
  have "mset (foldr (insert_by cmp) xs []) = mset xs" for cmp and xs :: "AgeEntry list"
    by (induction xs) (simp_all add: mset_insert_by)
  then show ?thesis by (simp add: rebalance_def sort_by_def)
qed


section \<open>Lemmas: the worker\<close>

lemma mset_last_butlast: "xs \<noteq> [] \<Longrightarrow> mset xs = add_mset (last xs) (mset (butlast xs))"
  by (cases xs rule: rev_cases) auto

lemma service_waiters_conserves:
  "service_waiters gone alive entries waiters replies = (es, ws, rs) \<Longrightarrow>
    image_mset ae_job (mset es) + mset (map snd rs) = image_mset ae_job (mset entries) + mset (map snd replies)
    \<and> (ws = [] \<or> es = []) \<and> (\<exists>xs. rs = replies @ xs \<and> (\<forall>x \<in> set xs. alive (fst x) \<and> \<not> gone (fst x)))"
proof (induction gone alive entries waiters replies arbitrary: es ws rs rule: service_waiters.induct)
  case (2 gone alive entries reply waiters replies)
  show ?case
  proof (cases "entries = [] \<or> gone reply")
    case True
    with 2 show ?thesis by (auto split: if_splits)
  next
    case False
    then have ms: "mset entries = add_mset (last entries) (mset (butlast entries))" by (simp add: mset_last_butlast)
    from False 2 show ?thesis
      by (cases "alive reply") (fastforce simp: Let_def ms)+
  qed
qed simp


lemma age_receive_parts:
  "aw_entries (age_receive batch w) = aw_entries w @ age_cmd_entries batch"
  "aw_replies (age_receive batch w) = aw_replies w"
  "batch \<noteq> [] \<Longrightarrow> aw_needs_rebalance (age_receive batch w) \<longleftrightarrow>
    aw_needs_rebalance w \<or> (\<exists>c \<in> set batch. is_enqueue c)"
  "aw_waiters (age_receive batch w) =
    aw_waiters w @ concat (map (\<lambda>c. case c of AC_Dequeue r \<Rightarrow> [r] | AC_Enqueue _ \<Rightarrow> []) batch)"
proof -
  let ?step = "\<lambda>w c. (handle_cmd c w)\<lparr> aw_needs_rebalance := aw_needs_rebalance w \<or> is_enqueue c \<rparr>"
  have h: "aw_entries (handle_cmd c w) = aw_entries w @ (case c of AC_Enqueue e \<Rightarrow> [e] | AC_Dequeue _ \<Rightarrow> [])"
    "aw_replies (handle_cmd c w) = aw_replies w"
    "aw_needs_rebalance (handle_cmd c w) = aw_needs_rebalance w"
    "aw_waiters (handle_cmd c w) = aw_waiters w @ (case c of AC_Dequeue r \<Rightarrow> [r] | AC_Enqueue _ \<Rightarrow> [])" for c w
    by (cases c; simp)+
  have f: "aw_entries (foldl ?step w cmds) = aw_entries w @ age_cmd_entries cmds
      \<and> aw_replies (foldl ?step w cmds) = aw_replies w
      \<and> aw_needs_rebalance (foldl ?step w cmds) = (aw_needs_rebalance w \<or> (\<exists>c \<in> set cmds. is_enqueue c))
      \<and> aw_waiters (foldl ?step w cmds)
          = aw_waiters w @ concat (map (\<lambda>c. case c of AC_Dequeue r \<Rightarrow> [r] | AC_Enqueue _ \<Rightarrow> []) cmds)" for w cmds
    by (induction cmds arbitrary: w) (auto simp: h age_cmd_entries_def)
  show "aw_entries (age_receive batch w) = aw_entries w @ age_cmd_entries batch"
    "aw_replies (age_receive batch w) = aw_replies w"
    "batch \<noteq> [] \<Longrightarrow> aw_needs_rebalance (age_receive batch w) \<longleftrightarrow>
      aw_needs_rebalance w \<or> (\<exists>c \<in> set batch. is_enqueue c)"
    "aw_waiters (age_receive batch w) =
      aw_waiters w @ concat (map (\<lambda>c. case c of AC_Dequeue r \<Rightarrow> [r] | AC_Enqueue _ \<Rightarrow> []) batch)"
    by (cases batch; simp add: age_receive_def Let_def f h; auto simp: age_cmd_entries_def)+
qed

lemma age_iteration_conserves:
  assumes "age_iteration now gone alive batch w = w'"
  shows "image_mset ae_job (mset (aw_entries w')) + mset (map snd (aw_replies w')) =
      image_mset ae_job (mset (aw_entries w)) + mset (map snd (aw_replies w))
        + image_mset ae_job (mset (age_cmd_entries batch))
    \<and> (aw_waiters w' = [] \<or> aw_entries w' = [])
    \<and> (\<exists>rs. aw_replies w' = aw_replies w @ rs \<and> (\<forall>r \<in> set rs. alive (fst r) \<and> \<not> gone (fst r)))"
proof -
  define v where "v = age_receive batch w"
  define es where "es = (if aw_needs_rebalance v then rebalance now (aw_entries v) else aw_entries v)"
  obtain xs ws rs where s: "service_waiters gone alive es (aw_waiters v) (aw_replies v) = (xs, ws, rs)"
    by (metis prod.exhaust)
  have w': "aw_entries w' = xs" "aw_waiters w' = ws" "aw_replies w' = rs"
    using assms s by (auto simp: age_iteration_def es_def v_def Let_def split: if_splits)
  have "mset es = mset (aw_entries w) + mset (age_cmd_entries batch)"
    by (simp add: es_def v_def age_receive_parts)
  moreover have "aw_replies v = aw_replies w" by (simp add: v_def age_receive_parts)
  ultimately show ?thesis using service_waiters_conserves [OF s] by (simp add: w' ac_simps)
qed

section \<open>Lemmas: one whole dequeue\<close>

text \<open>What a dequeue serves from: sorted at the current time when an enqueue is in the channel,
  else as the last rebalance left it.\<close>
definition age_serving :: "AgePriorityQueue \<Rightarrow> AgeEntry list" where
  "age_serving q = (if ag_chan q \<noteq> [] then rebalance (ag_clock q) (age_entries q) else age_entries q)"

lemma mset_age_serving [simp]: "mset (age_serving q) = mset (age_entries q)"
  by (simp add: age_serving_def)

lemma age_dequeue_open:
  assumes "age_idle q" "ag_tx q"
  shows "age_dequeue q =
    (if age_entries q = [] then (Waiting, snd (age_dequeue q))
     else (Got (ae_job (last (age_serving q))),
       q\<lparr> ag_chan := [], ag_worker := \<lparr> aw_entries = butlast (age_serving q), aw_waiters = [],
            aw_replies = [], aw_needs_rebalance = False \<rparr> \<rparr>))"
    and "age_entries q = [] \<Longrightarrow> age_entries (snd (age_dequeue q)) = []"
proof -
  let ?b = "ag_chan q @ [AC_Dequeue 0]"
  define v where "v = age_receive ?b (ag_worker q)"
  have nodeq: "concat (map (\<lambda>c. case c of AC_Dequeue r \<Rightarrow> [r] | AC_Enqueue _ \<Rightarrow> []) (ag_chan q)) = []"
    using assms(1) by (auto simp: age_idle_def split: AgeCmd.splits)
  have enq: "(\<exists>c \<in> set (ag_chan q). is_enqueue c) \<longleftrightarrow> ag_chan q \<noteq> []"
    using assms(1) by (cases "ag_chan q") (auto simp: age_idle_def is_enqueue_def split: AgeCmd.splits)
  have v: "aw_entries v = age_entries q" "aw_replies v = []" "aw_waiters v = [0]"
    "aw_needs_rebalance v \<longleftrightarrow> ag_chan q \<noteq> []"
    using assms(1) nodeq enq
    by (auto simp: v_def age_receive_parts age_entries_def age_cmd_entries_def age_idle_def is_enqueue_def)
  have run: "age_dequeue q = age_dequeue_finish 0 (q\<lparr> ag_chan := [],
      ag_worker := age_iteration (ag_clock q) (\<lambda>_. False) (\<lambda>_. True) ?b (ag_worker q) \<rparr>)"
    using assms by (simp add: age_dequeue_def age_dequeue_start_def age_send_def age_run_worker_def age_idle_def Let_def)
  have ne: "age_serving q = [] \<longleftrightarrow> age_entries q = []"
    by (metis mset_age_serving mset_zero_iff)
  have it: "age_iteration (ag_clock q) (\<lambda>_. False) (\<lambda>_. True) ?b (ag_worker q) =
     (if age_entries q = [] then v\<lparr> aw_entries := [], aw_needs_rebalance := False \<rparr>
      else v\<lparr> aw_entries := butlast (age_serving q), aw_waiters := [],
             aw_replies := [(0, ae_job (last (age_serving q)))], aw_needs_rebalance := False \<rparr>)"
    unfolding age_iteration_def v_def [symmetric] Let_def using v ne
    by (cases v) (auto simp: age_serving_def rebalance_def split: if_splits)
  show "age_dequeue q =
    (if age_entries q = [] then (Waiting, snd (age_dequeue q))
     else (Got (ae_job (last (age_serving q))),
       q\<lparr> ag_chan := [], ag_worker := \<lparr> aw_entries = butlast (age_serving q), aw_waiters = [],
            aw_replies = [], aw_needs_rebalance = False \<rparr> \<rparr>))"
    using assms v by (cases v) (auto simp: run it age_dequeue_finish_def age_idle_def)
  show "age_entries q = [] \<Longrightarrow> age_entries (snd (age_dequeue q)) = []"
    using assms v by (simp add: run it age_dequeue_finish_def age_idle_def age_entries_def age_cmd_entries_def)
qed


lemma age_dequeue_dead: "ag_dead q \<Longrightarrow> age_dequeue q = (EndOfQueue, q)"
  by (simp add: age_dequeue_def age_dequeue_start_def)

lemma age_enqueue_open:
  "age_idle q \<Longrightarrow> ag_tx q \<Longrightarrow> age_entries (age_enqueue j q) = age_entries q @
    [\<lparr> ae_cost = job_cost 1 j, ae_seq = ag_seq q, ae_enqueued_at = ag_clock q, ae_job = j \<rparr>]"
  by (simp add: age_enqueue_def age_send_def age_idle_def age_entries_def age_cmd_entries_def Let_def)

lemma age_enqueue_idle:
  "age_idle q \<Longrightarrow> age_idle (age_enqueue j q) \<and> ag_tx (age_enqueue j q) = ag_tx q
    \<and> (\<not> ag_tx q \<longrightarrow> age_entries (age_enqueue j q) = age_entries q)"
  by (auto simp: age_enqueue_def age_send_def age_idle_def age_entries_def Let_def)

lemma age_dequeue_got:
  assumes "age_idle q" "age_dequeue q = (Got j, q')"
  shows "ag_tx q" "age_serving q \<noteq> []" "j = ae_job (last (age_serving q))"
    "age_entries q' = butlast (age_serving q)" "age_idle q'" "ag_tx q'"
proof -
  show tx: "ag_tx q" using assms age_dequeue_dead [of q] by (auto simp: age_idle_def)
  have ne: "age_entries q \<noteq> []"
  proof
    assume "age_entries q = []"
    with age_dequeue_open(1) [OF assms(1) tx] have "fst (age_dequeue q) = Waiting" by (metis fst_conv)
    with assms(2) show False by simp
  qed
  then show "age_serving q \<noteq> []" by (metis mset_age_serving mset_zero_iff)
  have d: "j = ae_job (last (age_serving q))"
    "q' = q\<lparr> ag_chan := [], ag_worker := \<lparr> aw_entries = butlast (age_serving q), aw_waiters = [],
            aw_replies = [], aw_needs_rebalance = False \<rparr> \<rparr>"
    using age_dequeue_open(1) [OF assms(1) tx] assms(2) ne by simp_all
  then show "j = ae_job (last (age_serving q))" "age_entries q' = butlast (age_serving q)" "age_idle q'" "ag_tx q'"
    using assms(1) tx by (simp_all add: age_entries_def age_cmd_entries_def age_idle_def)
qed

section \<open>The interface is implemented\<close>

interpretation age: job_queue age_enqueue age_dequeue age_close age_contents ag_tx age_idle
proof unfold_locales
  fix s s' :: AgePriorityQueue and j :: Job and r :: "Job dequeued"
  assume inv: "age_idle s"
  have dead: "\<not> ag_tx s \<Longrightarrow> age_dequeue s = (EndOfQueue, s)"
    using inv age_dequeue_dead [of s] by (simp add: age_idle_def)
  note op = age_dequeue_open [OF inv]
  show "ag_tx s \<Longrightarrow> age_contents (age_enqueue j s) = add_mset j (age_contents s)"
    using inv by (simp add: age_contents_def age_enqueue_open)
  show "\<not> ag_tx s \<Longrightarrow> age_contents (age_enqueue j s) = age_contents s"
    using inv by (simp add: age_contents_def age_enqueue_idle)
  show "age_idle (age_enqueue j s) \<and> ag_tx (age_enqueue j s) = ag_tx s"
    using inv by (simp add: age_enqueue_idle)
  show "j \<in># age_contents s \<and> age_contents s' = age_contents s - {#j#}" if d: "age_dequeue s = (Got j, s')"
  proof -
    note g = age_dequeue_got [OF inv d]
    have "mset (age_entries s) = add_mset (last (age_serving s)) (mset (butlast (age_serving s)))"
      using mset_last_butlast [OF g(2)] by simp
    then show ?thesis by (simp add: age_contents_def g(3,4))
  qed
  show "age_contents s' \<subseteq># age_contents s \<and> (ag_tx s \<longrightarrow> age_contents s = {#})"
    if d: "age_dequeue s = (r, s')" "\<forall>j. r \<noteq> Got j"
  proof (cases "ag_tx s")
    case True
    have "age_entries s = []" using op(1) [OF True] d by (metis prod.inject)
    with op(2) [OF True] d show ?thesis by (simp add: age_contents_def)
  qed (use dead d in auto)
  show "fst (age_dequeue s) = Waiting \<longleftrightarrow> ag_tx s \<and> age_contents s = {#}"
  proof (cases "ag_tx s")
    case True
    then show ?thesis by (subst op(1) [OF True]) (simp add: age_contents_def)
  qed (use dead in auto)
  show "age_idle (snd (age_dequeue s)) \<and> ag_tx (snd (age_dequeue s)) = ag_tx s"
    if w: "fst (age_dequeue s) \<noteq> Waiting"
  proof (cases "ag_tx s")
    case True
    have "fst (age_dequeue s) = Waiting" if "age_entries s = []"
      using op(1) [OF True] that by (metis fst_conv)
    then obtain j where "age_dequeue s = (Got j, snd (age_dequeue s))"
      using op(1) [OF True] w by (metis snd_conv)
    from age_dequeue_got [OF inv this] True show ?thesis by simp
  qed (use dead inv in auto)
  show "age_idle (age_close s) \<and> \<not> ag_tx (age_close s) \<and> age_contents (age_close s) \<subseteq># age_contents s"
    using inv by (simp add: age_close_def age_idle_def age_contents_def age_entries_def)
qed

lemma last_sort_key_max:
  assumes "xs \<noteq> []" "x \<in> set xs"
  shows "f x \<le> f (last (sort_key f xs))"
proof -
  let ?s = "sort_key f xs"
  from assms have x: "x \<in> set ?s" by simp
  then have "?s \<noteq> []" by (cases ?s) auto
  from x obtain i where i: "i < length ?s" "?s ! i = x" unfolding in_set_conv_nth by blast
  then have "map f ?s ! i \<le> map f ?s ! (length ?s - 1)"
    by (intro sorted_nth_mono) auto
  with i show ?thesis by (simp add: last_conv_nth \<open>?s \<noteq> []\<close>)
qed

section \<open>Properties\<close>

text \<open>C10 \<open>integer_sqrt\<close> terminates (it is a total function) and computes the floor of the square
  root for every positive \<open>u128\<close>, without overflow; for 0 it returns 1.\<close>
theorem integer_sqrt_floor:
  "unat (integer_sqrt v) = (if v = 0 then 1 else Max {s. s * s \<le> unat v})"
proof (cases "v = 0")
  case True
  have "isqrt_loop 0 0 0 = 0" by (subst isqrt_loop.simps) simp
  with True show ?thesis by (simp add: integer_sqrt_def)
next
  case False
  let ?r = "unat (integer_sqrt v)"
  have r: "?r * ?r \<le> unat v" "unat v < (?r + 1) * (?r + 1)"
    using integer_sqrt_correct False by (simp_all add: word_greater_zero_iff)
  have b: "s \<le> ?r" if "s * s \<le> unat v" for s
  proof (rule ccontr)
    assume "\<not> s \<le> ?r"
    then have "(?r + 1) * (?r + 1) \<le> s * s" by (intro mult_le_mono) simp_all
    with that r(2) show False by simp
  qed
  have "Max {s. s * s \<le> unat v} = ?r"
    by (rule Max_eqI) (use r b in \<open>auto intro: finite_subset [of _ "{..?r}"]\<close>)
  with False show ?thesis by simp
qed

text \<open>C11 \<open>compare_entries\<close> never saturates and is the total order of an exact score, waiting time over
  the integer root of the cost with the earlier enqueued entry greater among equals, so
  \<open>rebalance\<close> is a stable sort by that score (and the sort sees a consistent order).\<close>
theorem rebalance_sorts:
  assumes "now < 2 ^ 94"
  shows "rebalance now entries = sort_key (age_key now) entries
    \<and> compare_entries now l r = ord_cmp (age_key now l) (age_key now r)"
  using rebalance_key [OF assms] compare_entries_key [OF assms] by simp

definition aged :: "u64 \<Rightarrow> u64 \<Rightarrow> instant \<Rightarrow> AgeEntry" where
  "aged c s t = \<lparr> ae_cost = c, ae_seq = s, ae_enqueued_at = t, ae_job = job_with_cost ''j'' c \<rparr>"

theorem rebalance_sorts_witness:
  "rebalance 10 [aged 4 0 0, aged 1 1 8] = sort_key (age_key 10) [aged 4 0 0, aged 1 1 8]
    \<and> ord_cmp (age_key 10 (aged 4 0 0)) (age_key 10 (aged 1 1 8)) = Greater"
proof -
  have "compare_entries 10 (aged 4 0 0) (aged 1 1 8) = Greater" by code_simp
  with rebalance_sorts [of 10 "[aged 4 0 0, aged 1 1 8]" "aged 4 0 0" "aged 1 1 8"] show ?thesis by simp
qed

text \<open>A dequeue served after a new arrival delivers an entry of greatest score at that moment and
  leaves all others in the queue.\<close>
lemma age_dequeue_greatest:
  assumes "age_idle q" "ag_chan q \<noteq> []" "ag_clock q < 2 ^ 94" "age_dequeue q = (Got j, q')"
  shows "\<exists>e \<in> set (age_entries q). ae_job e = j
    \<and> (\<forall>e' \<in> set (age_entries q). compare_entries (ag_clock q) e' e \<noteq> Greater)
    \<and> mset (age_entries q) = add_mset e (mset (age_entries q'))"
proof -
  note g = age_dequeue_got [OF assms(1,4)]
  let ?e = "last (age_serving q)"
  have s: "age_serving q = sort_key (age_key (ag_clock q)) (age_entries q)"
    using assms(2,3) by (simp add: age_serving_def rebalance_key)
  have ne: "age_entries q \<noteq> []" using g(2) s by auto
  have ms: "mset (age_entries q) = add_mset ?e (mset (age_entries q'))"
    using mset_last_butlast [OF g(2)] by (simp add: g(4))
  have "?e \<in> set (age_entries q)" using ms by (metis set_mset_mset union_single_eq_member)
  moreover have "\<forall>e' \<in> set (age_entries q). compare_entries (ag_clock q) e' ?e \<noteq> Greater"
  proof
    fix e' assume "e' \<in> set (age_entries q)"
    then have "age_key (ag_clock q) e' \<le> age_key (ag_clock q) ?e"
      unfolding s by (rule last_sort_key_max [OF ne])
    then show "compare_entries (ag_clock q) e' ?e \<noteq> Greater"
      unfolding compare_entries_key [OF assms(3)] ord_cmp_def by (auto split: if_splits)
  qed
  ultimately show ?thesis using ms g(3) by blast
qed


end
