(* ===== verification/Job_Store.thy ===== *)
theory Job_Store
  imports Job_Model "HOL-Library.AList"
begin

text \<open>
  The persistence contract (\<open>bits/src/db/mod.rs\<close>) as interfaces: durable job records with the
  ownership compare-and-set \<open>claim_if_owner\<close>, and the per-user admission entries.  The laws are the
  documented behaviour of the traits \<open>JobStore\<close> and \<open>UserLimitStore\<close>; \<open>Memory_Store\<close> interprets them.
\<close>

type_synonym 'a db = "DbError + 'a"

section \<open>Durable jobs\<close>

definition never_expected :: string where "never_expected = ''__never_expected__''"
definition presence_probe :: string where "presence_probe = ''__presence_probe__''"

definition durable_job_present ::
  "(string \<Rightarrow> string \<Rightarrow> string \<Rightarrow> 's \<Rightarrow> ClaimResult db \<times> 's) \<Rightarrow> string \<Rightarrow> 's \<Rightarrow> bool db \<times> 's" where
  "durable_job_present claim_if_owner jid s =
    (case claim_if_owner jid never_expected presence_probe s of
       (Inl e, s) \<Rightarrow> (Inl e, s)
     | (Inr r, s) \<Rightarrow>
         (Inr (case r of CR_NotFound \<Rightarrow> False | CR_Active _ \<Rightarrow> True | CR_Claimed _ \<Rightarrow> True), s))"

text \<open>\<open>lookup\<close> is the record a store holds for an id; \<open>valid\<close> are the ids it accepts.\<close>

locale job_store =
  fixes upsert_job :: "PersistentJobRecord \<Rightarrow> 's \<Rightarrow> unit db \<times> 's"
    and delete_job :: "string \<Rightarrow> 's \<Rightarrow> unit db \<times> 's"
    and claim_if_owner :: "string \<Rightarrow> string \<Rightarrow> string \<Rightarrow> 's \<Rightarrow> ClaimResult db \<times> 's"
    and lookup :: "'s \<Rightarrow> string \<rightharpoonup> PersistentJobRecord"
    and valid :: "string \<Rightarrow> bool"
    and invar :: "'s \<Rightarrow> bool"
  assumes upsert_ok: "invar s \<Longrightarrow> valid (pjr_job_id r) \<Longrightarrow>
      fst (upsert_job r s) = Inr () \<and> invar (snd (upsert_job r s))
      \<and> lookup (snd (upsert_job r s)) = (lookup s)(pjr_job_id r \<mapsto> r)"
    and delete_ok: "invar s \<Longrightarrow> valid jid \<Longrightarrow>
      fst (delete_job jid s) = Inr () \<and> invar (snd (delete_job jid s))
      \<and> lookup (snd (delete_job jid s)) = (lookup s)(jid := None)"
    and claim_missing: "invar s \<Longrightarrow> valid jid \<Longrightarrow> lookup s jid = None \<Longrightarrow>
      claim_if_owner jid expected claimant s = (Inr CR_NotFound, s)"
    and claim_owned: "invar s \<Longrightarrow> valid jid \<Longrightarrow> lookup s jid = Some r \<Longrightarrow>
      pjr_broker_id r = claimant \<or> pjr_broker_id r = expected \<Longrightarrow>
      fst (claim_if_owner jid expected claimant s) = Inr (CR_Claimed (r\<lparr> pjr_broker_id := claimant \<rparr>))
      \<and> invar (snd (claim_if_owner jid expected claimant s))
      \<and> lookup (snd (claim_if_owner jid expected claimant s)) = (lookup s)(jid \<mapsto> r\<lparr> pjr_broker_id := claimant \<rparr>)"
    and claim_active: "invar s \<Longrightarrow> valid jid \<Longrightarrow> lookup s jid = Some r \<Longrightarrow>
      pjr_broker_id r \<noteq> claimant \<Longrightarrow> pjr_broker_id r \<noteq> expected \<Longrightarrow>
      claim_if_owner jid expected claimant s = (Inr (CR_Active (pjr_broker_id r)), s)"
begin

lemma claim_total:
  assumes "invar s" "valid jid"
  obtains (missing) "lookup s jid = None" "claim_if_owner jid expected claimant s = (Inr CR_NotFound, s)"
  | (claimed) r s' where "lookup s jid = Some r" "claim_if_owner jid expected claimant s = (Inr (CR_Claimed (r\<lparr> pjr_broker_id := claimant \<rparr>)), s')"
      "invar s'" "lookup s' = (lookup s)(jid \<mapsto> r\<lparr> pjr_broker_id := claimant \<rparr>)"
      "pjr_broker_id r = claimant \<or> pjr_broker_id r = expected"
  | (active) r where "lookup s jid = Some r" "claim_if_owner jid expected claimant s = (Inr (CR_Active (pjr_broker_id r)), s)"
      "pjr_broker_id r \<noteq> claimant" "pjr_broker_id r \<noteq> expected"
proof (cases "lookup s jid")
  case None
  then show thesis using claim_missing [OF assms None] missing by blast
next
  case (Some r)
  show thesis
  proof (cases "pjr_broker_id r = claimant \<or> pjr_broker_id r = expected")
    case True
    then show thesis using claim_owned [OF assms Some True] claimed [OF Some] by (metis prod.collapse)
  next
    case False
    then show thesis using claim_active [OF assms Some] active [OF Some] by blast
  qed
qed

text \<open>The presence probe changes nothing unless a record is owned by one of its reserved names.\<close>

lemma probe_read_only:
  assumes "invar s" "valid jid" "\<And>r. lookup s jid = Some r \<Longrightarrow> pjr_broker_id r \<notin> {never_expected, presence_probe}"
  shows "durable_job_present claim_if_owner jid s = (Inr (lookup s jid \<noteq> None), s)"
  using assms(3)
  by (cases rule: claim_total [OF assms(1,2), of never_expected presence_probe])
    (auto simp: durable_job_present_def)

text \<open>Several brokers claim the same job, all having seen the owner \<open>expected\<close>: exactly the first
  wins, every later one is told the winner.\<close>

lemma claim_race:
  assumes "invar s" "valid jid" "lookup s jid = Some r" "pjr_broker_id r = expected"
    "claim_if_owner jid expected a s = (Inr (CR_Claimed ra), s')" "a \<noteq> expected" "b \<noteq> a"
  shows "claim_if_owner jid expected b s' = (Inr (CR_Active a), s')"
proof -
  have "invar s'" "lookup s' jid = Some (r\<lparr> pjr_broker_id := a \<rparr>)"
    using claim_owned [OF assms(1-3), of a expected] assms(4,5) by auto
  from claim_active [OF this(1) assms(2) this(2), of b expected] assms(6,7) show ?thesis by simp
qed

end

section \<open>Per-user admission entries\<close>

text \<open>\<open>slots s scope user\<close> maps the ids of the jobs in flight to their ordinal; \<open>valid\<close> are the
  triples of scope, user and id that the store can represent.\<close>

locale user_limit_store =
  fixes reserve :: "datetime \<Rightarrow> string \<Rightarrow> string \<Rightarrow> string \<Rightarrow> string \<Rightarrow> 's \<Rightarrow> u64 db \<times> 's"
    and release :: "string \<Rightarrow> string \<Rightarrow> string \<Rightarrow> 's \<Rightarrow> unit db \<times> 's"
    and list_slots :: "string \<Rightarrow> string \<Rightarrow> 's \<Rightarrow> UserLimitEntry list db"
    and slots :: "'s \<Rightarrow> string \<Rightarrow> string \<Rightarrow> string \<rightharpoonup> u64"
    and invar :: "'s \<Rightarrow> bool"
    and room :: "'s \<Rightarrow> bool"
    and valid :: "string \<Rightarrow> string \<Rightarrow> string \<Rightarrow> bool"
  assumes reserve_existing: "invar s \<Longrightarrow> slots s scope user jid = Some q \<Longrightarrow>
      fst (reserve now scope user jid owner s) = Inr q \<and> invar (snd (reserve now scope user jid owner s))
      \<and> slots (snd (reserve now scope user jid owner s)) = slots s"
    and reserve_new: "invar s \<Longrightarrow> room s \<Longrightarrow> slots s scope user jid = None \<Longrightarrow>
      reserve now scope user jid owner s = (Inr q, s') \<Longrightarrow> invar s'
      \<and> slots s' = (slots s)(scope := (slots s scope)(user := (slots s scope user)(jid \<mapsto> q)))
      \<and> (\<forall>j q'. slots s scope user j = Some q' \<longrightarrow> q' < q)"
    and reserve_accepts: "invar s \<Longrightarrow> room s \<Longrightarrow> valid scope user jid \<Longrightarrow>
      \<exists>q s'. reserve now scope user jid owner s = (Inr q, s')"
    and release_ok: "invar s \<Longrightarrow> release scope user jid s = (Inr (), s') \<Longrightarrow> invar s'
      \<and> slots s' = (slots s)(scope := (slots s scope)(user := (slots s scope user)(jid := None)))"
    and release_accepts: "invar s \<Longrightarrow> valid scope user jid \<Longrightarrow> fst (release scope user jid s) = Inr ()"
    and list_ok: "invar s \<Longrightarrow> list_slots scope user s = Inr es \<Longrightarrow> distinct (map ule_job_id es)
      \<and> (\<forall>j q. slots s scope user j = Some q \<longleftrightarrow> (\<exists>e \<in> set es. ule_job_id e = j \<and> ule_seq e = q))"
    and list_accepts: "invar s \<Longrightarrow> valid scope user jid \<Longrightarrow> \<exists>es. list_slots scope user s = Inr es"

end
