(* ===== verification/Memory_Store.thy ===== *)
theory Memory_Store
  imports Job_Store
begin

text \<open>
  The in-memory store (\<open>bits/src/db/memory.rs\<close>).  A \<open>HashMap\<close> is an association list without
  duplicate keys; its iteration order, which the source leaves open, is the order of the list.
  Each method runs under its locks, so it is one state transformer.
\<close>

record MemoryStore =
  ms_jobs :: "(string \<times> PersistentJobRecord) list"
  ms_brokers :: "(string \<times> BrokerLeaseRecord) list"
  ms_broker_slots :: "((string \<times> string) \<times> u32) list"
  ms_user_slots :: "((string \<times> string) \<times> (string \<times> UserLimitEntry) list) list"
  ms_user_seq :: u64

definition memory_new :: MemoryStore where
  "memory_new = \<lparr> ms_jobs = [], ms_brokers = [], ms_broker_slots = [], ms_user_slots = [], ms_user_seq = 0 \<rparr>"

section \<open>Jobs\<close>

definition memory_job_key :: "string \<Rightarrow> string db" where
  "memory_job_key jid =
    (case decode_result jid of
       Inl err \<Rightarrow> Inl (Backend (''invalid public job ID '' @ debug_str jid @ '': '' @ decode_error_display err))
     | Inr decoded \<Rightarrow> Inr (di_site decoded @ ''/'' @ di_env decoded @ ''/''
         @ show_uint (uint (di_broker_slot decoded)) @ ''/'' @ jid))"

definition ms_upsert_job :: "PersistentJobRecord \<Rightarrow> MemoryStore \<Rightarrow> unit db \<times> MemoryStore" where
  "ms_upsert_job record s =
    (case memory_job_key (pjr_job_id record) of
       Inl e \<Rightarrow> (Inl e, s)
     | Inr key \<Rightarrow> (Inr (), s\<lparr> ms_jobs := AList.update key record (ms_jobs s) \<rparr>))"

definition ms_delete_job :: "string \<Rightarrow> MemoryStore \<Rightarrow> unit db \<times> MemoryStore" where
  "ms_delete_job jid s =
    (case memory_job_key jid of
       Inl e \<Rightarrow> (Inl e, s)
     | Inr key \<Rightarrow> (Inr (), s\<lparr> ms_jobs := AList.delete key (ms_jobs s) \<rparr>))"

definition ms_claim_if_owner :: "string \<Rightarrow> string \<Rightarrow> string \<Rightarrow> MemoryStore \<Rightarrow> ClaimResult db \<times> MemoryStore" where
  "ms_claim_if_owner jid expected_owner_broker_id claimant_broker_id s =
    (case memory_job_key jid of
       Inl e \<Rightarrow> (Inl e, s)
     | Inr key \<Rightarrow>
       (case map_of (ms_jobs s) key of
          None \<Rightarrow> (Inr CR_NotFound, s)
        | Some record \<Rightarrow>
            if pjr_broker_id record = claimant_broker_id then (Inr (CR_Claimed record), s)
            else if pjr_broker_id record \<noteq> expected_owner_broker_id
            then (Inr (CR_Active (pjr_broker_id record)), s)
            else let record = record\<lparr> pjr_broker_id := claimant_broker_id \<rparr>
              in (Inr (CR_Claimed record), s\<lparr> ms_jobs := AList.update key record (ms_jobs s) \<rparr>)))"

section \<open>Leases\<close>

text \<open>\<open>chrono::Duration::from_std\<close> fails above \<open>i64::MAX\<close> milliseconds.\<close>
definition chrono_from_std :: "duration \<Rightarrow> int option" where
  "chrono_from_std ttl = (if int ttl \<le> (2 ^ 63 - 1) * 1000000 then Some (int ttl) else None)"

definition ms_upsert_broker_lease ::
  "datetime \<Rightarrow> string \<Rightarrow> string \<Rightarrow> duration \<Rightarrow> MemoryStore \<Rightarrow> unit db \<times> MemoryStore" where
  "ms_upsert_broker_lease now broker_id internal_poll_base_url ttl s =
    (Inr (), s\<lparr> ms_brokers := AList.update broker_id
      \<lparr> blr_broker_id = broker_id, blr_internal_poll_base_url = internal_poll_base_url,
        blr_lease_until = now + unwrap_or (chrono_from_std ttl) (60 * nanos_per_sec),
        blr_updated_at = now \<rparr> (ms_brokers s) \<rparr>)"

definition ms_get_broker_lease :: "string \<Rightarrow> MemoryStore \<Rightarrow> BrokerLeaseRecord option db" where
  "ms_get_broker_lease broker_id s = Inr (map_of (ms_brokers s) broker_id)"

definition ms_delete_broker_lease :: "string \<Rightarrow> MemoryStore \<Rightarrow> unit db \<times> MemoryStore" where
  "ms_delete_broker_lease broker_id s = (Inr (), s\<lparr> ms_brokers := AList.delete broker_id (ms_brokers s) \<rparr>)"

section \<open>Broker slots\<close>

definition allocate_memory_broker_slot :: "string \<Rightarrow> string \<Rightarrow> MemoryStore \<Rightarrow> u16 db \<times> MemoryStore" where
  "allocate_memory_broker_slot site_tag env_tag s =
    (let next_slot = unwrap_or (map_of (ms_broker_slots s) (site_tag, env_tag)) 0;
         s = s\<lparr> ms_broker_slots := AList.update (site_tag, env_tag) next_slot (ms_broker_slots s) \<rparr>
     in if next_slot > 65535 then (Inl (SlotExhausted site_tag env_tag 65535), s)
        else (Inr (ucast next_slot),
          s\<lparr> ms_broker_slots := AList.update (site_tag, env_tag) (next_slot + 1) (ms_broker_slots s) \<rparr>))"

section \<open>User slots\<close>

definition reserve_user_slot_memory ::
  "datetime \<Rightarrow> string \<Rightarrow> string \<Rightarrow> string \<Rightarrow> string \<Rightarrow> MemoryStore \<Rightarrow> u64 db \<times> MemoryStore" where
  "reserve_user_slot_memory now scope user jid owner_broker_id s =
    (let entries = unwrap_or (map_of (ms_user_slots s) (scope, user)) [];
         s = s\<lparr> ms_user_slots := AList.update (scope, user) entries (ms_user_slots s) \<rparr>
     in case map_of entries jid of
          Some existing \<Rightarrow> (Inr (ule_seq existing), s)
        | None \<Rightarrow>
            let seq = ms_user_seq s + 1;
                entry = \<lparr> ule_scope = scope, ule_user = user, ule_job_id = jid,
                  ule_owner_broker_id = owner_broker_id, ule_seq = seq, ule_created_at = now \<rparr>
            in (Inr seq, s\<lparr> ms_user_seq := seq,
                 ms_user_slots := AList.update (scope, user) (AList.update jid entry entries) (ms_user_slots s) \<rparr>))"

definition release_user_slot_memory :: "string \<Rightarrow> string \<Rightarrow> string \<Rightarrow> MemoryStore \<Rightarrow> unit db \<times> MemoryStore" where
  "release_user_slot_memory scope user jid s =
    (case map_of (ms_user_slots s) (scope, user) of
       None \<Rightarrow> (Inr (), s)
     | Some entries \<Rightarrow>
         let entries = AList.delete jid entries in
         (Inr (), s\<lparr> ms_user_slots :=
            if entries = [] then AList.delete (scope, user) (ms_user_slots s)
            else AList.update (scope, user) entries (ms_user_slots s) \<rparr>))"

definition list_user_slots_memory :: "string \<Rightarrow> string \<Rightarrow> MemoryStore \<Rightarrow> UserLimitEntry list db" where
  "list_user_slots_memory scope user s =
    Inr (unwrap_or (map_option (map snd) (map_of (ms_user_slots s) (scope, user))) [])"

definition reclaim_user_slots_memory :: "datetime \<Rightarrow> MemoryStore \<Rightarrow> u64 db \<times> MemoryStore" where
  "reclaim_user_slots_memory now s =
    (let live = set (map blr_broker_id (filter (\<lambda>b. blr_lease_until b > now) (map snd (ms_brokers s))));
         keep = (\<lambda>e. ule_owner_broker_id e \<in> live);
         removed = sum_list (map (\<lambda>kv. length (filter (\<lambda>je. \<not> keep (snd je)) (snd kv))) (ms_user_slots s));
         retained = filter (\<lambda>kv. snd kv \<noteq> [])
           (map (\<lambda>kv. (fst kv, filter (\<lambda>je. keep (snd je)) (snd kv))) (ms_user_slots s))
     in (Inr (of_nat removed), s\<lparr> ms_user_slots := retained \<rparr>))"

section \<open>Abstraction\<close>

text \<open>The ids the store accepts are the well-formed request ids.\<close>
definition valid_job_id :: "string \<Rightarrow> bool" where
  "valid_job_id jid \<longleftrightarrow> \<not> isl (decode_result jid)"

definition ms_lookup :: "MemoryStore \<Rightarrow> string \<rightharpoonup> PersistentJobRecord" where
  "ms_lookup s jid = (case memory_job_key jid of Inl e \<Rightarrow> None | Inr key \<Rightarrow> map_of (ms_jobs s) key)"

definition ms_slots :: "MemoryStore \<Rightarrow> string \<Rightarrow> string \<Rightarrow> string \<rightharpoonup> u64" where
  "ms_slots s scope user jid =
    (case map_of (ms_user_slots s) (scope, user) of
       None \<Rightarrow> None | Some entries \<Rightarrow> map_option ule_seq (map_of entries jid))"

definition ms_slots_ok :: "MemoryStore \<Rightarrow> bool" where
  "ms_slots_ok s \<longleftrightarrow> distinct (map fst (ms_user_slots s)) \<and>
    (\<forall>(k, entries) \<in> set (ms_user_slots s). distinct (map fst entries) \<and>
      (\<forall>(j, e) \<in> set entries. ule_job_id e = j \<and> ule_scope e = fst k \<and> ule_user e = snd k
        \<and> ule_seq e \<le> ms_user_seq s))"

lemma word_less_plus_one:
  assumes "w \<noteq> - 1"
  shows "w < w + (1 :: 'a::len word)"
proof -
  have "uint w \<noteq> 2 ^ LENGTH('a) - 1" 
    using assms by (simp add: word_uint_eq_iff unsigned_minus_1_eq_mask mask_eq_exp_minus_1)
  moreover have "uint w < 2 ^ LENGTH('a)" by (rule unsigned_less)
  ultimately have "uint w + 1 < 2 ^ LENGTH('a)" by linarith
  then have "uint w + uint (1 :: 'a word) < 2 ^ LENGTH('a)" by simp
  from uint_add_no_overflow [OF this] show ?thesis by (simp add: word_less_def)
qed

section \<open>Lemmas: job keys\<close>

lemma valid_job_id_length: "valid_job_id jid \<Longrightarrow> length jid = 26"
proof -
  assume "valid_job_id jid"
  then obtain d where "decode jid = Some (Inr d)"
    by (cases "decode jid"; cases "the (decode jid)") (auto simp: valid_job_id_def decode_result_def)
  then show ?thesis by (auto simp: decode_Inr encode_crockford_digits)
qed

lemma memory_job_key_valid: "valid_job_id jid \<longleftrightarrow> (\<exists>k. memory_job_key jid = Inr k)"
  by (auto simp: valid_job_id_def memory_job_key_def isl_def split: sum.splits)

lemma memory_job_key_suffix:
  assumes "memory_job_key a = Inr k"
  shows "\<exists>p. k = p @ a"
proof -
  from assms obtain d where "decode_result a = Inr d" by (cases "decode_result a") (auto simp: memory_job_key_def)
  with assms have "k = (di_site d @ ''/'' @ di_env d @ ''/'' @ show_uint (uint (di_broker_slot d)) @ ''/'') @ a"
    by (simp add: memory_job_key_def)
  then show ?thesis by blast
qed

lemma memory_job_key_inj:
  assumes "memory_job_key a = Inr k" "memory_job_key b = Inr k"
  shows "a = b"
proof -
  have "length a = length b" using assms memory_job_key_valid valid_job_id_length by metis
  moreover obtain p q where "k = p @ a" "k = q @ b"
    using memory_job_key_suffix [OF assms(1)] memory_job_key_suffix [OF assms(2)] by blast
  ultimately show ?thesis by (metis append_eq_append_conv)
qed

lemma ms_lookup_update:
  assumes "memory_job_key jid = Inr key"
  shows "ms_lookup (s\<lparr> ms_jobs := AList.update key r (ms_jobs s) \<rparr>) = (ms_lookup s)(jid \<mapsto> r)"
  using assms memory_job_key_inj by (fastforce simp: ms_lookup_def update_conv' split: sum.splits)

lemma ms_lookup_delete:
  assumes "memory_job_key jid = Inr key"
  shows "ms_lookup (s\<lparr> ms_jobs := AList.delete key (ms_jobs s) \<rparr>) = (ms_lookup s)(jid := None)"
  using assms memory_job_key_inj by (fastforce simp: ms_lookup_def delete_conv' split: sum.splits)

section \<open>The job store contract is implemented\<close>

interpretation mem: job_store ms_upsert_job ms_delete_job ms_claim_if_owner ms_lookup valid_job_id "\<lambda>_. True"
proof unfold_locales
  fix s :: MemoryStore and r jid expected claimant
  show "fst (ms_upsert_job r s) = Inr () \<and> True \<and> ms_lookup (snd (ms_upsert_job r s)) = (ms_lookup s)(pjr_job_id r \<mapsto> r)"
    if "valid_job_id (pjr_job_id r)"
    using that by (auto simp: memory_job_key_valid ms_upsert_job_def ms_lookup_update)
  show "fst (ms_delete_job jid s) = Inr () \<and> True \<and> ms_lookup (snd (ms_delete_job jid s)) = (ms_lookup s)(jid := None)"
    if "valid_job_id jid"
    using that by (auto simp: memory_job_key_valid ms_delete_job_def ms_lookup_delete)
  assume v: "valid_job_id jid"
  then obtain key where key: "memory_job_key jid = Inr key" by (auto simp: memory_job_key_valid)
  show "ms_claim_if_owner jid expected claimant s = (Inr CR_NotFound, s)" if "ms_lookup s jid = None"
    using that key by (simp add: ms_claim_if_owner_def ms_lookup_def)
  show "fst (ms_claim_if_owner jid expected claimant s) = Inr (CR_Claimed (r\<lparr> pjr_broker_id := claimant \<rparr>)) \<and> True
      \<and> ms_lookup (snd (ms_claim_if_owner jid expected claimant s)) = (ms_lookup s)(jid \<mapsto> r\<lparr> pjr_broker_id := claimant \<rparr>)"
    if l: "ms_lookup s jid = Some r" and "pjr_broker_id r = claimant \<or> pjr_broker_id r = expected"
  proof (cases "pjr_broker_id r = claimant")
    case True
    then have "r\<lparr> pjr_broker_id := claimant \<rparr> = r" by (cases r) simp
    with True l key show ?thesis by (simp add: ms_claim_if_owner_def ms_lookup_def fun_upd_idem)
  next
    case False
    have "map_of (ms_jobs s) key = Some r" using l key by (simp add: ms_lookup_def)
    with that False key show ?thesis
      by (simp add: ms_claim_if_owner_def Let_def ms_lookup_update [OF key])
  qed
  show "ms_claim_if_owner jid expected claimant s = (Inr (CR_Active (pjr_broker_id r)), s)"
    if "ms_lookup s jid = Some r" "pjr_broker_id r \<noteq> claimant" "pjr_broker_id r \<noteq> expected"
    using that key by (simp add: ms_claim_if_owner_def ms_lookup_def)
qed


section \<open>Lemmas: user slots\<close>

lemma ms_slots_update:
  "ms_slots (s\<lparr> ms_user_slots := AList.update (scope, user) es (ms_user_slots s) \<rparr>) =
    (ms_slots s)(scope := (ms_slots s scope)(user := (\<lambda>j. map_option ule_seq (map_of es j))))"
  by (auto simp: ms_slots_def update_conv' fun_eq_iff)

lemma ms_slots_seq [simp]: "ms_slots (s\<lparr> ms_user_seq := q \<rparr>) = ms_slots s"
  by (simp add: ms_slots_def fun_eq_iff)

lemma ms_slots_ok_entries:
  assumes "ms_slots_ok s" "map_of (ms_user_slots s) (scope, user) = Some es"
  shows "distinct (map fst es)" "\<And>j e. (j, e) \<in> set es \<Longrightarrow>
    ule_job_id e = j \<and> ule_scope e = scope \<and> ule_user e = user \<and> ule_seq e \<le> ms_user_seq s"
  using assms map_of_SomeD [OF assms(2)] by (fastforce simp: ms_slots_ok_def)+

lemma set_update_subset: "set (AList.update k v xs) \<subseteq> insert (k, v) (set xs)"
  by (induction xs) auto

lemma set_delete_subset: "set (AList.delete k xs) \<subseteq> set xs"
  by (auto simp: AList.delete_eq)

lemma ms_slots_ok_put:
  assumes "ms_slots_ok s" "ms_user_seq s \<le> q" "distinct (map fst es)"
    "\<And>j e. (j, e) \<in> set es \<Longrightarrow> ule_job_id e = j \<and> ule_scope e = scope \<and> ule_user e = user \<and> ule_seq e \<le> q"
  shows "ms_slots_ok (s\<lparr> ms_user_seq := q, ms_user_slots := AList.update (scope, user) es (ms_user_slots s) \<rparr>)"
proof -
  have old: "distinct (map fst (ms_user_slots s))"
    "\<And>k es' j e. (k, es') \<in> set (ms_user_slots s) \<Longrightarrow> distinct (map fst es')"
    "\<And>k es' j e. (k, es') \<in> set (ms_user_slots s) \<Longrightarrow> (j, e) \<in> set es' \<Longrightarrow>
      ule_job_id e = j \<and> ule_scope e = fst k \<and> ule_user e = snd k \<and> ule_seq e \<le> q"
    using assms(1,2) by (fastforce simp: ms_slots_ok_def)+
  show ?thesis
    unfolding ms_slots_ok_def
  proof (intro conjI ballI, goal_cases)
    case 1
    then show ?case using old(1) by (simp add: distinct_update)
  next
    case (2 kv)
    then have "kv = ((scope, user), es) \<or> kv \<in> set (ms_user_slots s)"
      using set_update_subset by fastforce
    then show ?case using assms(3,4) old(2,3) by fastforce
  qed
qed

lemma ms_slots_ok_update:
  assumes "ms_slots_ok s" "map_of (ms_user_slots s) (scope, user) = None \<and> es = []
    \<or> (\<exists>es'. map_of (ms_user_slots s) (scope, user) = Some es' \<and> set es \<subseteq> set es' \<and> distinct (map fst es))"
  shows "ms_slots_ok (s\<lparr> ms_user_slots := AList.update (scope, user) es (ms_user_slots s) \<rparr>)"
proof -
  have "ms_slots_ok (s\<lparr> ms_user_seq := ms_user_seq s, ms_user_slots := AList.update (scope, user) es (ms_user_slots s) \<rparr>)"
    by (rule ms_slots_ok_put [OF assms(1)])
      (use assms(2) ms_slots_ok_entries [OF assms(1)] in \<open>fastforce+\<close>)
  then show ?thesis by simp
qed

lemma ms_slots_ok_drop:
  "ms_slots_ok s \<Longrightarrow> ms_slots_ok (s\<lparr> ms_user_slots := AList.delete k (ms_user_slots s) \<rparr>)"
  using set_delete_subset [of k "ms_user_slots s"] by (fastforce simp: ms_slots_ok_def distinct_delete)

section \<open>The user-slot contract is implemented\<close>

text \<open>The entries of one user, present or not.\<close>
definition slot_entries :: "MemoryStore \<Rightarrow> string \<Rightarrow> string \<Rightarrow> (string \<times> UserLimitEntry) list" where
  "slot_entries s scope user = unwrap_or (map_of (ms_user_slots s) (scope, user)) []"

lemma slot_entries_cases:
  "map_of (ms_user_slots s) (scope, user) = None \<and> slot_entries s scope user = []
    \<or> map_of (ms_user_slots s) (scope, user) = Some (slot_entries s scope user)"
  by (cases "map_of (ms_user_slots s) (scope, user)") (simp_all add: slot_entries_def)

lemma slot_entries_ok:
  assumes "ms_slots_ok s"
  shows "distinct (map fst (slot_entries s scope user))"
    and "\<And>j e. (j, e) \<in> set (slot_entries s scope user) \<Longrightarrow>
      ule_job_id e = j \<and> ule_scope e = scope \<and> ule_user e = user \<and> ule_seq e \<le> ms_user_seq s"
  using slot_entries_cases [of s scope user] ms_slots_ok_entries [OF assms] by fastforce+

lemma ms_slots_entries: "ms_slots s scope user j = map_option ule_seq (map_of (slot_entries s scope user) j)"
  using slot_entries_cases [of s scope user] by (auto simp: ms_slots_def)

lemma memory_reserve_existing:
  assumes ok: "ms_slots_ok s" and own: "ms_slots s scope user jid = Some q"
  shows "fst (reserve_user_slot_memory now scope user jid owner s) = Inr q
      \<and> ms_slots_ok (snd (reserve_user_slot_memory now scope user jid owner s))
      \<and> ms_slots (snd (reserve_user_slot_memory now scope user jid owner s)) = ms_slots s"
proof -
  let ?es = "slot_entries s scope user"
  let ?s = "s\<lparr> ms_user_slots := AList.update (scope, user) ?es (ms_user_slots s) \<rparr>"
  have "ms_slots_ok ?s"
    by (rule ms_slots_ok_update [OF ok]) (use slot_entries_cases [of s scope user] slot_entries_ok [OF ok] in auto)
  moreover from own obtain e where "map_of ?es jid = Some e" "ule_seq e = q" by (auto simp: ms_slots_entries)
  then have "reserve_user_slot_memory now scope user jid owner s = (Inr q, ?s)"
    by (simp add: reserve_user_slot_memory_def slot_entries_def [symmetric] Let_def)
  moreover have "ms_slots ?s = ms_slots s" by (auto simp: ms_slots_update fun_eq_iff ms_slots_entries)
  ultimately show ?thesis by simp
qed

lemma memory_reserve_new:
  assumes ok: "ms_slots_ok s" and room: "ms_user_seq s \<noteq> - 1" and none: "ms_slots s scope user jid = None"
  shows "\<exists>q s'. reserve_user_slot_memory now scope user jid owner s = (Inr q, s') \<and> ms_slots_ok s'
      \<and> ms_slots s' = (ms_slots s)(scope := (ms_slots s scope)(user := (ms_slots s scope user)(jid \<mapsto> q)))
      \<and> (\<forall>j q'. ms_slots s scope user j = Some q' \<longrightarrow> q' < q)"
proof -
  let ?q = "ms_user_seq s + 1"
  define es where "es = slot_entries s scope user"
  define e where "e = \<lparr> ule_scope = scope, ule_user = user, ule_job_id = jid,
    ule_owner_broker_id = owner, ule_seq = ?q, ule_created_at = now \<rparr>"
  let ?es = "AList.update jid e es"
  note sl = ms_slots_entries [of s scope user, folded es_def]
  note wes = slot_entries_ok [OF ok, where scope = scope and user = user, folded es_def]
  have lt: "ms_user_seq s < ?q" using room by (rule word_less_plus_one)
  have "reserve_user_slot_memory now scope user jid owner s = (Inr ?q,
      s\<lparr> ms_user_seq := ?q, ms_user_slots := AList.update (scope, user) ?es (ms_user_slots s) \<rparr>)"
    using none by (simp add: reserve_user_slot_memory_def slot_entries_def [symmetric] es_def [symmetric] Let_def sl e_def)
  moreover have "ms_slots_ok (s\<lparr> ms_user_seq := ?q, ms_user_slots := AList.update (scope, user) ?es (ms_user_slots s) \<rparr>)"
  proof (rule ms_slots_ok_put [OF ok])
    show "ms_user_seq s \<le> ?q" using lt by simp
    show "distinct (map fst ?es)" using wes(1) by (rule distinct_update)
    fix j e' assume "(j, e') \<in> set ?es"
    then have "(j, e') = (jid, e) \<or> (j, e') \<in> set es" using set_update_subset by fastforce
    then show "ule_job_id e' = j \<and> ule_scope e' = scope \<and> ule_user e' = user \<and> ule_seq e' \<le> ?q"
      using wes(2) [of j e'] lt by (auto simp: e_def)
  qed
  moreover have "ms_slots (s\<lparr> ms_user_seq := ?q, ms_user_slots := AList.update (scope, user) ?es (ms_user_slots s) \<rparr>)
      = (ms_slots s)(scope := (ms_slots s scope)(user := (ms_slots s scope user)(jid \<mapsto> ?q)))"
    using ms_slots_update [where s = "s\<lparr> ms_user_seq := ?q \<rparr>" and scope = scope and user = user and es = ?es]
    by (auto simp: fun_eq_iff update_conv' sl e_def)
  moreover have "q' < ?q" if own: "ms_slots s scope user j = Some q'" for j q'
  proof -
    from own obtain z where "(j, z) \<in> set es" "q' = ule_seq z" by (auto simp: sl dest!: map_of_SomeD)
    with wes(2) [of j z] lt show ?thesis by (auto intro: order.strict_trans1)
  qed
  ultimately show ?thesis by blast
qed

lemma memory_release:
  assumes ok: "ms_slots_ok s"
  shows "fst (release_user_slot_memory scope user jid s) = Inr ()
      \<and> ms_slots_ok (snd (release_user_slot_memory scope user jid s))
      \<and> ms_slots (snd (release_user_slot_memory scope user jid s))
        = (ms_slots s)(scope := (ms_slots s scope)(user := (ms_slots s scope user)(jid := None)))"
proof (cases "map_of (ms_user_slots s) (scope, user)")
  case None
  then show ?thesis using ok by (auto simp: release_user_slot_memory_def ms_slots_def fun_eq_iff)
next
  case (Some es)
  let ?es = "AList.delete jid es"
  have u: "ms_slots_ok (s\<lparr> ms_user_slots := AList.update (scope, user) ?es (ms_user_slots s) \<rparr>)"
    by (rule ms_slots_ok_update [OF ok])
      (use Some ms_slots_ok_entries [OF ok Some] set_delete_subset [of jid es] in \<open>auto simp: distinct_delete\<close>)
  have v: "(ms_slots s)(scope := (ms_slots s scope)(user := (ms_slots s scope user)(jid := None)))
      = (ms_slots s)(scope := (ms_slots s scope)(user := (\<lambda>j. map_option ule_seq (map_of ?es j))))"
    using Some by (auto simp: fun_eq_iff ms_slots_def delete_conv')
  show ?thesis
  proof (cases "?es = []")
    case True
    have "ms_slots (s\<lparr> ms_user_slots := AList.delete (scope, user) (ms_user_slots s) \<rparr>)
        = (ms_slots s)(scope := (ms_slots s scope)(user := (\<lambda>j. map_option ule_seq (map_of ?es j))))"
      using True by (auto simp: ms_slots_def delete_conv' fun_eq_iff)
    with True Some ok show ?thesis unfolding v by (simp add: release_user_slot_memory_def Let_def ms_slots_ok_drop)
  next
    case False
    with Some u show ?thesis unfolding v by (simp add: release_user_slot_memory_def Let_def ms_slots_update)
  qed
qed

lemma list_user_slots_memory_eq: "list_user_slots_memory scope user s = Inr (map snd (slot_entries s scope user))"
  using slot_entries_cases [of s scope user] by (auto simp: list_user_slots_memory_def)

lemma memory_list_entry:
  assumes "ms_slots_ok s"
  shows "ms_slots s scope user j = Some q
    \<longleftrightarrow> (\<exists>e \<in> set (map snd (slot_entries s scope user)). ule_job_id e = j \<and> ule_seq e = q)"
proof
  assume "ms_slots s scope user j = Some q"
  then obtain e where "(j, e) \<in> set (slot_entries s scope user)" "ule_seq e = q"
    by (auto simp: ms_slots_entries dest!: map_of_SomeD)
  with slot_entries_ok(2) [OF assms this(1)]
  show "\<exists>e \<in> set (map snd (slot_entries s scope user)). ule_job_id e = j \<and> ule_seq e = q" by force
next
  assume "\<exists>e \<in> set (map snd (slot_entries s scope user)). ule_job_id e = j \<and> ule_seq e = q"
  then obtain k e where e: "(k, e) \<in> set (slot_entries s scope user)" "ule_job_id e = j" "ule_seq e = q" by auto
  with slot_entries_ok(2) [OF assms e(1)] slot_entries_ok(1) [OF assms, of scope user]
  show "ms_slots s scope user j = Some q" by (simp add: ms_slots_entries)
qed

interpretation mem_user: user_limit_store reserve_user_slot_memory release_user_slot_memory
  list_user_slots_memory ms_slots ms_slots_ok "\<lambda>s. ms_user_seq s \<noteq> - 1" "\<lambda>_ _ _. True"
proof (unfold_locales, goal_cases)
  case (1 s scope user jid q now owner)
  then show ?case by (rule memory_reserve_existing)
next
  case (2 s scope user jid now owner q s')
  then show ?case using memory_reserve_new [OF 2(1-3), of now owner] by auto
next
  case (3 s scope user jid now owner)
  then show ?case
    using memory_reserve_existing [of s scope user jid _ now owner] memory_reserve_new [of s scope user jid now owner]
    by (cases "ms_slots s scope user jid") (auto simp: prod_eq_iff)
next
  case (4 s scope user jid s')
  then show ?case using memory_release [OF 4(1), of scope user jid] by simp
next
  case (5 s scope user jid)
  then show ?case using memory_release by blast
next
  case (6 s scope user es)
  have "map ule_job_id (map snd (slot_entries s scope user)) = map fst (slot_entries s scope user)"
    using slot_entries_ok(2) [OF 6(1)] by auto
  then have "distinct (map ule_job_id es)"
    using slot_entries_ok(1) [OF 6(1), of scope user] 6(2) by (simp only: list_user_slots_memory_eq sum.inject)
  with 6 show ?case by (auto simp: list_user_slots_memory_eq memory_list_entry)
next
  case (7 s scope user jid)
  then show ?case by (simp add: list_user_slots_memory_eq)
qed

section \<open>Lemmas: broker slots\<close>

text \<open>The results of \<open>n\<close> allocations in a row.\<close>
primrec allocate_slots :: "nat \<Rightarrow> string \<Rightarrow> string \<Rightarrow> MemoryStore \<Rightarrow> u16 db list" where
  "allocate_slots 0 site env s = []"
| "allocate_slots (Suc n) site env s =
    (case allocate_memory_broker_slot site env s of (r, s) \<Rightarrow> r # allocate_slots n site env s)"

definition ms_next_slot :: "MemoryStore \<Rightarrow> string \<Rightarrow> string \<Rightarrow> nat" where
  "ms_next_slot s site env = unat (unwrap_or (map_of (ms_broker_slots s) (site, env)) 0)"

lemma allocate_memory_broker_slot_next:
  assumes "ms_next_slot s site env \<le> 65536" "allocate_memory_broker_slot site env s = (r, s')"
  shows "r = (if ms_next_slot s site env < 65536 then Inr (of_nat (ms_next_slot s site env))
      else Inl (SlotExhausted site env 65535))"
    and "ms_next_slot s' site env = min 65536 (Suc (ms_next_slot s site env))"
proof -
  define w where "w = unwrap_or (map_of (ms_broker_slots s) (site, env)) 0"
  have n: "ms_next_slot s site env = unat w" by (simp add: ms_next_slot_def w_def)
  have gt: "(w > 65535) = (\<not> unat w < 65536)" by (auto simp: word_less_nat_alt)
  have cast: "(ucast w :: u16) = of_nat (unat w)" by simp
  have put: "ms_next_slot (s\<lparr> ms_broker_slots := AList.update (site, env) v xs \<rparr>) site env = unat v" for v xs
    by (simp add: ms_next_slot_def update_conv')
  have "r = (if unat w < 65536 then Inr (of_nat (unat w)) else Inl (SlotExhausted site env 65535))
    \<and> ms_next_slot s' site env = min 65536 (Suc (unat w))"
  proof (cases "unat w < 65536")
    case True
    then have "unat (w + 1) = Suc (unat w)" by (simp add: unat_word_ariths)
    moreover have "r = Inr (ucast w)" "ms_next_slot s' site env = unat (w + 1)"
    proof -
      from gt True have "\<not> w > 65535" by blast
      then have "(r, s') = (Inr (ucast w), s\<lparr> ms_broker_slots := AList.update (site, env) (w + 1) (ms_broker_slots s) \<rparr>)"
        using assms(2) unfolding allocate_memory_broker_slot_def w_def [symmetric] Let_def by (simp add: update_last)
      then show "r = Inr (ucast w)" "ms_next_slot s' site env = unat (w + 1)"
        by (simp_all only: prod.inject put)
    qed
    moreover have "min 65536 (Suc (unat w)) = Suc (unat w)" using True by (intro min_absorb2) simp
    ultimately show ?thesis using True by (simp only: cast if_True)
  next
    case False
    from gt False have "w > 65535" by blast
    then have "(r, s') = (Inl (SlotExhausted site env 65535),
        s\<lparr> ms_broker_slots := AList.update (site, env) w (ms_broker_slots s) \<rparr>)"
      using assms(2) unfolding allocate_memory_broker_slot_def w_def [symmetric] Let_def by simp
    then have "r = Inl (SlotExhausted site env 65535)" "ms_next_slot s' site env = unat w"
      by (simp_all only: prod.inject put)
    with False assms(1) n show ?thesis by simp
  qed
  then show "r = (if ms_next_slot s site env < 65536 then Inr (of_nat (ms_next_slot s site env))
      else Inl (SlotExhausted site env 65535))"
    "ms_next_slot s' site env = min 65536 (Suc (ms_next_slot s site env))"
    by (simp_all only: n)
qed

lemma allocate_slots_spec:
  "ms_next_slot s site env \<le> 65536 \<Longrightarrow>
    allocate_slots n site env s = map (\<lambda>i. if ms_next_slot s site env + i < 65536
        then Inr (of_nat (ms_next_slot s site env + i)) else Inl (SlotExhausted site env 65535)) [0..<n]"
proof (induction n arbitrary: s)
  case (Suc n)
  obtain r s' where a: "allocate_memory_broker_slot site env s = (r, s')" by (rule prod.exhaust)
  note p = allocate_memory_broker_slot_next [OF Suc.prems a]
  have "[0..<Suc n] = 0 # map Suc [0..<n]" by (simp add: upt_conv_Cons map_Suc_upt del: upt_Suc)
  moreover have "ms_next_slot s' site env \<le> 65536" using p(2) by simp
  from Suc.IH [OF this] have "allocate_slots n site env s' = map (\<lambda>i. if ms_next_slot s site env + Suc i < 65536
        then Inr (of_nat (ms_next_slot s site env + Suc i)) else Inl (SlotExhausted site env 65535)) [0..<n]"
    unfolding p(2) using Suc.prems by (auto simp: min_def)
  ultimately show ?case using a p(1) by (simp add: comp_def del: upt_Suc of_nat_Suc)
qed simp

section \<open>Lemmas: reclaiming\<close>

definition live_brokers :: "datetime \<Rightarrow> MemoryStore \<Rightarrow> string set" where
  "live_brokers now s = {blr_broker_id b | b. b \<in> snd ` set (ms_brokers s) \<and> blr_lease_until b > now}"

definition user_entries :: "MemoryStore \<Rightarrow> UserLimitEntry set" where
  "user_entries s = (\<Union>(k, es) \<in> set (ms_user_slots s). snd ` set es)"

lemma reclaim_entries:
  "user_entries (snd (reclaim_user_slots_memory now s))
    = {e \<in> user_entries s. ule_owner_broker_id e \<in> live_brokers now s}"
proof -
  have live: "set (map blr_broker_id (filter (\<lambda>b. blr_lease_until b > now) (map snd (ms_brokers s)))) = live_brokers now s"
    by (auto simp: live_brokers_def)
  have "ms_user_slots (snd (reclaim_user_slots_memory now s)) = filter (\<lambda>kv. snd kv \<noteq> [])
      (map (\<lambda>kv. (fst kv, filter (\<lambda>je. ule_owner_broker_id (snd je) \<in> live_brokers now s) (snd kv))) (ms_user_slots s))"
    unfolding reclaim_user_slots_memory_def live Let_def by simp
  note r = this
  show ?thesis
  proof (intro set_eqI iffI)
    fix e assume "e \<in> user_entries (snd (reclaim_user_slots_memory now s))"
    then show "e \<in> {e \<in> user_entries s. ule_owner_broker_id e \<in> live_brokers now s}"
      unfolding user_entries_def r by force
  next
    fix e assume "e \<in> {e \<in> user_entries s. ule_owner_broker_id e \<in> live_brokers now s}"
    then obtain k es j where e: "(k, es) \<in> set (ms_user_slots s)" "(j, e) \<in> set es" "ule_owner_broker_id e \<in> live_brokers now s"
      by (auto simp: user_entries_def)
    let ?f = "filter (\<lambda>je. ule_owner_broker_id (snd je) \<in> live_brokers now s) es"
    have in_f: "(j, e) \<in> set ?f" using e by simp
    then have "?f \<noteq> []" by (cases ?f) auto
    then have "(k, ?f) \<in> set (ms_user_slots (snd (reclaim_user_slots_memory now s)))"
      unfolding r using e(1) by force
    moreover have "e \<in> snd ` set ?f" using image_eqI [OF _ in_f, of e snd] by simp
    ultimately show "e \<in> user_entries (snd (reclaim_user_slots_memory now s))"
      unfolding user_entries_def by (intro UN_I [of "(k, ?f)"]) simp_all
  qed
qed

lemma reclaim_jobs:
  "ms_jobs (snd (reclaim_user_slots_memory now s)) = ms_jobs s"
  "ms_brokers (snd (reclaim_user_slots_memory now s)) = ms_brokers s"
  by (simp_all add: reclaim_user_slots_memory_def Let_def)

section \<open>Properties\<close>

text \<open>Ownership is handed over at most once: when several brokers race to claim a job from the
  owner they all observed, the first one becomes the owner and every other one is told so, the
  record staying with the winner.\<close>
lemma memory_claim_single_winner:
  assumes "valid_job_id jid" "ms_lookup s jid = Some r" "pjr_broker_id r = expected" "a \<noteq> expected" "b \<noteq> a"
  shows "\<exists>s'. ms_claim_if_owner jid expected a s = (Inr (CR_Claimed (r\<lparr> pjr_broker_id := a \<rparr>)), s')
    \<and> ms_claim_if_owner jid expected b s' = (Inr (CR_Active a), s')
    \<and> ms_lookup s' = (ms_lookup s)(jid \<mapsto> r\<lparr> pjr_broker_id := a \<rparr>)"
proof -
  obtain s' where c: "ms_claim_if_owner jid expected a s = (Inr (CR_Claimed (r\<lparr> pjr_broker_id := a \<rparr>)), s')"
    "ms_lookup s' = (ms_lookup s)(jid \<mapsto> r\<lparr> pjr_broker_id := a \<rparr>)"
    using mem.claim_owned [OF TrueI assms(1,2), of a expected] assms(3) by (metis prod.collapse)
  with mem.claim_race [OF TrueI assms(1-3) c(1) assms(4,5)] show ?thesis by blast
qed

definition demo_store :: MemoryStore where
  "demo_store = snd (ms_upsert_job demo_record memory_new)"

lemma demo_record_valid: "valid_job_id (pjr_job_id demo_record)"
proof -
  have "decode ''017sg4fag005yaa01a04hmasw9'' = Some (Inr \<lparr> di_version = 1, di_site = ''bol'',
    di_env = ''dev'', di_timestamp = 1735787045000000000, di_broker_slot = 42,
    di_random = [0x01, 0x23, 0x45, 0x67, 0x89] \<rparr>)" by code_simp
  then show ?thesis by (simp add: valid_job_id_def decode_result_def demo_record_def)
qed

lemma demo_store_lookup: "ms_lookup demo_store (pjr_job_id demo_record) = Some demo_record"
  using mem.upsert_ok [OF TrueI demo_record_valid, of memory_new] by (simp add: demo_store_def)

text \<open>Broker slots: the allocations of a fresh store for a site and environment are the slots 0, 1,
  2, ... in order, each at most once, up to 65535, and \<open>SlotExhausted\<close> from then on.\<close>
lemma memory_broker_slots_unique:
  "allocate_slots n site env memory_new = map (\<lambda>i. if i < 65536 then Inr (of_nat i)
      else Inl (SlotExhausted site env 65535)) [0..<n]
    \<and> inj_on (\<lambda>i. of_nat i :: u16) {..<65536}"
proof -
  have "ms_next_slot memory_new site env = 0" by (simp add: ms_next_slot_def memory_new_def)
  moreover have "inj_on (\<lambda>i. of_nat i :: u16) {..<65536}"
    by (rule inj_on_inverseI [where g = unat]) (simp add: unat_of_nat)
  ultimately show ?thesis using allocate_slots_spec [of memory_new site env n] by simp
qed

text \<open>Reclaiming user slots removes exactly the entries whose owner holds no unexpired lease, and
  touches neither the jobs nor the leases.\<close>
lemma memory_reclaim_exact:
  "user_entries (snd (reclaim_user_slots_memory now s))
      = {e \<in> user_entries s. ule_owner_broker_id e \<in> live_brokers now s}
    \<and> ms_jobs (snd (reclaim_user_slots_memory now s)) = ms_jobs s
    \<and> ms_brokers (snd (reclaim_user_slots_memory now s)) = ms_brokers s"
  by (simp add: reclaim_entries reclaim_jobs)

end
