(* ===== verification/User_Limit.thy ===== *)
theory User_Limit
  imports Memory_Store "HOL-Library.Product_Lexorder" "HOL-Library.List_Lexorder"
begin

text \<open>
  Per-user admission limits (\<open>UserLimiter\<close> in \<open>bits/src/dispatcher/mod.rs\<close>).

  The limiter resolves a user's ceiling from the configuration, counts admitted jobs locally, and
  with a store synchronises the count across brokers: strictly, by the rank of the job's store
  entry, for ceilings up to 3, and lazily, by a cached count, above.  The store's methods are a
  record of operations on its state; \<open>None\<close> from \<open>uo_list\<close> is the five-second timeout.  A guard
  is a pair of user key and job id; dropping it is \<open>guard_drop\<close>.  \<open>strict_step\<close> interleaves the
  store calls of many brokers for one dispatcher and user.
\<close>

record RealmLimit =
  rl_default :: "nat option"
  rl_roles :: "(string \<times> nat) list"

record UserLimitConfig =
  ulc_default :: "nat option"
  ulc_realms :: "(string \<times> RealmLimit) list"

definition LAZY_RECONCILE_INTERVAL :: duration where "LAZY_RECONCILE_INTERVAL = 2000000000"
definition STRICT_MAX_THRESHOLD :: nat where "STRICT_MAX_THRESHOLD = 3"

record UserLimiter =
  ul_cfg :: UserLimitConfig
  ul_scope :: string
  ul_broker_id :: string
  ul_counts :: "(string \<times> nat) list"
  ul_cached_count :: "(string \<times> nat \<times> instant) list"

text \<open>The operations of the shared store which the limiter calls.\<close>
record 's user_ops =
  uo_reserve :: "string \<Rightarrow> string \<Rightarrow> string \<Rightarrow> string \<Rightarrow> 's \<Rightarrow> u64 db \<times> 's"
  uo_release :: "string \<Rightarrow> string \<Rightarrow> string \<Rightarrow> 's \<Rightarrow> unit db \<times> 's"
  uo_list :: "string \<Rightarrow> string \<Rightarrow> 's \<Rightarrow> UserLimitEntry list db option"

definition limiter_new :: "UserLimitConfig \<Rightarrow> string \<Rightarrow> string \<Rightarrow> UserLimiter" where
  "limiter_new cfg scope broker_id = \<lparr> ul_cfg = cfg, ul_scope = scope, ul_broker_id = broker_id,
    ul_counts = [], ul_cached_count = [] \<rparr>"

definition strict :: "nat \<Rightarrow> bool" where
  "strict cap \<longleftrightarrow> cap \<le> STRICT_MAX_THRESHOLD"

section \<open>Resolving the ceiling\<close>

text \<open>\<open>user.pointer("/auth/<field>")\<close>: through objects only, since the tokens are not indices.\<close>
definition auth_field :: "json \<Rightarrow> string \<Rightarrow> json option" where
  "auth_field user field = Option.bind (json_get user ''auth'') (\<lambda>auth. json_get auth field)"

definition max_with :: "nat option \<Rightarrow> nat \<Rightarrow> nat option" where
  "max_with effective m = Some (case effective of None \<Rightarrow> m | Some e \<Rightarrow> max e m)"

primrec fold_roles :: "(string \<times> nat) list \<Rightarrow> json list \<Rightarrow> nat option \<Rightarrow> nat option" where
  "fold_roles table [] effective = effective"
| "fold_roles table (r # rs) effective =
    fold_roles table rs
      (case as_str r of
         None \<Rightarrow> effective
       | Some role \<Rightarrow> (case map_of table role of None \<Rightarrow> effective | Some m \<Rightarrow> max_with effective m))"

definition resolve :: "UserLimitConfig \<Rightarrow> json \<Rightarrow> (string \<times> nat) option" where
  "resolve cfg user =
    Option.bind (Option.bind (auth_field user ''realm'') as_str) (\<lambda>realm.
    Option.bind (Option.bind (auth_field user ''username'') as_str) (\<lambda>username.
    let key = realm @ [CHR 0x1F] @ username;
        effective = ulc_default cfg;
        effective =
          (case map_of (ulc_realms cfg) realm of
             None \<Rightarrow> effective
           | Some realm_block \<Rightarrow>
               let effective = (case rl_default realm_block of None \<Rightarrow> effective | Some d \<Rightarrow> max_with effective d)
               in case Option.bind (auth_field user ''roles'') as_array of
                    None \<Rightarrow> effective
                  | Some roles \<Rightarrow> fold_roles (rl_roles realm_block) roles effective)
    in map_option (\<lambda>m. (key, m)) effective))"

section \<open>Local counts\<close>

definition local_count :: "UserLimiter \<Rightarrow> string \<Rightarrow> nat" where
  "local_count l key = unwrap_or (map_of (ul_counts l) key) 0"

definition try_admit_local :: "string \<Rightarrow> nat \<Rightarrow> UserLimiter \<Rightarrow> (nat + nat) \<times> UserLimiter" where
  "try_admit_local key cap l =
    (let slot = local_count l key;
         l = l\<lparr> ul_counts := AList.update key slot (ul_counts l) \<rparr>
     in if slot \<ge> cap then (Inl slot, l)
        else (Inr (slot + 1), l\<lparr> ul_counts := AList.update key (slot + 1) (ul_counts l) \<rparr>))"

definition incr_local :: "string \<Rightarrow> UserLimiter \<Rightarrow> UserLimiter" where
  "incr_local key l = l\<lparr> ul_counts := AList.update key (local_count l key + 1) (ul_counts l) \<rparr>"

definition release_local :: "string \<Rightarrow> UserLimiter \<Rightarrow> UserLimiter" where
  "release_local key l =
    (case map_of (ul_counts l) key of
       None \<Rightarrow> l
     | Some slot \<Rightarrow>
         let slot = slot - 1 in
         l\<lparr> ul_counts := if slot = 0 then AList.delete key (ul_counts l)
                        else AList.update key slot (ul_counts l) \<rparr>)"

text \<open>Dropping a guard: the local slot at once, the store entry by the spawned task, whose failure
  is only logged.\<close>
definition guard_drop :: "'s user_ops option \<Rightarrow> string \<Rightarrow> string \<Rightarrow> UserLimiter \<times> 's \<Rightarrow> UserLimiter \<times> 's" where
  "guard_drop store key jid st =
    (case st of (l, s) \<Rightarrow>
      (release_local key l,
       case store of None \<Rightarrow> s | Some ops \<Rightarrow> snd (uo_release ops (ul_scope l) key jid s)))"

section \<open>Admission\<close>

text \<open>\<open>ordered.sort_unstable()\<close> and \<open>position(...).unwrap_or(0)\<close>.\<close>
definition slot_rank :: "UserLimitEntry list \<Rightarrow> u64 \<Rightarrow> string \<Rightarrow> nat" where
  "slot_rank entries seq jid =
    (let ordered = sort (map (\<lambda>e. (ule_seq e, ule_job_id e)) entries)
     in unwrap_or (position (\<lambda>p. fst p = seq \<and> snd p = jid) ordered) 0)"

definition admit_strict ::
  "'s user_ops \<Rightarrow> string \<Rightarrow> string \<Rightarrow> nat \<Rightarrow> UserLimiter \<times> 's \<Rightarrow> bool \<times> UserLimiter \<times> 's" where
  "admit_strict store user_key jid cap st =
    (case st of (l, s) \<Rightarrow>
     case uo_reserve store (ul_scope l) user_key jid (ul_broker_id l) s of (reserved, s) \<Rightarrow>
     let l = incr_local user_key l in
     case reserved of
       Inl err \<Rightarrow> (True, l, s)
     | Inr seq \<Rightarrow>
         (case uo_list store (ul_scope l) user_key s of
            None \<Rightarrow> (True, l, s)
          | Some (Inl err) \<Rightarrow> (True, l, s)
          | Some (Inr entries) \<Rightarrow>
              if slot_rank entries seq jid < cap then (True, l, s)
              else (False, guard_drop (Some store) user_key jid (l, s))))"

definition admit_lazy ::
  "'s user_ops \<Rightarrow> instant \<Rightarrow> string \<Rightarrow> string \<Rightarrow> nat \<Rightarrow> UserLimiter \<times> 's \<Rightarrow> bool \<times> UserLimiter \<times> 's" where
  "admit_lazy store now user_key jid cap st =
    (case st of (l, s) \<Rightarrow>
     case try_admit_local user_key cap l of
       (Inl _, l) \<Rightarrow> (False, l, s)
     | (Inr _, l) \<Rightarrow>
         (case uo_reserve store (ul_scope l) user_key jid (ul_broker_id l) s of
            (Inl err, s) \<Rightarrow> (True, l, s)
          | (Inr _, s) \<Rightarrow>
              let decide = (\<lambda>synced l. if synced > cap then (False, guard_drop (Some store) user_key jid (l, s))
                                       else (True, l, s));
                  refresh = (case uo_list store (ul_scope l) user_key s of
                      None \<Rightarrow> (True, l, s)
                    | Some (Inl err) \<Rightarrow> (True, l, s)
                    | Some (Inr entries) \<Rightarrow>
                        decide (length entries)
                          (l\<lparr> ul_cached_count := AList.update user_key (length entries, now) (ul_cached_count l) \<rparr>))
              in case map_of (ul_cached_count l) user_key of
                   Some (n, at) \<Rightarrow> if now - at < LAZY_RECONCILE_INTERVAL then decide n l else refresh
                 | None \<Rightarrow> refresh))"

definition admit ::
  "'s user_ops option \<Rightarrow> instant \<Rightarrow> string \<Rightarrow> string \<Rightarrow> nat \<Rightarrow> UserLimiter \<times> 's \<Rightarrow> bool \<times> UserLimiter \<times> 's" where
  "admit store now user_key jid cap st =
    (if cap = 0 then (False, st)
     else case store of
       None \<Rightarrow> (case st of (l, s) \<Rightarrow> (case try_admit_local user_key cap l of
           (Inl _, l) \<Rightarrow> (False, l, s) | (Inr _, l) \<Rightarrow> (True, l, s)))
     | Some ops \<Rightarrow>
         if strict cap then admit_strict ops user_key jid cap st
         else admit_lazy ops now user_key jid cap st)"

section \<open>Many brokers, strict mode\<close>

text \<open>The phase of a job's strict admission: it has its ordinal, it holds a guard, or its guard is
  dropped and the release task still has to run.\<close>
datatype phase = Out | Reserved u64 | Admitted u64 | Releasing u64

inductive strict_step ::
  "('s \<Rightarrow> bool) \<Rightarrow> 's user_ops \<Rightarrow> string \<Rightarrow> string \<Rightarrow> nat \<Rightarrow> 's \<times> (string \<Rightarrow> phase) \<Rightarrow> 's \<times> (string \<Rightarrow> phase) \<Rightarrow> bool"
  for room store scope user cap where
  reserve: "ph j = Out \<Longrightarrow> room s \<Longrightarrow> uo_reserve store scope user j owner s = (Inr q, s') \<Longrightarrow>
    strict_step room store scope user cap (s, ph) (s', ph(j := Reserved q))"
| accept: "ph j = Reserved q \<Longrightarrow> uo_list store scope user s = Some (Inr es) \<Longrightarrow> slot_rank es q j < cap \<Longrightarrow>
    strict_step room store scope user cap (s, ph) (s, ph(j := Admitted q))"
| reject: "ph j = Reserved q \<Longrightarrow> uo_list store scope user s = Some (Inr es) \<Longrightarrow> \<not> slot_rank es q j < cap \<Longrightarrow>
    strict_step room store scope user cap (s, ph) (s, ph(j := Releasing q))"
| finish: "ph j = Admitted q \<Longrightarrow>
    strict_step room store scope user cap (s, ph) (s, ph(j := Releasing q))"
| abandon: "ph j = Reserved q \<Longrightarrow>
    strict_step room store scope user cap (s, ph) (s, ph(j := Releasing q))"
| release: "ph j = Releasing q \<Longrightarrow> uo_release store scope user j s = (Inr (), s') \<Longrightarrow>
    strict_step room store scope user cap (s, ph) (s', ph(j := Out))"

inductive_cases strict_stepE: "strict_step room store scope user cap st st'"

definition admitted :: "(string \<Rightarrow> phase) \<Rightarrow> string set" where
  "admitted ph = {j. \<exists>q. ph j = Admitted q}"

section \<open>The rank of an entry\<close>

lemma sorted_index_card:
  fixes xs :: "'a::linorder list"
  assumes "sorted xs" "distinct xs" "i < length xs"
  shows "card {y \<in> set xs. y < xs ! i} = i"
proof -
  have iff: "xs ! k < xs ! i \<longleftrightarrow> k < i" if "k < length xs" for k
    using that assms sorted_nth_mono[OF assms(1), of i k] sorted_nth_mono[OF assms(1), of k i]
      nth_eq_iff_index_eq[OF assms(2), of k i]
    by (cases "k < i") (auto simp: order_less_le)
  have "{y \<in> set xs. y < xs ! i} = (!) xs ` {..<i}"
  proof (intro set_eqI iffI)
    fix y assume "y \<in> {y \<in> set xs. y < xs ! i}"
    then show "y \<in> (!) xs ` {..<i}" using iff by (auto simp: in_set_conv_nth)
  next
    fix y assume "y \<in> (!) xs ` {..<i}"
    then show "y \<in> {y \<in> set xs. y < xs ! i}" using iff assms(3) by auto
  qed
  moreover have "inj_on ((!) xs) {..<i}" using assms by (auto simp: inj_on_def nth_eq_iff_index_eq)
  ultimately show ?thesis by (simp add: card_image)
qed

definition below :: "(string \<Rightarrow> u64 option) \<Rightarrow> u64 \<Rightarrow> string set" where
  "below f q = {j. \<exists>q'. f j = Some q' \<and> q' < q}"

lemma slot_rank_card:
  assumes entries: "distinct (map ule_job_id es)"
      "\<And>j q. f j = Some q \<longleftrightarrow> (\<exists>e \<in> set es. ule_job_id e = j \<and> ule_seq e = q)"
    and inj: "\<And>j j' q. f j = Some q \<Longrightarrow> f j' = Some q \<Longrightarrow> j = j'"
    and own: "f j = Some q"
  shows "slot_rank es q j = card (below f q)"
proof -
  define xs where "xs = sort (map (\<lambda>e. (ule_seq e, ule_job_id e)) es)"
  have set: "set xs = {(q, j). f j = Some q}" using entries(2) by (auto simp: xs_def image_iff)
  have "distinct (map (\<lambda>e. (ule_seq e, ule_job_id e)) es)"
    using entries(1) by (auto simp: distinct_map inj_on_def)
  then have xs: "sorted xs" "distinct xs" by (simp_all add: xs_def)
  obtain i where i: "position (\<lambda>p. p = (q, j)) xs = Some i"
    using position_eq_None[of "(q, j)" xs] set own by auto
  then have nth: "i < length xs" "xs ! i = (q, j)" using position_eq_Some[OF xs(2)] by auto
  have "(\<lambda>p. fst p = q \<and> snd p = j) = (\<lambda>p. p = (q, j))" by auto
  then have "slot_rank es q j = i" using i by (simp add: slot_rank_def Let_def xs_def)
  also have "\<dots> = card {y \<in> set xs. y < (q, j)}" using sorted_index_card[OF xs nth(1)] nth(2) by simp
  also have "{y \<in> set xs. y < (q, j)} = (\<lambda>j'. (the (f j'), j')) ` below f q"
  proof (intro set_eqI iffI)
    fix y assume "y \<in> {y \<in> set xs. y < (q, j)}"
    then obtain q' j' where y: "y = (q', j')" "f j' = Some q'" "(q', j') < (q, j)" using set by (cases y) auto
    have "q' < q"
    proof (rule ccontr)
      assume "\<not> q' < q"
      then have "q' = q" "j' < j" using y(3) by auto
      moreover have "j' = j" if "q' = q" using inj[of j' q j] y(2) own that by simp
      ultimately show False by simp
    qed
    then show "y \<in> (\<lambda>j'. (the (f j'), j')) ` below f q" using y by (auto simp: below_def image_iff)
  next
    fix y assume "y \<in> (\<lambda>j'. (the (f j'), j')) ` below f q"
    then show "y \<in> {y \<in> set xs. y < (q, j)}" using set by (auto simp: below_def)
  qed
  also have "card \<dots> = card (below f q)" by (rule card_image) (simp add: inj_on_def)
  finally show ?thesis .
qed

section \<open>Strict admission across brokers\<close>

definition phase_seq :: "phase \<Rightarrow> u64 option" where
  "phase_seq p = (case p of Out \<Rightarrow> None | Reserved q \<Rightarrow> Some q | Admitted q \<Rightarrow> Some q | Releasing q \<Rightarrow> Some q)"

lemma phase_seq_simps [simp]:
  "phase_seq Out = None" "phase_seq (Reserved q) = Some q" "phase_seq (Admitted q) = Some q"
  "phase_seq (Releasing q) = Some q"
  by (simp_all add: phase_seq_def)

definition seqs :: "(string \<Rightarrow> phase) \<Rightarrow> string \<Rightarrow> u64 option" where
  "seqs ph j = phase_seq (ph j)"

text \<open>Every admitted job was ranked below the ceiling, and stays there since later entries rank higher.\<close>
definition rank_inv :: "nat \<Rightarrow> (string \<Rightarrow> phase) \<Rightarrow> bool" where
  "rank_inv cap ph \<longleftrightarrow> finite (dom (seqs ph))
    \<and> (\<forall>j j' q. seqs ph j = Some q \<longrightarrow> seqs ph j' = Some q \<longrightarrow> j = j')
    \<and> (\<forall>j q. ph j = Admitted q \<longrightarrow> card (below (seqs ph) q) < cap)"

lemma seqs_keep: "phase_seq p = seqs ph j \<Longrightarrow> seqs (ph(j := p)) = seqs ph"
  by (auto simp: seqs_def)

lemma seqs_update: "seqs (ph(j := p)) = (seqs ph)(j := phase_seq p)"
  by (auto simp: seqs_def)

lemma below_finite: "finite (dom f) \<Longrightarrow> finite (below f q)"
  by (rule finite_subset[of _ "dom f"]) (auto simp: below_def)

lemma rank_inv_keep:
  assumes "rank_inv cap ph" "phase_seq p = seqs ph j" "\<And>q. p = Admitted q \<Longrightarrow> card (below (seqs ph) q) < cap"
  shows "rank_inv cap (ph(j := p))"
  using assms unfolding rank_inv_def seqs_keep[OF assms(2)] by auto

lemma rank_inv_reserve:
  assumes "rank_inv cap ph" "ph j = Out" "\<And>j' q'. seqs ph j' = Some q' \<Longrightarrow> q' < q"
  shows "rank_inv cap (ph(j := Reserved q))"
proof -
  have none: "seqs ph j = None" using assms(2) by (simp add: seqs_def)
  have below: "below ((seqs ph)(j \<mapsto> q)) q' = below (seqs ph) q'" if "q' < q" for q'
    using that none by (auto simp: below_def)
  have adm: "q' < q" if "ph j' = Admitted q'" for j' q' using assms(3)[of j' q'] that by (simp add: seqs_def)
  have fresh: "seqs ph j' \<noteq> Some q" for j' using assms(3)[of j' q] by auto
  show ?thesis
    using assms(1) none fresh adm unfolding rank_inv_def seqs_update
    by (auto simp: below split: if_splits)
qed

lemma rank_inv_release:
  assumes "rank_inv cap ph"
  shows "rank_inv cap (ph(j := Out))"
proof -
  have fin: "finite (dom (seqs ph))" using assms by (simp add: rank_inv_def)
  have sub: "below ((seqs ph)(j := None)) q \<subseteq> below (seqs ph) q" for q by (auto simp: below_def)
  have m: "card (below ((seqs ph)(j := None)) q) \<le> card (below (seqs ph) q)" for q
    by (rule card_mono[OF below_finite[OF fin] sub])
  show ?thesis using assms unfolding rank_inv_def seqs_update by (auto intro: le_less_trans[OF m])
qed

lemma rank_inv_bound:
  assumes "rank_inv cap ph"
  shows "finite (admitted ph) \<and> card (admitted ph) \<le> cap"
proof -
  have fin: "finite (dom (seqs ph))" using assms by (simp add: rank_inv_def)
  have sub: "admitted ph \<subseteq> dom (seqs ph)" by (auto simp: admitted_def seqs_def)
  then have fa: "finite (admitted ph)" using fin finite_subset by blast
  show ?thesis
  proof (cases "admitted ph = {}")
    case False
    define top where "top = Max ((\<lambda>j. the (seqs ph j)) ` admitted ph)"
    have "top \<in> (\<lambda>j. the (seqs ph j)) ` admitted ph" unfolding top_def using False fa by (intro Max_in) auto
    then obtain j where j: "ph j = Admitted top" by (auto simp: admitted_def seqs_def)
    have "admitted ph - {j} \<subseteq> below (seqs ph) top"
    proof
      fix j' assume j': "j' \<in> admitted ph - {j}"
      then obtain q where q: "ph j' = Admitted q" by (auto simp: admitted_def)
      then have "q \<le> top" unfolding top_def using fa j' by (intro Max_ge) (auto simp: seqs_def image_iff intro!: bexI[of _ j'])
      moreover have "q \<noteq> top" using assms j q j' unfolding rank_inv_def seqs_def by auto
      ultimately show "j' \<in> below (seqs ph) top" using q by (auto simp: below_def seqs_def)
    qed
    then have "card (admitted ph - {j}) \<le> card (below (seqs ph) top)"
      by (rule card_mono[OF below_finite[OF fin]])
    also have "\<dots> < cap" using assms j by (auto simp: rank_inv_def)
    finally have "card (admitted ph - {j}) < cap" .
    moreover have "card (admitted ph) = Suc (card (admitted ph - {j}))"
      using fa j by (intro card.remove) (auto simp: admitted_def)
    ultimately show ?thesis using fa by simp
  qed simp
qed

text \<open>The operations of a store which always answers in time.\<close>
definition timely_ops :: "(string \<Rightarrow> string \<Rightarrow> string \<Rightarrow> string \<Rightarrow> 's \<Rightarrow> u64 db \<times> 's)
    \<Rightarrow> (string \<Rightarrow> string \<Rightarrow> string \<Rightarrow> 's \<Rightarrow> unit db \<times> 's) \<Rightarrow> (string \<Rightarrow> string \<Rightarrow> 's \<Rightarrow> UserLimitEntry list db) \<Rightarrow> 's user_ops" where
  "timely_ops res rel lst = \<lparr> uo_reserve = res, uo_release = rel, uo_list = (\<lambda>scope user s. Some (lst scope user s)) \<rparr>"

context user_limit_store
begin

lemma strict_step_inv:
  assumes "strict_step room (timely_ops (reserve now) release list_slots) scope user cap (s, ph) (s', ph')"
    and "invar s" "slots s scope user = seqs ph" "rank_inv cap ph"
  shows "invar s' \<and> slots s' scope user = seqs ph' \<and> rank_inv cap ph'"
  using assms(1)
proof cases
  case (reserve j owner q)
  then have none: "slots s scope user j = None" and out: "ph j = Out" using assms(3) by (simp_all add: seqs_def)
  have "reserve now scope user j owner s = (Inr q, s')" using reserve by (simp add: timely_ops_def)
  note r = reserve_new[OF assms(2) \<open>room s\<close> none this]
  have "rank_inv cap (ph(j := Reserved q))"
    using rank_inv_reserve[OF assms(4) out, of q] r assms(3) by auto
  then show ?thesis using r assms(3) reserve by (auto simp: seqs_update)
next
  case (accept j q es)
  have own: "seqs ph j = Some q" using accept by (simp add: seqs_def)
  have "list_slots scope user s = Inr es" using accept by (simp add: timely_ops_def)
  then have "slot_rank es q j = card (below (seqs ph) q)"
    using list_ok[OF assms(2), of scope user es] assms(3,4) own by (intro slot_rank_card) (auto simp: rank_inv_def)
  then have "rank_inv cap (ph(j := Admitted q))"
    using accept own by (intro rank_inv_keep[OF assms(4)]) auto
  then show ?thesis using accept assms(2,3) own by (simp add: seqs_keep)
next
  case (release j q)
  then have "release scope user j s = (Inr (), s')" by (simp add: timely_ops_def)
  then show ?thesis
    using release_ok[OF assms(2)] assms(3) release rank_inv_release[OF assms(4), of j]
    by (auto simp: seqs_update)
qed (use assms(2-4) in \<open>auto simp: seqs_def[of ph] seqs_keep intro!: rank_inv_keep\<close>)

lemma strict_run_inv:
  assumes "(strict_step room (timely_ops (reserve now) release list_slots) scope user cap)\<^sup>*\<^sup>* st st'"
    and "invar (fst st)" "slots (fst st) scope user = seqs (snd st)" "rank_inv cap (snd st)"
  shows "invar (fst st') \<and> slots (fst st') scope user = seqs (snd st') \<and> rank_inv cap (snd st')"
  using assms
proof (induction rule: rtranclp_induct)
  case (step y z)
  then show ?case using strict_step_inv[of now scope user cap "fst y" "snd y" "fst z" "snd z"] by simp
qed simp

end

definition mem_ops :: "datetime \<Rightarrow> MemoryStore user_ops" where
  "mem_ops now = timely_ops (reserve_user_slot_memory now) release_user_slot_memory list_user_slots_memory"

abbreviation strict_run :: "datetime \<Rightarrow> string \<Rightarrow> string \<Rightarrow> nat \<Rightarrow> MemoryStore \<times> (string \<Rightarrow> phase) \<Rightarrow> MemoryStore \<times> (string \<Rightarrow> phase) \<Rightarrow> bool" where
  "strict_run now scope user cap \<equiv> (strict_step (\<lambda>s. ms_user_seq s \<noteq> - 1) (mem_ops now) scope user cap)\<^sup>*\<^sup>*"

text \<open>One broker's \<open>admit_strict\<close> on a timely store is two of these steps.\<close>
lemma admit_strict_steps:
  assumes "ph j = Out" "room s" "uo_reserve ops (ul_scope l) user j (ul_broker_id l) s = (Inr q, s1)"
    "uo_list ops (ul_scope l) user s1 = Some (Inr es)"
  shows "\<exists>ph'. (strict_step room ops (ul_scope l) user cap)\<^sup>*\<^sup>* (s, ph) (s1, ph')
    \<and> (fst (admit_strict ops user j cap (l, s)) \<longleftrightarrow> ph' j = Admitted q)"
proof -
  have 1: "strict_step room ops (ul_scope l) user cap (s, ph) (s1, ph(j := Reserved q))"
    by (rule strict_step.reserve) (use assms in auto)
  have scope: "ul_scope (incr_local user l) = ul_scope l" by (simp add: incr_local_def)
  show ?thesis
  proof (cases "slot_rank es q j < cap")
    case True
    have "strict_step room ops (ul_scope l) user cap (s1, ph(j := Reserved q)) (s1, (ph(j := Reserved q))(j := Admitted q))"
      by (rule strict_step.accept[OF _ assms(4) True]) simp
    then show ?thesis using 1 True assms scope
      by (intro exI[of _ "(ph(j := Reserved q))(j := Admitted q)"])
        (auto simp: admit_strict_def Let_def intro: converse_rtranclp_into_rtranclp)
  next
    case False
    have "strict_step room ops (ul_scope l) user cap (s1, ph(j := Reserved q)) (s1, (ph(j := Reserved q))(j := Releasing q))"
      by (rule strict_step.reject[OF _ assms(4) False]) simp
    then show ?thesis using 1 False assms scope
      by (intro exI[of _ "(ph(j := Reserved q))(j := Releasing q)"])
        (auto simp: admit_strict_def Let_def intro: converse_rtranclp_into_rtranclp)
  qed
qed

lemma memory_strict_inv:
  assumes "strict_run now scope user cap (memory_new, \<lambda>_. Out) (s, ph)"
  shows "ms_slots_ok s \<and> ms_slots s scope user = seqs ph \<and> rank_inv cap ph"
proof -
  have "ms_slots_ok memory_new" "ms_slots memory_new scope user = seqs (\<lambda>_. Out)" "rank_inv cap (\<lambda>_. Out)"
    by (auto simp: memory_new_def ms_slots_ok_def ms_slots_def seqs_def rank_inv_def dom_def)
  then show ?thesis
    using mem_user.strict_run_inv[of now scope user cap "(memory_new, \<lambda>_. Out)" "(s, ph)"] assms
    by (simp add: mem_ops_def)
qed

text \<open>Strict admission is a hard cross-broker limit: however the reserve, list and release calls of any
  number of brokers interleave on the shared store, at most \<open>cap\<close> jobs of one user hold a guard of one
  dispatcher at any moment.  A reserved job is judged by the number of entries in flight reserved before
  its own, so that it is admitted exactly when fewer than \<open>cap\<close> jobs are ahead of it.\<close>
lemma strict_admission_bounded:
  assumes "(strict_step (\<lambda>s. ms_user_seq s \<noteq> - 1) (mem_ops now) scope user cap)\<^sup>*\<^sup>* (memory_new, \<lambda>_. Out) (s, ph)"
  shows "finite (admitted ph) \<and> card (admitted ph) \<le> cap
    \<and> (\<forall>j q. ph j = Reserved q \<longrightarrow> (\<exists>es. uo_list (mem_ops now) scope user s = Some (Inr es)
          \<and> slot_rank es q j = card (below (seqs ph) q)))"
proof -
  have inv: "ms_slots_ok s" "ms_slots s scope user = seqs ph" "rank_inv cap ph"
    using memory_strict_inv[OF assms] by simp_all
  obtain es where es0: "list_user_slots_memory scope user s = Inr es"
    using mem_user.list_accepts[OF inv(1) TrueI] by blast
  note es = es0 mem_user.list_ok[OF inv(1) es0, THEN conjunct1] mem_user.list_ok[OF inv(1) es0, THEN conjunct2]
  have "slot_rank es q j = card (below (seqs ph) q)" if "ph j = Reserved q" for j q
  proof (rule slot_rank_card[OF es(2)])
    show "(seqs ph j = Some q) = (\<exists>e \<in> set es. ule_job_id e = j \<and> ule_seq e = q)" for j q
      using es(3) inv(2) by simp
    show "j = j'" if "seqs ph j = Some q" "seqs ph j' = Some q" for j j' q
      using inv(3) that unfolding rank_inv_def by blast
  qed (use that in \<open>simp add: seqs_def\<close>)
  then show ?thesis using rank_inv_bound[OF inv(3)] es(1) by (auto simp: mem_ops_def timely_ops_def)
qed

section \<open>Resolution\<close>

text \<open>The ceilings that apply to a user of a realm.\<close>
definition candidates :: "UserLimitConfig \<Rightarrow> string \<Rightarrow> json \<Rightarrow> nat set" where
  "candidates cfg realm user = set_option (ulc_default cfg) \<union>
    (case map_of (ulc_realms cfg) realm of
       None \<Rightarrow> {}
     | Some block \<Rightarrow> set_option (rl_default block) \<union>
         {m. \<exists>roles role. Option.bind (auth_field user ''roles'') as_array = Some roles \<and> JString role \<in> set roles
            \<and> map_of (rl_roles block) role = Some m})"

definition best :: "nat set \<Rightarrow> nat option" where
  "best M = (if M = {} then None else Some (Max M))"

lemma best_insert: "finite M \<Longrightarrow> max_with (best M) m = best (insert m M)"
  by (auto simp: best_def max_with_def max.commute)

lemma fold_roles_best:
  "finite M \<Longrightarrow> fold_roles table rs (best M) = best (M \<union> {m. \<exists>role. JString role \<in> set rs \<and> map_of table role = Some m})"
proof (induction rs arbitrary: M)
  case (Cons r rs)
  show ?case
  proof (cases "Option.bind (as_str r) (map_of table)")
    case None
    then have "{m. \<exists>role. JString role \<in> set (r # rs) \<and> map_of table role = Some m}
        = {m. \<exists>role. JString role \<in> set rs \<and> map_of table role = Some m}"
      by (auto simp: as_str_def)
    then show ?thesis using Cons None by (auto split: option.splits)
  next
    case (Some m)
    then have r: "\<exists>role. r = JString role \<and> map_of table role = Some m" by (cases r) (auto simp: as_str_def)
    then have "{m. \<exists>role. JString role \<in> set (r # rs) \<and> map_of table role = Some m}
        = insert m {m. \<exists>role. JString role \<in> set rs \<and> map_of table role = Some m}" by auto
    then show ?thesis using Cons.IH[of "insert m M"] Cons.prems r by (auto simp: as_str_def best_insert)
  qed
qed simp

text \<open>A user without a string realm and name is not limited; otherwise the ceiling is the greatest of the
  global default, the default of the user's realm and the ceilings of the user's roles in that realm, under
  the key of realm and name, and there is no limit exactly when none of these applies.\<close>
lemma resolve_candidates:
  "resolve cfg user =
    (case (Option.bind (auth_field user ''realm'') as_str, Option.bind (auth_field user ''username'') as_str) of
       (Some realm, Some username) \<Rightarrow>
         if candidates cfg realm user = {} then None
         else Some (realm @ [CHR 0x1F] @ username, Max (candidates cfg realm user))
     | _ \<Rightarrow> None)"
proof -
  have d: "ulc_default cfg = best (set_option (ulc_default cfg))" by (cases "ulc_default cfg") (simp_all add: best_def)
  have rd: "(case rl_default b of None \<Rightarrow> ulc_default cfg | Some x \<Rightarrow> max_with (ulc_default cfg) x)
      = best (set_option (ulc_default cfg) \<union> set_option (rl_default b))" for b
    using best_insert[of "set_option (ulc_default cfg)"] d by (cases "rl_default b") auto
  have eff: "(case map_of (ulc_realms cfg) realm of
             None \<Rightarrow> ulc_default cfg
           | Some b \<Rightarrow>
               case Option.bind (auth_field user ''roles'') as_array of
                    None \<Rightarrow> (case rl_default b of None \<Rightarrow> ulc_default cfg | Some x \<Rightarrow> max_with (ulc_default cfg) x)
                  | Some roles \<Rightarrow> fold_roles (rl_roles b) roles
                      (case rl_default b of None \<Rightarrow> ulc_default cfg | Some x \<Rightarrow> max_with (ulc_default cfg) x))
       = best (candidates cfg realm user)" for realm
  proof (cases "map_of (ulc_realms cfg) realm")
    case None
    then show ?thesis using d by (simp add: candidates_def)
  next
    case (Some b)
    then show ?thesis
      by (cases "Option.bind (auth_field user ''roles'') as_array") (simp_all add: candidates_def rd fold_roles_best Un_assoc)
  qed
  show ?thesis
    unfolding resolve_def Let_def eff
    by (cases "Option.bind (auth_field user ''realm'') as_str";
        cases "Option.bind (auth_field user ''username'') as_str") (simp_all add: best_def)
qed

section \<open>Guards and local counts\<close>

text \<open>The states a limiter reaches by admitting jobs and dropping guards, with the keys of the live guards.\<close>
inductive limiter_run :: "'s user_ops option \<Rightarrow> UserLimiter \<times> 's \<Rightarrow> string multiset \<Rightarrow> bool" for store where
  start: "limiter_run store (limiter_new cfg scope broker, s) {#}"
| granted: "limiter_run store st guards \<Longrightarrow> admit store now key jid cap st = (True, st') \<Longrightarrow>
    limiter_run store st' (add_mset key guards)"
| denied: "limiter_run store st guards \<Longrightarrow> admit store now key jid cap st = (False, st') \<Longrightarrow>
    limiter_run store st' guards"
| dropped: "limiter_run store st (add_mset key guards) \<Longrightarrow> limiter_run store (guard_drop store key jid st) guards"
| store_moves: "limiter_run store (l, s) guards \<Longrightarrow> limiter_run store (l, s') guards"

definition tracks :: "UserLimiter \<Rightarrow> string multiset \<Rightarrow> bool" where
  "tracks l guards \<longleftrightarrow>
    map_of (ul_counts l) = (\<lambda>k. if count guards k = 0 then None else Some (count guards k))"

lemma tracks_local_count: "tracks l guards \<Longrightarrow> local_count l k = count guards k"
  by (simp add: tracks_def local_count_def)

lemma tracks_incr: "tracks l guards \<Longrightarrow> tracks (incr_local key l) (add_mset key guards)"
  by (auto simp: incr_local_def tracks_local_count[unfolded tracks_def] tracks_def update_conv' fun_eq_iff count_eq_zero_iff)

lemma tracks_release: "tracks l (add_mset key guards) \<Longrightarrow> tracks (release_local key l) guards"
  by (auto simp: release_local_def tracks_def update_conv' delete_conv' fun_eq_iff count_eq_zero_iff Let_def)

lemma tracks_drop: "tracks (fst st) (add_mset key guards) \<Longrightarrow> tracks (fst (guard_drop store key jid st)) guards"
  by (cases st) (simp add: guard_drop_def tracks_release)

lemma tracks_cached [simp]: "tracks (l\<lparr> ul_cached_count := c \<rparr>) guards = tracks l guards"
  by (simp add: tracks_def)

lemma tracks_try:
  assumes "tracks l guards" "0 < cap"
  shows "case try_admit_local key cap l of
      (Inl n, l') \<Rightarrow> cap \<le> count guards key \<and> tracks l' guards
    | (Inr n, l') \<Rightarrow> count guards key < cap \<and> tracks l' (add_mset key guards)"
  using assms tracks_local_count[OF assms(1), of key]
  by (cases "count guards key")
    (auto simp: try_admit_local_def Let_def tracks_def update_conv' fun_eq_iff count_eq_zero_iff, simp add: not_in_iff, simp add: count_inI)

lemma tracks_admit_strict:
  assumes "tracks l guards"
  shows "tracks (fst (snd (admit_strict ops key jid cap (l, s))))
    (if fst (admit_strict ops key jid cap (l, s)) then add_mset key guards else guards)"
proof -
  obtain r s1 where "uo_reserve ops (ul_scope l) key jid (ul_broker_id l) s = (r, s1)" by (rule prod.exhaust)
  then show ?thesis
    using tracks_incr[OF assms, of key] tracks_drop[of "(incr_local key l, s1)" key guards "Some ops" jid]
    by (auto simp: admit_strict_def Let_def split: sum.splits option.splits)
qed

lemma tracks_admit_lazy:
  assumes "tracks l guards" "0 < cap"
  shows "tracks (fst (snd (admit_lazy ops now key jid cap (l, s))))
      (if fst (admit_lazy ops now key jid cap (l, s)) then add_mset key guards else guards)
    \<and> (fst (admit_lazy ops now key jid cap (l, s)) \<longrightarrow> count guards key < cap)"
proof (cases "try_admit_local key cap l")
  case (Pair r l1)
  show ?thesis
  proof (cases r)
    case (Inl n)
    then show ?thesis using tracks_try[OF assms, of key] Pair by (simp add: admit_lazy_def)
  next
    case (Inr n)
    then have t: "tracks l1 (add_mset key guards)" "count guards key < cap" using tracks_try[OF assms, of key] Pair by simp_all
    obtain r2 s1 where s1: "uo_reserve ops (ul_scope l1) key jid (ul_broker_id l1) s = (r2, s1)" by (rule prod.exhaust)
    show ?thesis
      using t Inr Pair s1 by (auto simp: admit_lazy_def Let_def tracks_drop split: sum.splits option.splits)
  qed
qed

lemma tracks_admit:
  assumes "tracks l guards" "admit store now key jid cap (l, s) = (granted, l', s')"
  shows "tracks l' (if granted then add_mset key guards else guards)"
proof (cases "cap = 0")
  case False
  show ?thesis
  proof (cases store)
    case None
    then show ?thesis using assms False tracks_try[OF assms(1), of cap key]
      by (auto simp: admit_def split: prod.splits sum.splits)
  next
    case (Some ops)
    then show ?thesis
      using assms False tracks_admit_strict[OF assms(1), of ops key jid cap s]
        tracks_admit_lazy[OF assms(1), of cap ops now key jid s]
      by (cases "strict cap") (simp_all add: admit_def)
  qed
qed (use assms in \<open>simp add: admit_def\<close>)

lemma limiter_run_tracks: "limiter_run store st guards \<Longrightarrow> tracks (fst st) guards"
proof (induction rule: limiter_run.induct)
  case (start cfg scope broker s)
  show ?case by (simp add: tracks_def limiter_new_def)
next
  case (granted st guards now key jid cap st')
  then show ?case using tracks_admit[of "fst st" guards store now key jid cap "snd st" True "fst st'" "snd st'"] by simp
next
  case (denied st guards now key jid cap st')
  then show ?case using tracks_admit[of "fst st" guards store now key jid cap "snd st" False "fst st'" "snd st'"] by simp
next
  case (dropped st key guards jid)
  then show ?case by (simp add: tracks_drop)
qed simp

text \<open>However admissions, refusals and guard drops follow each other, whatever the store answers, the local
  count of a user is the number of live guards, no entry stays behind for a user without guards, and without
  a store no user ever gets a guard beyond the ceiling the admission was made with.\<close>
lemma local_count_tracks_guards:
  assumes "limiter_run store (l, s) guards"
  shows "(\<forall>key. local_count l key = count guards key) \<and> set (map fst (ul_counts l)) = set_mset guards
    \<and> (store = None \<longrightarrow> fst (admit store now key jid cap (l, s)) = (count guards key < cap))"
proof -
  have t: "tracks l guards" using limiter_run_tracks[OF assms] by simp
  have "dom (map_of (ul_counts l)) = set_mset guards"
    using t by (auto simp: tracks_def dom_def count_eq_zero_iff split: if_splits)
  moreover have "fst (admit None now key jid cap (l, s)) = (count guards key < cap)"
    using tracks_local_count[OF t, of key] by (simp add: admit_def try_admit_local_def Let_def)
  ultimately show ?thesis using tracks_local_count[OF t] by (auto simp: dom_map_of_conv_image_fst)
qed

text \<open>A failing store never blocks a user: when the reservation fails, or the listing fails or times out, a
  strict admission always grants the guard, and a lazy one does whenever the local count is below the ceiling
  and no fresh cached count exceeds it.  A ceiling of 0 denies without touching the store.\<close>
lemma strict_store_errors_fail_open:
  assumes "0 < cap" "uo_reserve ops (ul_scope l) key jid (ul_broker_id l) s = (r, s1)"
    and "(\<exists>err. r = Inl err) \<or> uo_list ops (ul_scope l) key s1 = None
      \<or> (\<exists>err. uo_list ops (ul_scope l) key s1 = Some (Inl err))"
  shows "(strict cap \<longrightarrow> fst (admit (Some ops) now key jid cap (l, s)))
    \<and> (\<not> strict cap \<longrightarrow> local_count l key < cap \<longrightarrow>
        (\<forall>n at. map_of (ul_cached_count l) key = Some (n, at) \<longrightarrow> n \<le> cap) \<longrightarrow>
        fst (admit (Some ops) now key jid cap (l, s)))
    \<and> admit (Some ops) now key jid 0 (l, s) = (False, l, s)"
proof -
  have keep: "ul_scope (incr_local key l) = ul_scope l" by (simp add: incr_local_def)
  have "fst (admit_strict ops key jid cap (l, s))"
    using assms keep by (auto simp: admit_strict_def Let_def split: sum.splits option.splits)
  moreover have "fst (admit_lazy ops now key jid cap (l, s))"
    if "local_count l key < cap" "\<forall>n at. map_of (ul_cached_count l) key = Some (n, at) \<longrightarrow> n \<le> cap"
    using assms that by (fastforce simp: admit_lazy_def try_admit_local_def Let_def split: sum.splits option.splits)
  ultimately show ?thesis using assms(1) by (simp add: admit_def)
qed

end
