(* ===== verification/Dispatch.thy ===== *)
theory Dispatch
  imports Job_Queue User_Limit
begin

text \<open>
  The dispatcher and the local pool executors (\<open>Dispatcher::dispatch\<close> and \<open>close\<close> in
  \<open>bits/src/dispatcher/mod.rs\<close>, the scheduler loops of \<open>executor/async_pool.rs\<close> and
  \<open>executor/thread_pool.rs\<close>) as a transition system.

  A caller is named by its job id, and its phase says how far the \<open>dispatch\<close> future has come; a step is
  the code between two points where other tasks can interleave (a lock, an atomic, an \<open>await\<close>).  The
  pending map is the set of its keys, the queue the set of queued ids (its order is the business of
  the queue theories: any element may be dequeued, and \<open>close\<close> may drop elements, as the \<open>Queue\<close>
  contract allows).  \<open>dp_guards\<close> are the jobs whose user-limit guard is alive, \<open>dp_running\<close> the jobs an
  executor has taken out of the pending map, \<open>dp_replies\<close> the results sent but not yet received.
\<close>

datatype DispatchGuard = DG_None | DG_Cancelled | DG_CancelledOrClientGone

text \<open>The test both the queued caller and the guarded work make: \<open>None\<close> is to go on.\<close>
definition guard_error :: "DispatchGuard \<Rightarrow> bool \<Rightarrow> bool \<Rightarrow> ActionError option" where
  "guard_error guard cancelled present =
    (case guard of
       DG_None \<Rightarrow> None
     | DG_Cancelled \<Rightarrow> if cancelled then Some AE_Cancelled else None
     | DG_CancelledOrClientGone \<Rightarrow>
         if cancelled then Some AE_Cancelled else if \<not> present then Some AE_ClientGone else None)"

definition dispatcher_closed :: ActionError where
  "dispatcher_closed = ResourceError ''dispatcher closed''"

definition queue_full :: ActionError where
  "queue_full = QueueFull ''dispatcher queue is full''"

definition user_limit_error :: "nat \<Rightarrow> ActionError" where
  "user_limit_error cap = UserLimitExceeded
    (''user is at the per-user limit ('' @ show_uint (int cap) @ '') for this route'')"

datatype 'r caller =
    NotCalled
  | UserAdmitted
  | HasPermit
  | NotClosing
  | Inserted
  | Recorded
  | Queueing
  | AwaitReply
  | Returned "ActionError + 'r"
  | FutureDropped

datatype close_phase = Open | ClosingSet | SemClosed | QueueClosed | Drained

record 'r dispatcher =
  dp_closing :: bool
  dp_sem_closed :: bool
  dp_queue_closed :: bool
  dp_close :: close_phase
  dp_permits :: nat
  dp_pending :: "string set"
  dp_queue :: "string set"
  dp_taken :: "string set"
  dp_running :: "string set"
  dp_replies :: "string \<rightharpoonup> (ActionError + 'r)"
  dp_guards :: "string set"
  dp_depth :: int
  dp_phase :: "string \<Rightarrow> 'r caller"
  dp_env :: "string \<Rightarrow> bool \<times> bool"

definition dispatcher_new :: "nat \<Rightarrow> 'r dispatcher" where
  "dispatcher_new queue_capacity = \<lparr> dp_closing = False, dp_sem_closed = False, dp_queue_closed = False,
    dp_close = Open, dp_permits = queue_capacity, dp_pending = {}, dp_queue = {}, dp_taken = {}, dp_running = {},
    dp_replies = Map.empty, dp_guards = {}, dp_depth = 0, dp_phase = (\<lambda>_. NotCalled),
    dp_env = (\<lambda>_. (False, True)) \<rparr>"

definition set_phase :: "string \<Rightarrow> 'r caller \<Rightarrow> 'r dispatcher \<Rightarrow> 'r dispatcher" where
  "set_phase j p d = d\<lparr> dp_phase := (dp_phase d)(j := p) \<rparr>"

definition drop_guard :: "string \<Rightarrow> 'r dispatcher \<Rightarrow> 'r dispatcher" where
  "drop_guard j d = d\<lparr> dp_guards := dp_guards d - {j} \<rparr>"

definition release_permit :: "'r dispatcher \<Rightarrow> 'r dispatcher" where
  "release_permit d = d\<lparr> dp_permits := Suc (dp_permits d) \<rparr>"

text \<open>\<open>Dispatcher::new\<close>, which starts the executor's scheduler (its error is \<open>started\<close>).\<close>
definition dispatcher_create :: "nat \<Rightarrow> (string + unit) \<Rightarrow> string + 'r dispatcher" where
  "dispatcher_create queue_capacity started =
    (if queue_capacity = 0 then Inl ''queue_capacity must be greater than zero''
     else bind_result started (\<lambda>_. Inr (dispatcher_new queue_capacity)))"

section \<open>Admission: from the call to the permit\<close>

text \<open>\<open>limit j\<close> is the resolved ceiling of the job's user, if it is limited.\<close>
inductive admit_step :: "(string \<Rightarrow> nat option) \<Rightarrow> 'r dispatcher \<Rightarrow> 'r dispatcher \<Rightarrow> bool" for limit where
  unlimited: "dp_phase d j = NotCalled \<Longrightarrow> limit j = None \<Longrightarrow> admit_step limit d (set_phase j UserAdmitted d)"
| admitted: "dp_phase d j = NotCalled \<Longrightarrow> limit j = Some cap \<Longrightarrow>
    admit_step limit d (set_phase j UserAdmitted (d\<lparr> dp_guards := insert j (dp_guards d) \<rparr>))"
| rejected: "dp_phase d j = NotCalled \<Longrightarrow> limit j = Some cap \<Longrightarrow>
    admit_step limit d (set_phase j (Returned (Inl (user_limit_error cap))) d)"
| acquired: "dp_phase d j = UserAdmitted \<Longrightarrow> \<not> dp_sem_closed d \<Longrightarrow> dp_permits d = Suc n \<Longrightarrow>
    admit_step limit d (set_phase j HasPermit (d\<lparr> dp_permits := n \<rparr>))"
| full: "dp_phase d j = UserAdmitted \<Longrightarrow> \<not> dp_sem_closed d \<Longrightarrow> dp_permits d = 0 \<Longrightarrow>
    admit_step limit d (set_phase j (Returned (Inl queue_full)) (drop_guard j d))"
| sem_closed: "dp_phase d j = UserAdmitted \<Longrightarrow> dp_sem_closed d \<Longrightarrow>
    admit_step limit d (set_phase j (Returned (Inl dispatcher_closed)) (drop_guard j d))"
| not_closing: "dp_phase d j = HasPermit \<Longrightarrow> \<not> dp_closing d \<Longrightarrow> admit_step limit d (set_phase j NotClosing d)"
| closing: "dp_phase d j = HasPermit \<Longrightarrow> dp_closing d \<Longrightarrow>
    admit_step limit d (set_phase j (Returned (Inl dispatcher_closed)) (drop_guard j (release_permit d)))"

section \<open>Enqueueing\<close>

inductive enqueue_step :: "'r dispatcher \<Rightarrow> 'r dispatcher \<Rightarrow> bool" where
  locked_closing: "dp_phase d j = NotClosing \<Longrightarrow> dp_closing d \<Longrightarrow>
    enqueue_step d (set_phase j (Returned (Inl dispatcher_closed)) (drop_guard j (release_permit d)))"
| insert: "dp_phase d j = NotClosing \<Longrightarrow> \<not> dp_closing d \<Longrightarrow>
    enqueue_step d (set_phase j Inserted (d\<lparr> dp_pending := insert j (dp_pending d) \<rparr>))"
| record_enqueued: "dp_phase d j = Inserted \<Longrightarrow>
    enqueue_step d (set_phase j Recorded (d\<lparr> dp_depth := dp_depth d + 1 \<rparr>))"
| enqueue: "dp_phase d j = Recorded \<Longrightarrow> \<not> dp_queue_closed d \<Longrightarrow>
    enqueue_step d (set_phase j Queueing (d\<lparr> dp_queue := insert j (dp_queue d) \<rparr>))"
| enqueue_dropped: "dp_phase d j = Recorded \<Longrightarrow> dp_queue_closed d \<Longrightarrow>
    enqueue_step d (set_phase j Queueing d)"

section \<open>Waiting\<close>

text \<open>\<open>kind j\<close> is the guard the job was dispatched with.\<close>
inductive wait_step :: "(string \<Rightarrow> DispatchGuard) \<Rightarrow> 'r dispatcher \<Rightarrow> 'r dispatcher \<Rightarrow> bool" for kind where
  reply: "dp_phase d j \<in> {Queueing, AwaitReply} \<Longrightarrow> dp_replies d j = Some r \<Longrightarrow>
    wait_step kind d (set_phase j (Returned r) (d\<lparr> dp_replies := (dp_replies d)(j := None) \<rparr>))"
| abandon: "dp_phase d j = Queueing \<Longrightarrow> guard_error (kind j) (fst (dp_env d j)) (snd (dp_env d j)) = Some e \<Longrightarrow>
    j \<in> dp_pending d \<Longrightarrow>
    wait_step kind d (set_phase j (Returned (Inl e)) (drop_guard j (release_permit
      (d\<lparr> dp_pending := dp_pending d - {j}, dp_depth := dp_depth d - 1 \<rparr>))))"
| too_late: "dp_phase d j = Queueing \<Longrightarrow> guard_error (kind j) (fst (dp_env d j)) (snd (dp_env d j)) = Some e \<Longrightarrow>
    j \<notin> dp_pending d \<Longrightarrow> wait_step kind d (set_phase j AwaitReply d)"
| drop_future: "dp_phase d j \<in> {Queueing, AwaitReply} \<Longrightarrow>
    wait_step kind d (set_phase j FutureDropped (d\<lparr> dp_replies := (dp_replies d)(j := None) \<rparr>))"
| environment: "wait_step kind d (d\<lparr> dp_env := (dp_env d)(j := (c, p)) \<rparr>)"

section \<open>Executors\<close>

text \<open>One iteration of a pool task: dequeue, take the pending item, run, reply.  \<open>reply_closed\<close> is
  \<open>reply_tx.is_closed()\<close>; the work's own result \<open>r\<close> is arbitrary.\<close>
definition reply_closed :: "'r dispatcher \<Rightarrow> string \<Rightarrow> bool" where
  "reply_closed d j \<longleftrightarrow> dp_phase d j = FutureDropped"

inductive exec_step :: "(string \<Rightarrow> DispatchGuard) \<Rightarrow> 'r dispatcher \<Rightarrow> 'r dispatcher \<Rightarrow> bool" for kind where
  dequeue: "j \<in> dp_queue d \<Longrightarrow>
    exec_step kind d (d\<lparr> dp_queue := dp_queue d - {j}, dp_taken := insert j (dp_taken d) \<rparr>)"
| missing: "j \<in> dp_taken d \<Longrightarrow> j \<notin> dp_pending d \<Longrightarrow> exec_step kind d (d\<lparr> dp_taken := dp_taken d - {j} \<rparr>)"
| take_closed: "j \<in> dp_taken d \<Longrightarrow> j \<in> dp_pending d \<Longrightarrow> reply_closed d j \<Longrightarrow>
    exec_step kind d (drop_guard j (release_permit (d\<lparr> dp_taken := dp_taken d - {j},
      dp_pending := dp_pending d - {j}, dp_depth := dp_depth d - 1 \<rparr>)))"
| take: "j \<in> dp_taken d \<Longrightarrow> j \<in> dp_pending d \<Longrightarrow> \<not> reply_closed d j \<Longrightarrow>
    exec_step kind d (release_permit (d\<lparr> dp_taken := dp_taken d - {j}, dp_pending := dp_pending d - {j},
      dp_depth := dp_depth d - 1, dp_running := insert j (dp_running d) \<rparr>))"
| guarded: "j \<in> dp_running d \<Longrightarrow> guard_error (kind j) (fst (dp_env d j)) (snd (dp_env d j)) = Some e \<Longrightarrow>
    exec_step kind d (drop_guard j (d\<lparr> dp_running := dp_running d - {j},
      dp_replies := (if reply_closed d j then dp_replies d else (dp_replies d)(j \<mapsto> Inl e)) \<rparr>))"
| complete: "j \<in> dp_running d \<Longrightarrow>
    exec_step kind d (drop_guard j (d\<lparr> dp_running := dp_running d - {j},
      dp_replies := (if reply_closed d j then dp_replies d else (dp_replies d)(j \<mapsto> r)) \<rparr>))"

text \<open>An iteration of an OS thread of the thread pool makes the same moves: it dequeues with \<open>block_on\<close>,
  takes the pending item, skips a closed reply channel, runs the work and replies.\<close>
definition thread_pool_step :: "(string \<Rightarrow> DispatchGuard) \<Rightarrow> 'r dispatcher \<Rightarrow> 'r dispatcher \<Rightarrow> bool" where
  "thread_pool_step kind d d' = exec_step kind d d'"

section \<open>Closing\<close>

inductive close_step :: "'r dispatcher \<Rightarrow> 'r dispatcher \<Rightarrow> bool" where
  set_closing: "dp_close d = Open \<Longrightarrow> close_step d (d\<lparr> dp_closing := True, dp_close := ClosingSet \<rparr>)"
| close_sem: "dp_close d = ClosingSet \<Longrightarrow> close_step d (d\<lparr> dp_sem_closed := True, dp_close := SemClosed \<rparr>)"
| close_queue: "dp_close d = SemClosed \<Longrightarrow> q \<subseteq> dp_queue d \<Longrightarrow>
    close_step d (d\<lparr> dp_queue_closed := True, dp_queue := q, dp_close := QueueClosed \<rparr>)"
| drain_pending: "dp_close d = QueueClosed \<Longrightarrow>
    close_step d (d\<lparr> dp_close := Drained,
      dp_replies := (\<lambda>j. if j \<in> dp_pending d \<and> \<not> reply_closed d j then Some (Inl dispatcher_closed) else dp_replies d j),
      dp_permits := dp_permits d + card (dp_pending d),
      dp_guards := dp_guards d - dp_pending d,
      dp_depth := dp_depth d - int (card (dp_pending d)),
      dp_pending := {} \<rparr>)"

section \<open>The system\<close>

definition dispatcher_step ::
  "(string \<Rightarrow> nat option) \<Rightarrow> (string \<Rightarrow> DispatchGuard) \<Rightarrow> 'r dispatcher \<Rightarrow> 'r dispatcher \<Rightarrow> bool" where
  "dispatcher_step limit kind d d' \<longleftrightarrow>
    admit_step limit d d' \<or> enqueue_step d d' \<or> wait_step kind d d' \<or> exec_step kind d d' \<or> thread_pool_step kind d d' \<or> close_step d d'"

definition dispatcher_reachable ::
  "nat \<Rightarrow> (string \<Rightarrow> nat option) \<Rightarrow> (string \<Rightarrow> DispatchGuard) \<Rightarrow> 'r dispatcher \<Rightarrow> bool" where
  "dispatcher_reachable capacity limit kind d \<longleftrightarrow>
    (dispatcher_step limit kind)\<^sup>*\<^sup>* (dispatcher_new capacity) d"

lemma dispatcher_step_iff:
  "dispatcher_step limit kind d d' \<longleftrightarrow>
    admit_step limit d d' \<or> enqueue_step d d' \<or> wait_step kind d d' \<or> exec_step kind d d' \<or> close_step d d'"
  by (auto simp: dispatcher_step_def thread_pool_step_def)

section \<open>Invariants\<close>

text \<open>Where a job can be, given how far its caller has come.\<close>
definition place_inv :: "'r dispatcher \<Rightarrow> bool" where
  "place_inv d \<longleftrightarrow>
    (\<forall>j. j \<in> dp_pending d \<longrightarrow> dp_phase d j \<in> {Inserted, Recorded, Queueing, FutureDropped}
        \<and> j \<notin> dp_running d \<and> dp_replies d j = None) \<and>
    (\<forall>j. j \<in> dp_running d \<longrightarrow> dp_phase d j \<in> {Queueing, AwaitReply, FutureDropped} \<and> dp_replies d j = None
        \<and> j \<notin> dp_queue d \<and> j \<notin> dp_taken d) \<and>
    (\<forall>j. j \<in> dp_queue d \<union> dp_taken d \<longrightarrow>
        dp_phase d j \<notin> {NotCalled, UserAdmitted, HasPermit, NotClosing, Inserted, Recorded}) \<and>
    dp_queue d \<inter> dp_taken d = {} \<and>
    (\<forall>j. dp_replies d j \<noteq> None \<longrightarrow> dp_phase d j \<in> {Inserted, Recorded, Queueing, AwaitReply})"

text \<open>Who answers a waiting caller, and who holds its user guard.\<close>
definition answer_inv :: "'r dispatcher \<Rightarrow> bool" where
  "answer_inv d \<longleftrightarrow>
    (\<forall>j. dp_phase d j \<in> {Inserted, Recorded, Queueing, AwaitReply} \<longrightarrow>
        j \<in> dp_pending d \<or> j \<in> dp_running d \<or> dp_replies d j \<noteq> None) \<and>
    (\<forall>j. dp_phase d j \<in> {Queueing, FutureDropped} \<and> j \<in> dp_pending d \<and> \<not> dp_queue_closed d \<longrightarrow>
        j \<in> dp_queue d \<union> dp_taken d) \<and>
    (\<forall>j. j \<in> dp_guards d \<longrightarrow>
        dp_phase d j \<in> {UserAdmitted, HasPermit, NotClosing} \<or> j \<in> dp_pending d \<or> j \<in> dp_running d)"

definition close_inv :: "'r dispatcher \<Rightarrow> bool" where
  "close_inv d \<longleftrightarrow>
    (dp_closing d \<longleftrightarrow> dp_close d \<noteq> Open) \<and>
    (dp_sem_closed d \<longleftrightarrow> dp_close d \<in> {SemClosed, QueueClosed, Drained}) \<and>
    (dp_queue_closed d \<longleftrightarrow> dp_close d \<in> {QueueClosed, Drained}) \<and>
    (dp_close d = Drained \<longrightarrow> dp_pending d = {})"

definition holders :: "(string \<Rightarrow> 'r caller) \<Rightarrow> string set" where
  "holders ph = {j. ph j \<in> {HasPermit, NotClosing}}"

definition unrecorded :: "(string \<Rightarrow> 'r caller) \<Rightarrow> string set" where
  "unrecorded ph = {j. ph j = Inserted}"

definition count_inv :: "nat \<Rightarrow> 'r dispatcher \<Rightarrow> bool" where
  "count_inv capacity d \<longleftrightarrow>
    finite (dp_pending d) \<and> finite (holders (dp_phase d)) \<and> finite (unrecorded (dp_phase d)) \<and>
    dp_permits d + card (dp_pending d) + card (holders (dp_phase d)) = capacity \<and>
    dp_depth d = int (card (dp_pending d)) - int (card (unrecorded (dp_phase d)))"

lemmas dispatch_ops = set_phase_def drop_guard_def release_permit_def reply_closed_def

lemma place_inv_new: "place_inv (dispatcher_new c)" "answer_inv (dispatcher_new c)" "close_inv (dispatcher_new c)"
  by (simp_all add: dispatcher_new_def place_inv_def answer_inv_def close_inv_def)

lemma place_inv_admit:
  "admit_step limit d d' \<Longrightarrow> place_inv d \<Longrightarrow> place_inv d'"
  by (cases rule: admit_step.cases, assumption)
    (auto simp: place_inv_def dispatch_ops split: if_splits)

lemma place_inv_enqueue:
  "enqueue_step d d' \<Longrightarrow> place_inv d \<Longrightarrow> place_inv d'"
  by (cases rule: enqueue_step.cases, assumption)
    (auto simp: place_inv_def dispatch_ops split: if_splits)

lemma place_inv_wait:
  "wait_step kind d d' \<Longrightarrow> place_inv d \<Longrightarrow> place_inv d'"
  by (cases rule: wait_step.cases, assumption)
    (auto simp: place_inv_def dispatch_ops split: if_splits)

lemma place_inv_exec:
  "exec_step kind d d' \<Longrightarrow> place_inv d \<Longrightarrow> place_inv d'"
  by (cases rule: exec_step.cases, assumption)
    (auto simp: place_inv_def dispatch_ops split: if_splits)

lemma place_inv_close:
  "close_step d d' \<Longrightarrow> place_inv d \<Longrightarrow> place_inv d'"
  by (cases rule: close_step.cases, assumption)
    (auto simp: place_inv_def dispatch_ops split: if_splits)


lemma answer_inv_admit:
  "admit_step limit d d' \<Longrightarrow> place_inv d \<Longrightarrow> answer_inv d \<Longrightarrow> answer_inv d'"
  by (cases rule: admit_step.cases, assumption)
    (auto simp: place_inv_def answer_inv_def dispatch_ops split: if_splits)

lemma answer_inv_enqueue:
  "enqueue_step d d' \<Longrightarrow> place_inv d \<Longrightarrow> answer_inv d \<Longrightarrow> answer_inv d'"
  by (cases rule: enqueue_step.cases, assumption)
    (auto simp: place_inv_def answer_inv_def dispatch_ops split: if_splits)

lemma answer_inv_wait:
  "wait_step kind d d' \<Longrightarrow> place_inv d \<Longrightarrow> answer_inv d \<Longrightarrow> answer_inv d'"
  by (cases rule: wait_step.cases, assumption)
    (auto simp: place_inv_def answer_inv_def dispatch_ops split: if_splits)

lemma answer_inv_exec:
  "exec_step kind d d' \<Longrightarrow> place_inv d \<Longrightarrow> answer_inv d \<Longrightarrow> answer_inv d'"
  by (cases rule: exec_step.cases, assumption)
    (auto simp: place_inv_def answer_inv_def dispatch_ops split: if_splits)

lemma answer_inv_close:
  "close_step d d' \<Longrightarrow> place_inv d \<Longrightarrow> close_inv d \<Longrightarrow> answer_inv d \<Longrightarrow> answer_inv d'"
  by (cases rule: close_step.cases, assumption)
    (auto simp: place_inv_def answer_inv_def close_inv_def dispatch_ops split: if_splits)

lemma close_inv_step:
  assumes "dispatcher_step limit kind d d'" "close_inv d"
  shows "close_inv d'"
  using assms unfolding dispatcher_step_iff close_inv_def
  by (elim disjE admit_step.cases enqueue_step.cases wait_step.cases exec_step.cases close_step.cases)
    (auto simp: dispatch_ops)

section \<open>Lemmas: counting\<close>

lemma holders_upd:
  "holders (ph(j := p)) = (if p \<in> {HasPermit, NotClosing} then insert j (holders ph) else holders ph - {j})"
  by (auto simp: holders_def)

lemma unrecorded_upd:
  "unrecorded (ph(j := p)) = (if p = Inserted then insert j (unrecorded ph) else unrecorded ph - {j})"
  by (auto simp: unrecorded_def)

lemma in_holders: "j \<in> holders ph \<longleftrightarrow> ph j = HasPermit \<or> ph j = NotClosing"
  by (auto simp: holders_def)

lemma in_unrecorded: "j \<in> unrecorded ph \<longleftrightarrow> ph j = Inserted"
  by (simp add: unrecorded_def)

lemmas count_simps = count_inv_def holders_upd unrecorded_upd in_holders in_unrecorded
  card_Diff_singleton_if card_insert_if dispatch_ops

lemma count_inv_admit:
  assumes "admit_step limit d d'" "count_inv c d"
  shows "count_inv c d'"
  using assms(1)
proof cases
  case (closing j)
  then have "j \<in> holders (dp_phase d)" by (simp add: in_holders)
  with assms(2) have "0 < card (holders (dp_phase d))" by (auto simp: count_inv_def card_gt_0_iff)
  with closing assms(2) show ?thesis by (auto simp: count_simps)
qed (use assms(2) in \<open>auto simp: count_simps\<close>)

lemma count_inv_enqueue:
  assumes "enqueue_step d d'" "count_inv c d" "place_inv d"
  shows "count_inv c d'"
  using assms(1)
proof cases
  case (locked_closing j)
  then have "j \<in> holders (dp_phase d)" by (simp add: in_holders)
  with assms(2) have "0 < card (holders (dp_phase d))" by (auto simp: count_inv_def card_gt_0_iff)
  with locked_closing assms(2) show ?thesis by (auto simp: count_simps)
next
  case (insert j)
  then have "j \<in> holders (dp_phase d)" by (simp add: in_holders)
  with assms(2) have "0 < card (holders (dp_phase d))" by (auto simp: count_inv_def card_gt_0_iff)
  moreover have "j \<notin> dp_pending d" using insert assms(3) by (auto simp: place_inv_def)
  ultimately show ?thesis using insert assms(2) by (auto simp: count_simps)
next
  case (record_enqueued j)
  then have "j \<in> unrecorded (dp_phase d)" by (simp add: in_unrecorded)
  with assms(2) have "0 < card (unrecorded (dp_phase d))" by (auto simp: count_inv_def card_gt_0_iff)
  with record_enqueued assms(2) show ?thesis by (auto simp: count_simps)
qed (use assms(2) in \<open>auto simp: count_simps\<close>)

lemma count_inv_wait:
  assumes "wait_step kind d d'" "count_inv c d"
  shows "count_inv c d'"
  using assms(1)
proof cases
  case (abandon j e)
  with assms(2) have "0 < card (dp_pending d)" by (auto simp: count_inv_def card_gt_0_iff)
  with abandon assms(2) show ?thesis by (auto simp: count_simps)
qed (use assms(2) in \<open>auto simp: count_simps\<close>)

lemma count_inv_exec:
  assumes "exec_step kind d d'" "count_inv c d"
  shows "count_inv c d'"
  using assms(1)
proof cases
  case (take_closed j)
  with assms(2) have "0 < card (dp_pending d)" by (auto simp: count_inv_def card_gt_0_iff)
  with take_closed assms(2) show ?thesis by (auto simp: count_simps)
next
  case (take j)
  with assms(2) have "0 < card (dp_pending d)" by (auto simp: count_inv_def card_gt_0_iff)
  with take assms(2) show ?thesis by (auto simp: count_simps)
qed (use assms(2) in \<open>auto simp: count_simps\<close>)

lemma count_inv_close:
  assumes "close_step d d'" "count_inv c d"
  shows "count_inv c d'"
  using assms(1) by cases (use assms(2) in \<open>auto simp: count_simps\<close>)


lemma count_inv_new: "count_inv c (dispatcher_new c)"
  by (simp add: count_inv_def dispatcher_new_def holders_def unrecorded_def)

lemma dispatcher_step_inv:
  assumes "dispatcher_step limit kind d d'" "place_inv d \<and> answer_inv d \<and> close_inv d \<and> count_inv c d"
  shows "place_inv d' \<and> answer_inv d' \<and> close_inv d' \<and> count_inv c d'"
proof -
  from assms(2) have i: "place_inv d" "answer_inv d" "close_inv d" "count_inv c d" by simp_all
  have "close_inv d'" using close_inv_step [OF assms(1) i(3)] .
  moreover from assms(1) consider "admit_step limit d d'" | "enqueue_step d d'" | "wait_step kind d d'"
    | "exec_step kind d d'" | "close_step d d'" unfolding dispatcher_step_iff by blast
  then have "place_inv d' \<and> answer_inv d' \<and> count_inv c d'"
  proof cases
    case 1
    with i show ?thesis by (simp add: place_inv_admit answer_inv_admit count_inv_admit)
  next
    case 2
    with i show ?thesis by (simp add: place_inv_enqueue answer_inv_enqueue count_inv_enqueue)
  next
    case 3
    with i show ?thesis by (simp add: place_inv_wait answer_inv_wait count_inv_wait)
  next
    case 4
    with i show ?thesis by (simp add: place_inv_exec answer_inv_exec count_inv_exec)
  next
    case 5
    with i show ?thesis by (simp add: place_inv_close answer_inv_close count_inv_close)
  qed
  ultimately show ?thesis by simp
qed

lemma dispatcher_reachable_inv:
  assumes "dispatcher_reachable c limit kind d"
  shows "place_inv d \<and> answer_inv d \<and> close_inv d \<and> count_inv c d"
  using assms unfolding dispatcher_reachable_def
proof (induction rule: rtranclp_induct)
  case base
  then show ?case by (simp add: place_inv_new count_inv_new)
next
  case (step y z)
  then show ?case using dispatcher_step_inv by blast
qed

section \<open>Progress\<close>

text \<open>Every waiting caller can still be answered, by steps of the executors, the closing task and its own.\<close>

abbreviation can_return :: "(string \<Rightarrow> nat option) \<Rightarrow> (string \<Rightarrow> DispatchGuard) \<Rightarrow> string \<Rightarrow> 'r dispatcher \<Rightarrow> bool" where
  "can_return limit kind j d \<equiv> \<exists>d' r. (dispatcher_step limit kind)\<^sup>*\<^sup>* d d' \<and> dp_phase d' j = Returned r"

lemma can_return_step:
  "dispatcher_step limit kind d d' \<Longrightarrow> can_return limit kind j d' \<Longrightarrow> can_return limit kind j d"
  by (meson converse_rtranclp_into_rtranclp)

lemma can_return_reply:
  assumes "dp_phase d j \<in> {Queueing, AwaitReply}" "dp_replies d j = Some r"
  shows "can_return limit kind j d"
proof -
  let ?d = "set_phase j (Returned r) (d\<lparr> dp_replies := (dp_replies d)(j := None) \<rparr>)"
  have "dispatcher_step limit kind d ?d"
    unfolding dispatcher_step_iff using wait_step.reply [OF assms, of kind] by blast
  moreover have "dp_phase ?d j = Returned r" by (simp add: set_phase_def)
  ultimately show ?thesis by blast
qed

lemma can_return_running:
  assumes "dp_phase d j \<in> {Queueing, AwaitReply}" "j \<in> dp_running d"
  shows "can_return limit kind j d"
proof -
  let ?d = "drop_guard j (d\<lparr> dp_running := dp_running d - {j},
      dp_replies := (if reply_closed d j then dp_replies d else (dp_replies d)(j \<mapsto> Inl AE_Cancelled)) \<rparr>)"
  have "dispatcher_step limit kind d ?d"
    unfolding dispatcher_step_iff using exec_step.complete [OF assms(2), of kind "Inl AE_Cancelled"] by blast
  moreover have "can_return limit kind j ?d"
    by (rule can_return_reply [where r = "Inl AE_Cancelled"])
      (use assms(1) in \<open>auto simp: drop_guard_def reply_closed_def\<close>)
  ultimately show ?thesis by (rule can_return_step)
qed

lemma can_return_taken:
  assumes "dp_phase d j = Queueing" "j \<in> dp_taken d" "j \<in> dp_pending d"
  shows "can_return limit kind j d"
proof -
  let ?d = "release_permit (d\<lparr> dp_taken := dp_taken d - {j}, dp_pending := dp_pending d - {j},
      dp_depth := dp_depth d - 1, dp_running := insert j (dp_running d) \<rparr>)"
  have "dispatcher_step limit kind d ?d"
    unfolding dispatcher_step_iff using exec_step.take [OF assms(2,3), of kind] assms(1)
    by (simp add: reply_closed_def)
  moreover have "can_return limit kind j ?d"
    by (rule can_return_running) (use assms(1) in \<open>auto simp: release_permit_def\<close>)
  ultimately show ?thesis by (rule can_return_step)
qed

lemma can_return_queued:
  assumes "dp_phase d j = Queueing" "j \<in> dp_queue d" "j \<in> dp_pending d"
  shows "can_return limit kind j d"
proof -
  let ?d = "d\<lparr> dp_queue := dp_queue d - {j}, dp_taken := insert j (dp_taken d) \<rparr>"
  have "dispatcher_step limit kind d ?d"
    unfolding dispatcher_step_iff using exec_step.dequeue [OF assms(2), of kind] by blast
  moreover have "can_return limit kind j ?d" by (rule can_return_taken) (use assms in auto)
  ultimately show ?thesis by (rule can_return_step)
qed

lemma can_return_closing:
  assumes "dp_phase d j = Queueing" "dp_close d = QueueClosed" "j \<in> dp_pending d"
  shows "can_return limit kind j d"
proof -
  let ?d = "d\<lparr> dp_close := Drained,
      dp_replies := (\<lambda>j. if j \<in> dp_pending d \<and> \<not> reply_closed d j then Some (Inl dispatcher_closed) else dp_replies d j),
      dp_permits := dp_permits d + card (dp_pending d),
      dp_guards := dp_guards d - dp_pending d,
      dp_depth := dp_depth d - int (card (dp_pending d)),
      dp_pending := {} \<rparr>"
  have "dispatcher_step limit kind d ?d"
    unfolding dispatcher_step_iff using close_step.drain_pending [OF assms(2)] by blast
  moreover have "can_return limit kind j ?d"
    by (rule can_return_reply [where r = "Inl dispatcher_closed"]) (use assms in \<open>auto simp: reply_closed_def\<close>)
  ultimately show ?thesis by (rule can_return_step)
qed

lemma can_return_waiting:
  assumes "place_inv d" "answer_inv d" "close_inv d" "dp_phase d j \<in> {Queueing, AwaitReply}"
  shows "can_return limit kind j d"
proof -
  consider r where "dp_replies d j = Some r" | "j \<in> dp_running d" | "j \<in> dp_pending d"
    using assms(2,4) unfolding answer_inv_def by blast
  then show ?thesis
  proof cases
    case 3
    then have q: "dp_phase d j = Queueing" using assms(1,4) by (auto simp: place_inv_def)
    show ?thesis
    proof (cases "dp_queue_closed d")
      case True
      then have "dp_close d = QueueClosed" using assms(3) 3 by (auto simp: close_inv_def)
      with q 3 show ?thesis using can_return_closing by blast
    next
      case False
      then have "j \<in> dp_queue d \<union> dp_taken d" using assms(2) q 3 unfolding answer_inv_def by blast
      with q 3 show ?thesis using can_return_queued can_return_taken by blast
    qed
  qed (use assms(4) can_return_reply can_return_running in blast)+
qed

lemma can_return_entering:
  assumes "place_inv d \<and> answer_inv d \<and> close_inv d \<and> count_inv c d" "dp_phase d j \<in> {Inserted, Recorded}"
  shows "can_return limit kind j d"
proof -
  have rec: "can_return limit kind j d" if i: "place_inv d \<and> answer_inv d \<and> close_inv d \<and> count_inv c d" and r: "dp_phase d j = Recorded" for d
  proof -
    obtain d' where s: "dispatcher_step limit kind d d'" "dp_phase d' j = Queueing"
    proof (cases "dp_queue_closed d")
      case True
      show thesis
        by (rule that [of "set_phase j Queueing d"])
          (use enqueue_step.enqueue_dropped [OF r True] in \<open>auto simp: dispatcher_step_iff set_phase_def\<close>)
    next
      case False
      show thesis
        by (rule that [of "set_phase j Queueing (d\<lparr> dp_queue := insert j (dp_queue d) \<rparr>)"])
          (use enqueue_step.enqueue [OF r False] in \<open>auto simp: dispatcher_step_iff set_phase_def\<close>)
    qed
    with dispatcher_step_inv [OF s(1) i] can_return_waiting [of d' j] show ?thesis
      by (intro can_return_step [OF s(1)]) simp
  qed
  show ?thesis
  proof (cases "dp_phase d j = Recorded")
    case False
    with assms(2) have ins: "dp_phase d j = Inserted" by simp
    let ?d = "set_phase j Recorded (d\<lparr> dp_depth := dp_depth d + 1 \<rparr>)"
    have s: "dispatcher_step limit kind d ?d"
      using enqueue_step.record_enqueued [OF ins] by (simp add: dispatcher_step_iff)
    from rec [OF dispatcher_step_inv [OF s assms(1)]] show ?thesis
      by (intro can_return_step [OF s]) (simp add: set_phase_def)
  qed (use rec assms in blast)
qed

section \<open>A sample run\<close>

text \<open>One unlimited job on a dispatcher of capacity one, up to its insertion.\<close>
definition demo_run :: "nat \<Rightarrow> unit dispatcher" where
  "demo_run n = (let d0 = dispatcher_new 1;
      d1 = set_phase ''j'' UserAdmitted d0;
      d2 = set_phase ''j'' HasPermit (d1\<lparr> dp_permits := 0 \<rparr>);
      d3 = set_phase ''j'' NotClosing d2;
      d4 = set_phase ''j'' Inserted (d3\<lparr> dp_pending := insert ''j'' (dp_pending d3) \<rparr>)
    in [d0, d1, d2, d3, d4] ! n)"

lemma demo_run_reachable: "dispatcher_reachable 1 (\<lambda>_. None) (\<lambda>_. DG_None) (demo_run 4)"
proof -
  let ?step = "dispatcher_step (\<lambda>_. None) (\<lambda>_. DG_None) :: unit dispatcher \<Rightarrow> _"
  have s: "?step (demo_run 0) (demo_run 1)" "?step (demo_run 1) (demo_run 2)" "?step (demo_run 2) (demo_run 3)"
    "?step (demo_run 3) (demo_run 4)"
    using admit_step.unlimited [of "demo_run 0" "''j''" "\<lambda>_. None"]
      admit_step.acquired [of "demo_run 1" "''j''" 0 "\<lambda>_. None"]
      admit_step.not_closing [of "demo_run 2" "''j''" "\<lambda>_. None"]
      enqueue_step.insert [of "demo_run 3" "''j''"]
    by (simp_all add: demo_run_def Let_def set_phase_def dispatcher_new_def dispatcher_step_iff)
  have "demo_run 0 = dispatcher_new 1" by (simp add: demo_run_def Let_def)
  with s show ?thesis unfolding dispatcher_reachable_def
    by (metis (no_types) rtranclp.rtrancl_into_rtrancl rtranclp.rtrancl_refl)
qed

lemma demo_run_inserted: "dp_phase (demo_run 4) ''j'' = Inserted" "dp_pending (demo_run 4) = {''j''}"
  by (simp_all add: demo_run_def Let_def set_phase_def dispatcher_new_def)

section \<open>Properties\<close>

text \<open>C32 Queue capacity is conserved: free permits, queued jobs and callers between permit and queue add
  up to the configured capacity in every reachable state, so at most \<open>capacity\<close> jobs are ever queued,
  and the depth metric is the number of queued jobs up to those whose enqueue is not yet recorded.\<close>
theorem dispatcher_capacity_conserved:
  assumes "dispatcher_reachable capacity limit kind d"
  shows "dp_permits d + card (dp_pending d) + card (holders (dp_phase d)) = capacity
    \<and> card (dp_pending d) \<le> capacity
    \<and> dp_depth d = int (card (dp_pending d)) - int (card (unrecorded (dp_phase d)))"
  using dispatcher_reachable_inv [OF assms] by (auto simp: count_inv_def)

theorem dispatcher_capacity_conserved_witness:
  "card (dp_pending (demo_run 4)) \<le> 1"
  using dispatcher_capacity_conserved [OF demo_run_reachable] by simp



text \<open>Nothing leaks: once every dispatch call has returned, the pending map is empty, no user guard is
  held, all permits are back and the depth metric is zero, whatever mixture of completion, rejection,
  cancellation, client loss and closing happened.\<close>
lemma dispatcher_quiescent_clean:
  assumes "dispatcher_reachable capacity limit kind d"
    and "\<forall>j. dp_phase d j = NotCalled \<or> (\<exists>r. dp_phase d j = Returned r)"
  shows "dp_pending d = {} \<and> dp_running d = {} \<and> dp_guards d = {} \<and> dp_permits d = capacity \<and> dp_depth d = 0"
proof -
  have inv: "place_inv d" "answer_inv d" "count_inv capacity d" using dispatcher_reachable_inv [OF assms(1)] by simp_all
  have ph: "dp_phase d j \<notin> {UserAdmitted, HasPermit, NotClosing, Inserted, Recorded, Queueing, AwaitReply, FutureDropped}" for j
    using assms(2) [rule_format, of j] by auto
  have p: "dp_pending d = {}" "dp_running d = {}" using inv(1) ph unfolding place_inv_def by blast+
  moreover have "dp_guards d = {}" using inv(2) ph p unfolding answer_inv_def by blast
  moreover have "holders (dp_phase d) = {}" "unrecorded (dp_phase d) = {}" using ph by (auto simp: holders_def unrecorded_def)
  ultimately show ?thesis using inv(3) by (simp add: count_inv_def)
qed

end
