(* ===== verification/Switch_Routing.thy ===== *)
theory Switch_Routing
  imports Dispatch
begin

text \<open>
  Actions, routes and the switch (\<open>bits/src/actions/mod.rs\<close>, \<open>routing/mod.rs\<close>, \<open>routing/switch.rs\<close>).

  The actions are trait objects of code outside the broker: each is a function of the job and of a
  world, which holds the lifecycle heap, the clock and (as the record's extension) whatever else the
  actions touch.  A transform also returns the job it mutated.  A dispatcher is a function which is
  given the work and may run it; for a transform it also says whether the job it worked on can be
  taken back (\<open>Arc::try_unwrap\<close>).  Routing itself, its order and its early exits are the source's.
\<close>

record World =
  w_heap :: Heap
  w_now :: instant

datatype CheckResult = Pass | CheckReject string bool
datatype TransformResult = Continue | TransformReject string bool
datatype TargetResult = Complete JobResult | TargetReject string bool

type_synonym ('x, 'a) action_fn = "Job \<Rightarrow> 'x World_scheme \<Rightarrow> (ActionError + 'a) \<times> 'x World_scheme"
type_synonym 'x transform_fn = "Job \<Rightarrow> 'x World_scheme \<Rightarrow> (ActionError + TransformResult) \<times> Job \<times> 'x World_scheme"

text \<open>The dispatcher of a check or target, and the dispatcher of a transform.\<close>
type_synonym ('x, 'a) sched = "Job \<Rightarrow> DispatchGuard \<Rightarrow> ('x World_scheme \<Rightarrow> (ActionError + 'a) \<times> 'x World_scheme)
    \<Rightarrow> 'x World_scheme \<Rightarrow> (ActionError + 'a) \<times> 'x World_scheme"
type_synonym 'x sched_transform = "Job \<Rightarrow> DispatchGuard
    \<Rightarrow> ('x World_scheme \<Rightarrow> (ActionError + TransformResult) \<times> Job \<times> 'x World_scheme)
    \<Rightarrow> 'x World_scheme \<Rightarrow> (ActionError + TransformResult) \<times> Job option \<times> 'x World_scheme"

text \<open>Each action carries its \<open>describe\<close> output, its optional dispatcher with the effect of closing it,
  and its optional override of \<open>silent\<close>.\<close>
datatype 'x Action =
    Check "('x, CheckResult) action_fn" json "(('x, CheckResult) sched \<times> ('x World_scheme \<Rightarrow> 'x World_scheme)) option" "bool option"
  | Transform "'x transform_fn" json "('x sched_transform \<times> ('x World_scheme \<Rightarrow> 'x World_scheme)) option" "bool option"
  | Target "('x, TargetResult) action_fn" json "(('x, TargetResult) sched \<times> ('x World_scheme \<Rightarrow> 'x World_scheme)) option" "bool option"
  | Switch "'x Route list"
and 'x Route = Route string "'x Action list"

section \<open>Structure\<close>

definition is_terminal :: "'x Action \<Rightarrow> bool" where
  "is_terminal a = (case a of Target _ _ _ _ \<Rightarrow> True | Switch _ \<Rightarrow> True | _ \<Rightarrow> False)"

definition silent_override :: "'x Action \<Rightarrow> bool option" where
  "silent_override a = (case a of Check _ _ _ o' \<Rightarrow> o' | Transform _ _ _ o' \<Rightarrow> o' | Target _ _ _ o' \<Rightarrow> o' | Switch _ \<Rightarrow> None)"

definition describe :: "'x Action \<Rightarrow> json" where
  "describe a = (case a of Check _ d _ _ \<Rightarrow> d | Transform _ d _ _ \<Rightarrow> d | Target _ d _ _ \<Rightarrow> d | Switch _ \<Rightarrow> JObject [])"

primrec route_name :: "'x Route \<Rightarrow> string" where
  "route_name (Route name actions) = name"

definition route_names :: "'x Route list \<Rightarrow> string list" where
  "route_names routes = map route_name routes"

definition non_empty_object :: "json \<Rightarrow> bool" where
  "non_empty_object v = (case v of JObject kvs \<Rightarrow> kvs \<noteq> [] | _ \<Rightarrow> False)"

fun describe_actions :: "'x Route list \<Rightarrow> json list"
and describe_route_actions :: "'x Action list \<Rightarrow> json list" where
  "describe_actions [] = []"
| "describe_actions (Route name actions # routes) = describe_route_actions actions @ describe_actions routes"
| "describe_route_actions [] = []"
| "describe_route_actions (action # actions) =
    (let desc = describe action in
     (if non_empty_object desc then [desc] else []) @
     (case action of Switch routes \<Rightarrow> describe_actions routes | _ \<Rightarrow> []) @
     describe_route_actions actions)"

fun close_all :: "'x Route list \<Rightarrow> 'x World_scheme \<Rightarrow> 'x World_scheme"
and close_actions :: "'x Action list \<Rightarrow> 'x World_scheme \<Rightarrow> 'x World_scheme" where
  "close_all [] w = w"
| "close_all (Route name actions # routes) w = close_all routes (close_actions actions w)"
| "close_actions [] w = w"
| "close_actions (action # actions) w =
    close_actions actions
      (case action of
         Check _ _ (Some d) _ \<Rightarrow> snd d w
       | Transform _ _ (Some d) _ \<Rightarrow> snd d w
       | Target _ _ (Some d) _ \<Rightarrow> snd d w
       | Switch routes \<Rightarrow> close_all routes w
       | _ \<Rightarrow> w)"

section \<open>Validation\<close>

text \<open>\<open>validate_actions name index n actions\<close> is the loop of \<open>validate_route\<close> at \<open>index\<close>, for a route of
  \<open>n\<close> actions.\<close>
fun validate :: "'x Route list \<Rightarrow> RoutingError + unit"
and validate_actions :: "string \<Rightarrow> nat \<Rightarrow> nat \<Rightarrow> 'x Action list \<Rightarrow> RoutingError + unit" where
  "validate [] = Inr ()"
| "validate (Route name actions # routes) =
    (case (if actions = [] then Inl (InvalidRoute name ''must not be empty'')
           else validate_actions name 0 (length actions) actions) of
       Inl e \<Rightarrow> Inl e
     | Inr _ \<Rightarrow> validate routes)"
| "validate_actions name index n [] = Inl (MissingTarget name)"
| "validate_actions name index n (action # actions) =
    (case (case action of Switch routes \<Rightarrow> validate routes | _ \<Rightarrow> Inr ()) of
       Inl e \<Rightarrow> Inl e
     | Inr _ \<Rightarrow>
         if is_terminal action \<and> index + 1 \<noteq> n
         then Inl (InvalidRoute name
           (''unreachable action(s) after terminal step at index '' @ show_uint (int index)))
         else if is_terminal action then Inr ()
         else validate_actions name (index + 1) n actions)"

section \<open>Dispatch\<close>

text \<open>How a route ends: a result, a rejection (with its reason unless silent), or the end of its actions.\<close>
datatype route_end = RouteDone JobResult | RouteRejected "string option" | FellThrough

definition rejected :: "bool option \<Rightarrow> string \<Rightarrow> bool \<Rightarrow> route_end" where
  "rejected override reason silent = RouteRejected (if unwrap_or override silent then None else Some reason)"

text \<open>\<open>Cow::to_mut\<close>: a borrowed job is cloned first.\<close>
definition to_mut :: "bool \<Rightarrow> Job \<Rightarrow> Job" where
  "to_mut owned job = (if owned then job else job_clone job)"

definition arc_still_shared :: ActionError where
  "arc_still_shared = ResourceError ''transform Arc still shared after dispatch''"

definition run_check :: "('x, CheckResult) action_fn \<Rightarrow> (('x, CheckResult) sched \<times> ('x World_scheme \<Rightarrow> 'x World_scheme)) option
    \<Rightarrow> Job \<Rightarrow> 'x World_scheme \<Rightarrow> (ActionError + CheckResult) \<times> 'x World_scheme" where
  "run_check evaluate dispatcher job w =
    (case dispatcher of
       Some d \<Rightarrow> fst d job DG_Cancelled (evaluate (job_clone job)) w
     | None \<Rightarrow> evaluate job w)"

text \<open>The result of a transform with the job it leaves for the next action (and whether it is owned).\<close>
definition run_transform :: "'x transform_fn \<Rightarrow> ('x sched_transform \<times> ('x World_scheme \<Rightarrow> 'x World_scheme)) option
    \<Rightarrow> bool \<Rightarrow> Job \<Rightarrow> 'x World_scheme \<Rightarrow> (ActionError + TransformResult) \<times> (bool \<times> Job) \<times> 'x World_scheme" where
  "run_transform execute dispatcher owned job w =
    (case dispatcher of
       Some d \<Rightarrow>
         (case fst d job DG_Cancelled (execute (job_clone job)) w of
            (Inr Continue, Some modified, w) \<Rightarrow> (Inr Continue, (True, modified), w)
          | (Inr Continue, None, w) \<Rightarrow> (Inl arc_still_shared, (owned, job), w)
          | (r, _, w) \<Rightarrow> (r, (owned, job), w))
     | None \<Rightarrow> (case execute (to_mut owned job) w of (r, job, w) \<Rightarrow> (r, (True, job), w)))"

definition run_target :: "('x, TargetResult) action_fn \<Rightarrow> (('x, TargetResult) sched \<times> ('x World_scheme \<Rightarrow> 'x World_scheme)) option
    \<Rightarrow> Job \<Rightarrow> 'x World_scheme \<Rightarrow> (ActionError + TargetResult) \<times> 'x World_scheme" where
  "run_target dispatch dispatcher job w =
    (case dispatcher of
       Some d \<Rightarrow> fst d job DG_CancelledOrClientGone (dispatch (job_clone job)) w
     | None \<Rightarrow>
         if is_cancelled (w_heap w) job then (Inl AE_Cancelled, w)
         else if \<not> client_present (w_now w) (w_heap w) job then (Inl AE_ClientGone, w)
         else dispatch job w)"

definition no_route_matched :: TargetResult where
  "no_route_matched = TargetReject ''no route matched the request'' True"

primrec join :: "string \<Rightarrow> string list \<Rightarrow> string" where
  "join sep [] = []"
| "join sep (x # xs) = (if xs = [] then x else x @ sep @ join sep xs)"

definition all_rejected :: "string list \<Rightarrow> TargetResult" where
  "all_rejected rejections = (if rejections = [] then no_route_matched else TargetReject (join ''; '' rejections) False)"

fun run_routes :: "'x Route list \<Rightarrow> Job \<Rightarrow> string list \<Rightarrow> 'x World_scheme \<Rightarrow> (ActionError + TargetResult) \<times> 'x World_scheme"
and run_actions :: "'x Action list \<Rightarrow> bool \<Rightarrow> Job \<Rightarrow> 'x World_scheme \<Rightarrow> (ActionError + route_end) \<times> 'x World_scheme" where
  "run_routes [] job rejections w = (Inr (all_rejected rejections), w)"
| "run_routes (Route name actions # routes) job rejections w =
    (case run_actions actions False job w of
       (Inl e, w) \<Rightarrow> (Inl e, w)
     | (Inr (RouteDone r), w) \<Rightarrow> (Inr (Complete r), w)
     | (Inr (RouteRejected (Some reason)), w) \<Rightarrow> run_routes routes job (rejections @ [reason]) w
     | (Inr (RouteRejected None), w) \<Rightarrow> run_routes routes job rejections w
     | (Inr FellThrough, w) \<Rightarrow> run_routes routes job rejections w)"
| "run_actions [] owned job w = (Inr FellThrough, w)"
| "run_actions (action # actions) owned job w =
    (if is_cancelled (w_heap w) job then (Inl AE_Cancelled, w)
     else case action of
       Check evaluate _ dispatcher override \<Rightarrow>
         (case run_check evaluate dispatcher job w of
            (Inl e, w) \<Rightarrow> (Inl e, w)
          | (Inr Pass, w) \<Rightarrow> run_actions actions owned job w
          | (Inr (CheckReject reason silent), w) \<Rightarrow> (Inr (rejected override reason silent), w))
     | Transform execute _ dispatcher override \<Rightarrow>
         (case run_transform execute dispatcher owned job w of
            (Inl e, _, w) \<Rightarrow> (Inl e, w)
          | (Inr Continue, (owned, job), w) \<Rightarrow> run_actions actions owned job w
          | (Inr (TransformReject reason silent), _, w) \<Rightarrow> (Inr (rejected override reason silent), w))
     | Target dispatch _ dispatcher override \<Rightarrow>
         (case run_target dispatch dispatcher job w of
            (Inl e, w) \<Rightarrow> (Inl e, w)
          | (Inr (Complete r), w) \<Rightarrow> (Inr (RouteDone r), w)
          | (Inr (TargetReject reason silent), w) \<Rightarrow> (Inr (rejected override reason silent), w))
     | Switch routes \<Rightarrow>
         (case run_routes routes job [] w of
            (Inl e, w) \<Rightarrow> (Inl e, w)
          | (Inr (Complete r), w) \<Rightarrow> (Inr (RouteDone r), w)
          | (Inr (TargetReject reason silent), w) \<Rightarrow> (Inr (rejected None reason silent), w)))"

definition switch_dispatch :: "'x Route list \<Rightarrow> Job \<Rightarrow> 'x World_scheme \<Rightarrow> (ActionError + TargetResult) \<times> 'x World_scheme" where
  "switch_dispatch routes job w = run_routes routes job [] w"

section \<open>Well-formed route trees\<close>

text \<open>What validation accepts: every route ends in its only terminal action, at every depth.\<close>
fun routes_ok :: "'x Route list \<Rightarrow> bool"
and actions_ok :: "'x Action list \<Rightarrow> bool" where
  "routes_ok [] = True"
| "routes_ok (Route name actions # routes) = (actions_ok actions \<and> routes_ok routes)"
| "actions_ok [] = False"
| "actions_ok (action # actions) =
    (case action of
       Switch routes \<Rightarrow> actions = [] \<and> routes_ok routes
     | Target _ _ _ _ \<Rightarrow> actions = []
     | _ \<Rightarrow> actions_ok actions)"

lemma validate_iff:
  fixes routes :: "'x Route list" and actions :: "'x Action list"
  shows "(validate routes = Inr ()) = routes_ok routes"
  and "n = index + length actions \<Longrightarrow> (validate_actions name index n actions = Inr ()) = actions_ok actions"
proof (induction routes and name index n actions rule: validate_validate_actions.induct)
  case (4 name index n action actions)
  then show ?case by (cases action) (auto simp: is_terminal_def split: sum.splits)
qed (auto split: sum.splits if_splits)

section \<open>The route loop as a search\<close>

text \<open>\<open>reject_chain routes job w reasons w'\<close>: every route of \<open>routes\<close>, run in order from \<open>w\<close> on the
  original job, rejects it; \<open>reasons\<close> are those of the rejections that are not silent.\<close>
fun reject_chain :: "'x Route list \<Rightarrow> Job \<Rightarrow> 'x World_scheme \<Rightarrow> (string list \<times> 'x World_scheme) option" where
  "reject_chain [] job w = Some ([], w)"
| "reject_chain (Route name actions # routes) job w =
    (case run_actions actions False job w of
       (Inr (RouteRejected reason), w1) \<Rightarrow>
         map_option (\<lambda>(reasons, w'). (case reason of None \<Rightarrow> reasons | Some x \<Rightarrow> x # reasons, w'))
           (reject_chain routes job w1)
     | _ \<Rightarrow> None)"

lemma run_actions_not_fell_through:
  "actions_ok actions \<Longrightarrow> fst (run_actions actions owned job w) \<noteq> Inr FellThrough"
proof (induction actions arbitrary: owned job w)
  case (Cons a as)
  show ?case
  proof (cases a)
    case (Check f d s ov)
    then show ?thesis using Cons
      by (cases "run_check f s job w") (auto simp: rejected_def split: sum.splits CheckResult.splits)
  next
    case (Transform f d s ov)
    then show ?thesis using Cons
      by (cases "run_transform f s owned job w")
        (auto simp: rejected_def split: sum.splits TransformResult.splits)
  next
    case (Target f d s ov)
    then show ?thesis using Cons
      by (cases "run_target f s job w") (auto simp: rejected_def split: sum.splits TargetResult.splits)
  next
    case (Switch routes)
    then show ?thesis using Cons
      by (cases "run_routes routes job [] w") (auto simp: rejected_def split: sum.splits TargetResult.splits)
  qed
qed simp

lemma run_routes_append:
  "reject_chain pre job w = Some (reasons, w1) \<Longrightarrow>
    run_routes (pre @ routes) job rs w = run_routes routes job (rs @ reasons) w1"
proof (induction pre arbitrary: rs w reasons)
  case (Cons route pre)
  then show ?case
    by (cases route) (auto split: prod.splits sum.splits route_end.splits option.splits)
qed simp

lemma reject_chain_or_first:
  assumes "routes_ok routes"
  obtains (all) reasons w' where "reject_chain routes job w = Some (reasons, w')"
  | (first) pre name actions post reasons w1 x where "routes = pre @ Route name actions # post"
      "reject_chain pre job w = Some (reasons, w1)" "run_actions actions False job w1 = x"
      "(\<exists>r w'. x = (Inr (RouteDone r), w')) \<or> (\<exists>e w'. x = (Inl e, w'))"
  using assms
proof (induction routes arbitrary: w thesis)
  case (Cons route routes)
  obtain name actions where route: "route = Route name actions" by (cases route)
  obtain x w1 where run: "run_actions actions False job w = (x, w1)" by (rule prod.exhaust)
  consider (fin) r where "x = Inr (RouteDone r)" | (err) e where "x = Inl e"
    | (rej) reason where "x = Inr (RouteRejected reason)"
    using run_actions_not_fell_through[of actions False job w] Cons.prems(3) run route
    by (cases x) (auto intro: route_end.exhaust)
  then show ?case
  proof cases
    case fin
    then show ?thesis using Cons.prems(2)[of "[]" name actions routes] run route by simp
  next
    case err
    then show ?thesis using Cons.prems(2)[of "[]" name actions routes] run route by simp
  next
    case rej
    have ok: "routes_ok routes" using Cons.prems(3) route by simp
    show ?thesis
    proof (rule Cons.IH[OF _ _ ok, where w=w1], goal_cases)
      case (1 reasons w')
      then show ?thesis using Cons.prems(1) rej run route by (auto split: option.splits)
    next
      case (2 pre n as post reasons w2 y)
      then show ?thesis
        using Cons.prems(2)[of "route # pre" n as post _ w2 y] rej run route by (auto split: option.splits)
    qed
  qed
qed simp

text \<open>C34 On a validated switch the routes are tried in order, each from the original job, and the first
  that does not reject decides: its result is the switch's result, its error the switch's error, and no
  later route runs.  When every route rejects, the non-silent reasons are joined in route order, and with
  none of them the rejection is the silent ``no route matched the request''.\<close>
theorem switch_first_route_decides:
  assumes "validate routes = Inr ()"
  shows "(\<exists>reasons w'. reject_chain routes job w = Some (reasons, w')
           \<and> switch_dispatch routes job w =
               (Inr (if reasons = [] then TargetReject ''no route matched the request'' True
                     else TargetReject (join ''; '' reasons) False), w'))
       \<or> (\<exists>pre name actions post reasons w1 w'. routes = pre @ Route name actions # post
           \<and> reject_chain pre job w = Some (reasons, w1)
           \<and> ((\<exists>r. run_actions actions False job w1 = (Inr (RouteDone r), w')
                 \<and> switch_dispatch routes job w = (Inr (Complete r), w'))
            \<or> (\<exists>e. run_actions actions False job w1 = (Inl e, w')
                 \<and> switch_dispatch routes job w = (Inl e, w'))))"
proof -
  have "routes_ok routes" using assms validate_iff(1) by blast
  then show ?thesis
  proof (cases rule: reject_chain_or_first[where job=job and w=w])
    case (all reasons w')
    then have "switch_dispatch routes job w = (Inr (all_rejected reasons), w')"
      using run_routes_append[OF all, of "[]" "[]"] by (simp add: switch_dispatch_def)
    with all show ?thesis by (auto simp: all_rejected_def no_route_matched_def)
  next
    case (first pre name actions post reasons w1 x)
    then have "switch_dispatch routes job w = run_routes (Route name actions # post) job reasons w1"
      using run_routes_append[OF first(2), of "Route name actions # post" "[]"]
      by (simp add: switch_dispatch_def)
    with first show ?thesis by (intro disjI2 exI[of _ pre]) fastforce
  qed
qed

text \<open>Validation accepts exactly the trees in which every route, nested ones included, is non-empty
  and has its one terminal action in last position; and no route of such a tree runs past its last action.\<close>
lemma validate_characterised:
  "(validate routes = Inr ()) = routes_ok routes
    \<and> (actions_ok actions \<longrightarrow> fst (run_actions actions owned job w) \<noteq> Inr FellThrough)"
  using run_actions_not_fell_through[of actions owned job w]
  by (simp add: validate_iff(1))


text \<open>A switch with a failing check, then a nested switch whose only target rejects, then a target.\<close>
definition demo_routes :: "unit Route list" where
  "demo_routes =
    [Route ''a'' [Check (\<lambda>j w. (Inr (CheckReject ''no role'' False), w)) JNull None None,
                  Target (\<lambda>j w. (Inr (Complete JR_Cancelled), w)) JNull None None],
     Route ''b'' [Switch [Route ''b1'' [Target (\<lambda>j w. (Inr (TargetReject ''full'' False), w)) JNull None (Some True)]]],
     Route ''c'' [Target (\<lambda>j w. (Inr (TargetReject ''late'' True), w)) JNull None (Some False)]]"

definition demo_world :: World where
  "demo_world = \<lparr> w_heap = (set_reconnect_deadline demo_job 10 demo_heap), w_now = 5 \<rparr>"

lemma demo_world_live:
  "is_cancelled (w_heap demo_world) demo_job = False"
  "client_present (w_now demo_world) (w_heap demo_world) demo_job = True"
  by code_simp+

lemma demo_routes_valid: "validate demo_routes = Inr ()"
  by (simp add: is_terminal_def demo_routes_def)

theorem switch_first_route_decides_witness:
  "switch_dispatch demo_routes demo_job demo_world = (Inr (TargetReject ''no role; late'' False), demo_world)"
  using switch_first_route_decides[OF demo_routes_valid, of demo_job demo_world]
  by (auto simp: demo_routes_def run_target_def run_check_def demo_world_live rejected_def unwrap_or_def
      Cons_eq_append_conv all_rejected_def no_route_matched_def)

section \<open>Nothing runs for a cancelled job or a departed client\<close>

text \<open>\<open>shield\<close> replaces what an inline action does on a cancelled job (and what an inline target does once
  the client has gone) by arbitrary code.\<close>
fun shield_routes :: "('x, CheckResult) action_fn \<Rightarrow> 'x transform_fn \<Rightarrow> ('x, TargetResult) action_fn
    \<Rightarrow> 'x Route list \<Rightarrow> 'x Route list"
and shield_actions :: "('x, CheckResult) action_fn \<Rightarrow> 'x transform_fn \<Rightarrow> ('x, TargetResult) action_fn
    \<Rightarrow> 'x Action list \<Rightarrow> 'x Action list" where
  "shield_routes gc gt gg [] = []"
| "shield_routes gc gt gg (Route name actions # routes) =
    Route name (shield_actions gc gt gg actions) # shield_routes gc gt gg routes"
| "shield_actions gc gt gg [] = []"
| "shield_actions gc gt gg (action # actions) =
    (case action of
       Check f d None ov \<Rightarrow> Check (\<lambda>j w. if is_cancelled (w_heap w) j then gc j w else f j w) d None ov
     | Transform f d None ov \<Rightarrow> Transform (\<lambda>j w. if is_cancelled (w_heap w) j then gt j w else f j w) d None ov
     | Target f d None ov \<Rightarrow>
         Target (\<lambda>j w. if is_cancelled (w_heap w) j \<or> \<not> client_present (w_now w) (w_heap w) j then gg j w else f j w) d None ov
     | Switch routes \<Rightarrow> Switch (shield_routes gc gt gg routes)
     | a \<Rightarrow> a) # shield_actions gc gt gg actions"

lemma is_cancelled_to_mut [simp]: "is_cancelled h (to_mut owned job) = is_cancelled h job"
  by (simp add: to_mut_def is_cancelled_def)

lemma shield_irrelevant:
  fixes routes :: "'x Route list" and actions :: "'x Action list"
  shows "run_routes (shield_routes gc gt gg routes) job rs w = run_routes routes job rs w"
  and "run_actions (shield_actions gc gt gg actions) owned job w = run_actions actions owned job w"
proof (induction routes job rs w and actions owned job w rule: run_routes_run_actions.induct)
  case (2 name actions routes job rejections w)
  then show ?case by (cases "run_actions actions False job w") (auto split: sum.splits route_end.splits option.splits)
next
  case (4 action actions owned job w)
  show ?case
  proof (cases "is_cancelled (w_heap w) job")
    case False
    show ?thesis
    proof (cases action)
      case (Check f d s ov)
      have "run_check (\<lambda>j w. if is_cancelled (w_heap w) j then gc j w else f j w) None job w = run_check f None job w"
        using False by (simp add: run_check_def)
      then show ?thesis using 4(1)[OF False Check] False Check
        by (cases s; cases "run_check f s job w") (auto split: sum.splits CheckResult.splits)
    next
      case (Transform f d s ov)
      have "run_transform (\<lambda>j w. if is_cancelled (w_heap w) j then gt j w else f j w) None owned job w
          = run_transform f None owned job w"
        using False by (simp add: run_transform_def)
      then show ?thesis using 4(2)[OF False Transform] False Transform
        by (cases s; cases "run_transform f s owned job w") (auto split: sum.splits TransformResult.splits)
    next
      case (Target f d s ov)
      have "run_target (\<lambda>j w. if is_cancelled (w_heap w) j \<or> \<not> client_present (w_now w) (w_heap w) j then gg j w else f j w) None job w
          = run_target f None job w"
        using False by (simp add: run_target_def)
      then show ?thesis using False Target
        by (cases s; cases "run_target f s job w") (auto split: sum.splits TargetResult.splits)
    next
      case (Switch routes)
      then show ?thesis using 4(3)[OF False Switch] False by simp
    qed
  qed (simp split: Action.splits)
qed simp_all

lemma cancelled_stops_first:
  "routes_ok routes \<Longrightarrow> routes \<noteq> [] \<Longrightarrow> is_cancelled (w_heap w) job \<Longrightarrow>
    run_routes routes job rs w = (Inl AE_Cancelled, w)"
proof (cases routes)
  case (Cons r rs')
  assume "routes_ok routes" "is_cancelled (w_heap w) job"
  with Cons show ?thesis by (cases r; cases "case r of Route _ as \<Rightarrow> as") auto
qed simp

text \<open>C37 A validated switch given a cancelled job reports the cancellation and touches nothing; and at any
  point of the routing, what an inline action would do on a cancelled job, or an inline target once the
  client has gone, makes no difference, so that none of them is ever run then.\<close>
theorem cancelled_or_gone_runs_nothing:
  "(validate routes = Inr () \<longrightarrow> routes \<noteq> [] \<longrightarrow> is_cancelled (w_heap w) job \<longrightarrow>
      switch_dispatch routes job w = (Inl AE_Cancelled, w))
    \<and> switch_dispatch (shield_routes gc gt gg routes) job w = switch_dispatch routes job w"
  using cancelled_stops_first[of routes w job "[]"]
  by (auto simp: switch_dispatch_def shield_irrelevant(1) validate_iff(1))

theorem cancelled_or_gone_runs_nothing_witness:
  "switch_dispatch demo_routes demo_job (demo_world\<lparr> w_heap := request_cancel demo_job demo_heap \<rparr>)
    = (Inl AE_Cancelled, demo_world\<lparr> w_heap := request_cancel demo_job demo_heap \<rparr>)"
proof -
  have "is_cancelled (request_cancel demo_job demo_heap) demo_job" by code_simp
  moreover have "demo_routes \<noteq> []" by (simp add: demo_routes_def)
  ultimately show ?thesis
    using cancelled_or_gone_runs_nothing[of demo_routes
        "demo_world\<lparr> w_heap := request_cancel demo_job demo_heap \<rparr>" demo_job] demo_routes_valid
    by simp
qed

end
