(* ===== verification/Remote_Pool.thy ===== *)
theory Remote_Pool
  imports Switch_Routing Fifo_Queue
begin

text \<open>
  The remote pool executor (\<open>bits/src/dispatcher/executor/remote_pool.rs\<close>): external workers take
  jobs over HTTP, keep them alive by heartbeats and post an outcome; a reaper evicts stale jobs.

  Two oneshot channels carry a result: the worker's outcome to a waiter task, and the waiter's
  translation to the suspended \<open>dispatch\<close> caller.  Channels are cells of the state, named by
  numbers, and record whether a side is gone.  A handler runs as one step; the only thing that can
  happen to it in between is that the caller's future is dropped, which its send then ignores.
  The HTTP library's conversion of a header value to text is the argument \<open>to_str\<close>.
\<close>

section \<open>Channels\<close>

datatype 'a oneshot = Unsent | Sent 'a | SenderGone | ReceiverGone

definition oneshot_send :: "'a \<Rightarrow> 'a oneshot \<Rightarrow> 'a oneshot" where
  "oneshot_send v c = (case c of Unsent \<Rightarrow> Sent v | _ \<Rightarrow> c)"

definition drop_sender :: "'a oneshot \<Rightarrow> 'a oneshot" where
  "drop_sender c = (case c of Unsent \<Rightarrow> SenderGone | _ \<Rightarrow> c)"

definition oneshot_is_closed :: "'a oneshot \<Rightarrow> bool" where
  "oneshot_is_closed c = (case c of ReceiverGone \<Rightarrow> True | _ \<Rightarrow> False)"

section \<open>State\<close>

datatype WorkerOutcome =
    WO_Complete string int ByteStream
  | WO_Redirect string string "string option" "u64 option"
  | WO_Reject string
  | WO_Error string

record InProgressJob =
  ip_result_tx :: nat
  ip_last_heartbeat :: instant

text \<open>An entry of the pending map: its guard, its reply channel, and whether its work future holds a
  user-limit guard.\<close>
record PendingItem =
  pi_guard :: DispatchGuard
  pi_reply :: nat
  pi_user_guard :: bool

text \<open>The shared state, followed by the channels, the spawned waiter tasks (outcome channel and reply
  channel), the free permits, the live user-limit guards, the depth metric and the job lifecycles.\<close>
record 'q RemotePoolState =
  rp_queue :: 'q
  rp_pending :: "(string \<times> PendingItem) list"
  rp_in_progress :: "(string \<times> InProgressJob) list"
  rp_heartbeat_timeout :: duration
  rp_callback_url :: "string option"
  rp_outcomes :: "nat \<Rightarrow> WorkerOutcome oneshot"
  rp_next :: nat
  rp_replies :: "nat \<Rightarrow> (ActionError + TargetResult) oneshot"
  rp_waiters :: "(nat \<times> nat) list"
  rp_permits :: nat
  rp_user_guards :: "string list"
  rp_depth :: int
  rp_heap :: Heap

record WorkResponse =
  wr_job_id :: string
  wr_request :: json
  wr_user :: json
  wr_metadata :: json
  wr_callback_url :: "string option"

type_synonym StatusCode = nat
definition NO_CONTENT :: StatusCode where "NO_CONTENT = 204"
definition OK :: StatusCode where "OK = 200"
definition NOT_FOUND :: StatusCode where "NOT_FOUND = 404"

definition send_reply :: "nat \<Rightarrow> (ActionError + TargetResult) \<Rightarrow> 'q RemotePoolState \<Rightarrow> 'q RemotePoolState" where
  "send_reply r v st = st\<lparr> rp_replies := (rp_replies st)(r := oneshot_send v (rp_replies st r)) \<rparr>"

definition drop_outcome_tx :: "nat \<Rightarrow> 'q RemotePoolState \<Rightarrow> 'q RemotePoolState" where
  "drop_outcome_tx c st = st\<lparr> rp_outcomes := (rp_outcomes st)(c := drop_sender (rp_outcomes st c)) \<rparr>"

section \<open>Taking work\<close>

text \<open>Inserting into \<open>in_progress\<close> drops the entry it replaces, with its sender.\<close>
definition insert_in_progress :: "string \<Rightarrow> instant \<Rightarrow> nat \<Rightarrow> 'q RemotePoolState \<Rightarrow> 'q RemotePoolState" where
  "insert_in_progress jid now c st =
    (let st = (case map_of (rp_in_progress st) jid of
                 None \<Rightarrow> st | Some old \<Rightarrow> drop_outcome_tx (ip_result_tx old) st)
     in st\<lparr> rp_in_progress := (jid, \<lparr> ip_result_tx = c, ip_last_heartbeat = now \<rparr>) # AList.delete jid (rp_in_progress st) \<rparr>)"

text \<open>Removing the pending entry: the permit is released and the dequeue recorded at once, the work
  future with its user-limit guard is dropped when the handler returns.\<close>
definition take_pending :: "string \<Rightarrow> PendingItem \<Rightarrow> 'q RemotePoolState \<Rightarrow> 'q RemotePoolState" where
  "take_pending jid item st = st\<lparr>
     rp_pending := AList.delete jid (rp_pending st),
     rp_permits := Suc (rp_permits st),
     rp_depth := rp_depth st - 1,
     rp_user_guards := (if pi_user_guard item then remove1 jid (rp_user_guards st) else rp_user_guards st) \<rparr>"

definition hand_over :: "Job \<Rightarrow> instant \<Rightarrow> nat \<Rightarrow> 'q RemotePoolState \<Rightarrow> WorkResponse \<times> 'q RemotePoolState" where
  "hand_over job now reply st =
    (let c = rp_next st;
         st = st\<lparr> rp_next := Suc c, rp_outcomes := (rp_outcomes st)(c := Unsent) \<rparr>;
         st = insert_in_progress (job_id job) now c st;
         st = st\<lparr> rp_heap := mark_processing job (rp_heap st) \<rparr>;
         st = st\<lparr> rp_waiters := rp_waiters st @ [(c, reply)] \<rparr>
     in (\<lparr> wr_job_id = job_id job, wr_request = job_request job, wr_user = job_user job,
           wr_metadata = job_metadata job, wr_callback_url = rp_callback_url st \<rparr>, st))"

definition handle_get_work ::
  "('q \<Rightarrow> Job dequeued \<times> 'q) \<Rightarrow> instant \<Rightarrow> 'q RemotePoolState \<Rightarrow> (StatusCode + WorkResponse) \<times> 'q RemotePoolState" where
  "handle_get_work dequeue now st =
    (case dequeue (rp_queue st) of
       (Waiting, q) \<Rightarrow> (Inl NO_CONTENT, st\<lparr> rp_queue := q \<rparr>)
     | (EndOfQueue, q) \<Rightarrow> (Inl NO_CONTENT, st\<lparr> rp_queue := q \<rparr>)
     | (Got job, q) \<Rightarrow>
         let st = st\<lparr> rp_queue := q \<rparr> in
         case map_of (rp_pending st) (job_id job) of
           None \<Rightarrow> (Inl NO_CONTENT, st)
         | Some item \<Rightarrow>
             let st = take_pending (job_id job) item st in
             if oneshot_is_closed (rp_replies st (pi_reply item)) then (Inl NO_CONTENT, st)
             else case guard_error (pi_guard item) (is_cancelled (rp_heap st) job)
                         (client_present now (rp_heap st) job) of
               Some e \<Rightarrow> (Inl NO_CONTENT, send_reply (pi_reply item) (Inl e) st)
             | None \<Rightarrow> (case hand_over job now (pi_reply item) st of (resp, st) \<Rightarrow> (Inr resp, st)))"

section \<open>The waiter task\<close>

definition translate_outcome :: "WorkerOutcome \<Rightarrow> TargetResult" where
  "translate_outcome outcome =
    (case outcome of
       WO_Complete content_type sz stream \<Rightarrow> Complete (JR_Success content_type sz stream)
     | WO_Redirect location message content_type content_length \<Rightarrow>
         Complete (JR_Redirect location message content_type content_length)
     | WO_Reject reason \<Rightarrow> TargetReject reason True
     | WO_Error message \<Rightarrow> Complete (JR_Error message))"

definition worker_lost :: ActionError where
  "worker_lost = ResourceError ''worker heartbeat timeout or disconnect''"

text \<open>The waiter on outcome channel \<open>c\<close>: \<open>None\<close> while it is still suspended.\<close>
definition waiter_step :: "nat \<Rightarrow> 'q RemotePoolState \<Rightarrow> 'q RemotePoolState option" where
  "waiter_step c st =
    (case map_of (rp_waiters st) c of
       None \<Rightarrow> None
     | Some r \<Rightarrow>
         let finish = (\<lambda>v. Some (send_reply r v (st\<lparr> rp_waiters := AList.delete c (rp_waiters st) \<rparr>)))
         in case rp_outcomes st c of
              Sent outcome \<Rightarrow> finish (Inr (translate_outcome outcome))
            | SenderGone \<Rightarrow> finish (Inl worker_lost)
            | _ \<Rightarrow> None)"

section \<open>Heartbeats and completions\<close>

definition handle_heartbeat :: "instant \<Rightarrow> string \<Rightarrow> 'q RemotePoolState \<Rightarrow> StatusCode \<times> 'q RemotePoolState" where
  "handle_heartbeat now jid st =
    (case map_of (rp_in_progress st) jid of
       Some entry \<Rightarrow> (OK, st\<lparr> rp_in_progress := (jid, entry\<lparr> ip_last_heartbeat := now \<rparr>) # AList.delete jid (rp_in_progress st) \<rparr>)
     | None \<Rightarrow> (NOT_FOUND, st))"

text \<open>\<open>in_progress.remove\<close> and the send on its channel, as every completion handler does them.\<close>
definition complete :: "string \<Rightarrow> WorkerOutcome \<Rightarrow> 'q RemotePoolState \<Rightarrow> StatusCode \<times> 'q RemotePoolState" where
  "complete jid outcome st =
    (case map_of (rp_in_progress st) jid of
       None \<Rightarrow> (NOT_FOUND, st)
     | Some entry \<Rightarrow>
         (OK, st\<lparr> rp_in_progress := AList.delete jid (rp_in_progress st),
                  rp_outcomes := (rp_outcomes st)(ip_result_tx entry :=
                    oneshot_send outcome (rp_outcomes st (ip_result_tx entry))) \<rparr>))"

definition is_digit :: "char \<Rightarrow> bool" where
  "is_digit c \<longleftrightarrow> CHR ''0'' \<le> c \<and> c \<le> CHR ''9''"

definition digits_value :: "string \<Rightarrow> int" where
  "digits_value ds = foldl (\<lambda>v c. 10 * v + (int (of_char c) - 48)) 0 ds"

text \<open>\<open>str::parse::<i64>\<close>: an optional sign, at least one digit, and the value in range.\<close>
definition parse_i64 :: "string \<Rightarrow> int option" where
  "parse_i64 s =
    (let neg = (case s of c # _ \<Rightarrow> c = CHR ''-'' | [] \<Rightarrow> False);
         ds = (case s of c # cs \<Rightarrow> if c = CHR ''-'' \<or> c = CHR ''+'' then cs else s | [] \<Rightarrow> []);
         v = (if neg then - digits_value ds else digits_value ds)
     in if ds = [] \<or> \<not> list_all is_digit ds then None
        else if - (2 ^ 63) \<le> v \<and> v < 2 ^ 63 then Some v else None)"

definition octet_stream :: string where "octet_stream = ''application/octet-stream''"

definition data_content_type :: "(string \<Rightarrow> string option) \<Rightarrow> string option \<Rightarrow> string" where
  "data_content_type to_str hdr =
    (case hdr of
       Some value \<Rightarrow> (case to_str value of Some s \<Rightarrow> s | None \<Rightarrow> octet_stream)
     | None \<Rightarrow> octet_stream)"

definition data_size :: "(string \<Rightarrow> string option) \<Rightarrow> string option \<Rightarrow> int" where
  "data_size to_str hdr =
    (case hdr of
       Some value \<Rightarrow>
         (case to_str value of
            Some s \<Rightarrow> (case parse_i64 s of Some n \<Rightarrow> if n \<ge> 0 then n else - 1 | None \<Rightarrow> - 1)
          | None \<Rightarrow> - 1)
     | None \<Rightarrow> - 1)"

text \<open>What the forwarding task passes on of the request body: it stops at the first error.\<close>
fun forward_body :: "ByteStream \<Rightarrow> ByteStream" where
  "forward_body [] = []"
| "forward_body (Inr bytes # body) = Inr bytes # forward_body body"
| "forward_body (Inl err # body) = [Inl err]"

definition handle_complete_data :: "(string \<Rightarrow> string option) \<Rightarrow> string \<Rightarrow> string option \<Rightarrow> string option \<Rightarrow> ByteStream
    \<Rightarrow> 'q RemotePoolState \<Rightarrow> StatusCode \<times> 'q RemotePoolState" where
  "handle_complete_data to_str jid content_type content_length body =
    complete jid (WO_Complete (data_content_type to_str content_type) (data_size to_str content_length) (forward_body body))"

definition handle_complete_redirect :: "string \<Rightarrow> string \<Rightarrow> string \<Rightarrow> string option \<Rightarrow> u64 option
    \<Rightarrow> 'q RemotePoolState \<Rightarrow> StatusCode \<times> 'q RemotePoolState" where
  "handle_complete_redirect jid location message content_type content_length =
    complete jid (WO_Redirect location message content_type content_length)"

definition handle_complete_reject :: "string \<Rightarrow> string \<Rightarrow> 'q RemotePoolState \<Rightarrow> StatusCode \<times> 'q RemotePoolState" where
  "handle_complete_reject jid reason = complete jid (WO_Reject reason)"

definition handle_complete_error :: "string \<Rightarrow> string \<Rightarrow> 'q RemotePoolState \<Rightarrow> StatusCode \<times> 'q RemotePoolState" where
  "handle_complete_error jid message = complete jid (WO_Error message)"

text \<open>The routes of the pool which a worker posts to.\<close>
datatype WorkerPost =
    Heartbeat string
  | CompleteData string "string option" "string option" ByteStream
  | CompleteRedirect string string string "string option" "u64 option"
  | CompleteReject string string
  | CompleteError string string

definition worker_post :: "(string \<Rightarrow> string option) \<Rightarrow> instant \<Rightarrow> WorkerPost \<Rightarrow> 'q RemotePoolState \<Rightarrow> StatusCode \<times> 'q RemotePoolState" where
  "worker_post to_str now p =
    (case p of
       Heartbeat jid \<Rightarrow> handle_heartbeat now jid
     | CompleteData jid ct cl body \<Rightarrow> handle_complete_data to_str jid ct cl body
     | CompleteRedirect jid loc msg ct cl \<Rightarrow> handle_complete_redirect jid loc msg ct cl
     | CompleteReject jid reason \<Rightarrow> handle_complete_reject jid reason
     | CompleteError jid message \<Rightarrow> handle_complete_error jid message)"

section \<open>The reaper\<close>

definition alive :: "instant \<Rightarrow> duration \<Rightarrow> InProgressJob \<Rightarrow> bool" where
  "alive now timeout entry \<longleftrightarrow> now - ip_last_heartbeat entry < timeout"

primrec drop_entries :: "(string \<times> InProgressJob) list \<Rightarrow> 'q RemotePoolState \<Rightarrow> 'q RemotePoolState" where
  "drop_entries [] st = st"
| "drop_entries (e # es) st = drop_entries es (drop_outcome_tx (ip_result_tx (snd e)) st)"

definition reaper_tick :: "instant \<Rightarrow> 'q RemotePoolState \<Rightarrow> 'q RemotePoolState" where
  "reaper_tick now st =
    (let ok = (\<lambda>e. alive now (rp_heartbeat_timeout st) (snd e))
     in drop_entries (filter (\<lambda>e. \<not> ok e) (rp_in_progress st))
          (st\<lparr> rp_in_progress := filter ok (rp_in_progress st) \<rparr>))"

definition reaper_shutdown :: "'q RemotePoolState \<Rightarrow> 'q RemotePoolState" where
  "reaper_shutdown st = drop_entries (rp_in_progress st) (st\<lparr> rp_in_progress := [] \<rparr>)"

definition remote_pool_new :: "'q \<Rightarrow> duration \<Rightarrow> string option \<Rightarrow> nat \<Rightarrow> Heap \<Rightarrow> 'q RemotePoolState" where
  "remote_pool_new queue heartbeat_timeout callback_url permits heap =
    \<lparr> rp_queue = queue, rp_pending = [], rp_in_progress = [], rp_heartbeat_timeout = heartbeat_timeout,
      rp_callback_url = callback_url, rp_outcomes = (\<lambda>_. Unsent), rp_next = 0, rp_replies = (\<lambda>_. Unsent),
      rp_waiters = [], rp_permits = permits, rp_user_guards = [], rp_depth = 0, rp_heap = heap \<rparr>"

section \<open>The pool as a transition system\<close>

text \<open>Everything that happens to the pool: worker requests, waiter tasks and the reaper, and from the
  dispatcher's side an item enters or leaves the pending map, a caller's future is dropped, and queue and
  lifecycles change.\<close>
inductive remote_step :: "('q \<Rightarrow> Job dequeued \<times> 'q) \<Rightarrow> (string \<Rightarrow> string option) \<Rightarrow> 'q RemotePoolState \<Rightarrow> 'q RemotePoolState \<Rightarrow> bool"
  for dequeue to_str where
  get_work: "remote_step dequeue to_str st (snd (handle_get_work dequeue now st))"
| post: "remote_step dequeue to_str st (snd (worker_post to_str now p st))"
| waiter: "waiter_step c st = Some st' \<Longrightarrow> remote_step dequeue to_str st st'"
| tick: "remote_step dequeue to_str st (reaper_tick now st)"
| shutdown: "remote_step dequeue to_str st (reaper_shutdown st)"
| dispatch: "rp_replies st r = Unsent \<Longrightarrow> r \<notin> snd ` set (rp_waiters st) \<Longrightarrow> map_of (rp_pending st) jid = None \<Longrightarrow>
    r \<notin> pi_reply ` snd ` set (rp_pending st) \<Longrightarrow>
    remote_step dequeue to_str st (st\<lparr> rp_pending := (jid, \<lparr> pi_guard = g, pi_reply = r, pi_user_guard = u \<rparr>) # rp_pending st,
      rp_queue := q, rp_user_guards := (if u then jid # rp_user_guards st else rp_user_guards st) \<rparr>)"
| withdraw: "remote_step dequeue to_str st (st\<lparr> rp_pending := AList.delete jid (rp_pending st) \<rparr>)"
| drop_caller: "rp_replies st r = Unsent \<Longrightarrow>
    remote_step dequeue to_str st (st\<lparr> rp_replies := (rp_replies st)(r := ReceiverGone) \<rparr>)"
| environment: "remote_step dequeue to_str st (st\<lparr> rp_queue := q, rp_heap := h \<rparr>)"

section \<open>Invariant\<close>

abbreviation txs :: "(string \<times> InProgressJob) list \<Rightarrow> nat set" where
  "txs ip \<equiv> (\<lambda>e. ip_result_tx (snd e)) ` set ip"

text \<open>The outcome side: a waiter is suspended exactly while a worker owns its job.\<close>
definition chan_inv :: "(string \<times> InProgressJob) list \<Rightarrow> (nat \<times> nat) list \<Rightarrow> (nat \<Rightarrow> WorkerOutcome oneshot) \<Rightarrow> nat \<Rightarrow> bool" where
  "chan_inv ip ws oc nx \<longleftrightarrow> distinct (map fst ip) \<and> distinct (map (\<lambda>e. ip_result_tx (snd e)) ip) \<and> distinct (map fst ws)
    \<and> (\<forall>c \<in> fst ` set ws. c < nx \<and> oc c \<noteq> ReceiverGone \<and> (oc c = Unsent \<longleftrightarrow> c \<in> txs ip)) \<and> txs ip \<subseteq> fst ` set ws"

text \<open>The reply side: every pending item and every waiter has its own reply channel, not yet answered.\<close>
definition reply_inv :: "(string \<times> PendingItem) list \<Rightarrow> (nat \<times> nat) list \<Rightarrow> (nat \<Rightarrow> (ActionError + TargetResult) oneshot) \<Rightarrow> bool" where
  "reply_inv pd ws rs \<longleftrightarrow> distinct (map fst pd) \<and> distinct (map (\<lambda>p. pi_reply (snd p)) pd @ map snd ws)
    \<and> (\<forall>r \<in> (\<lambda>p. pi_reply (snd p)) ` set pd \<union> snd ` set ws. rs r = Unsent \<or> rs r = ReceiverGone)"

definition remote_inv :: "'q RemotePoolState \<Rightarrow> bool" where
  "remote_inv st \<longleftrightarrow> chan_inv (rp_in_progress st) (rp_waiters st) (rp_outcomes st) (rp_next st)
    \<and> reply_inv (rp_pending st) (rp_waiters st) (rp_replies st)"

lemma set_delete [simp]: "set (AList.delete k al) = {p \<in> set al. fst p \<noteq> k}"
  by (auto simp: AList.delete_eq)

lemma distinct_map_delete: "distinct (map f al) \<Longrightarrow> distinct (map f (AList.delete k al))"
  by (simp add: AList.delete_eq distinct_map_filter)

lemma tx_unique:
  "distinct (map (\<lambda>e. ip_result_tx (snd e)) ip) \<Longrightarrow> e \<in> set ip \<Longrightarrow> e' \<in> set ip \<Longrightarrow>
    ip_result_tx (snd e) = ip_result_tx (snd e') \<Longrightarrow> e = e'"
  by (auto simp: distinct_map inj_on_def)

lemma drop_sender_simps [simp]:
  "drop_sender c \<noteq> Unsent" "drop_sender c = ReceiverGone \<longleftrightarrow> c = ReceiverGone"
  "drop_sender (drop_sender c) = drop_sender c"
  by (simp_all add: drop_sender_def split: oneshot.splits)

lemma oneshot_send_simps [simp]: "oneshot_send v Unsent = Sent v" "oneshot_send v ReceiverGone = ReceiverGone"
  by (simp_all add: oneshot_send_def)

lemma drop_entries_fields:
  "rp_outcomes (drop_entries es st) = (\<lambda>c. if c \<in> txs es then drop_sender (rp_outcomes st c) else rp_outcomes st c)"
  "rp_in_progress (drop_entries es st) = rp_in_progress st" "rp_waiters (drop_entries es st) = rp_waiters st"
  "rp_next (drop_entries es st) = rp_next st" "rp_pending (drop_entries es st) = rp_pending st"
  "rp_replies (drop_entries es st) = rp_replies st" "rp_heartbeat_timeout (drop_entries es st) = rp_heartbeat_timeout st"
  by (induction es arbitrary: st) (auto simp: drop_outcome_tx_def fun_eq_iff)

lemma chan_invD:
  assumes "chan_inv ip ws oc nx"
  shows "distinct (map fst ip)" "distinct (map (\<lambda>e. ip_result_tx (snd e)) ip)" "distinct (map fst ws)"
    "\<And>c. c \<in> fst ` set ws \<Longrightarrow> c < nx \<and> oc c \<noteq> ReceiverGone \<and> (oc c = Unsent \<longleftrightarrow> c \<in> txs ip)" "txs ip \<subseteq> fst ` set ws"
  using assms unfolding chan_inv_def by (simp_all only: simp_thms)

text \<open>Removing entries: the channel of each is used or loses its sender.\<close>
lemma chan_inv_shrink:
  assumes "chan_inv ip ws oc nx" "set ip' \<subseteq> set ip" "distinct (map fst ip')" "distinct (map (\<lambda>e. ip_result_tx (snd e)) ip')"
    and gone: "\<And>c. c \<in> txs ip - txs ip' \<Longrightarrow> oc' c \<noteq> Unsent \<and> oc' c \<noteq> ReceiverGone"
    and keep: "\<And>c. c \<notin> txs ip - txs ip' \<Longrightarrow> oc' c = oc c"
  shows "chan_inv ip' ws oc' nx"
proof -
  have sub: "txs ip' \<subseteq> txs ip" using assms(2) by auto
  have "c < nx \<and> oc' c \<noteq> ReceiverGone \<and> (oc' c = Unsent \<longleftrightarrow> c \<in> txs ip')" if c: "c \<in> fst ` set ws" for c
  proof (cases "c \<in> txs ip - txs ip'")
    case True
    then show ?thesis using gone[OF True] chan_invD(4)[OF assms(1) c] by simp
  next
    case False
    then have "oc' c = oc c" by (rule keep)
    moreover have "c < nx \<and> oc c \<noteq> ReceiverGone \<and> (oc c = Unsent \<longleftrightarrow> c \<in> txs ip)"
      by (rule chan_invD(4)[OF assms(1) c])
    ultimately show ?thesis using False sub by auto
  qed
  then have "\<forall>c \<in> fst ` set ws. c < nx \<and> oc' c \<noteq> ReceiverGone \<and> (oc' c = Unsent \<longleftrightarrow> c \<in> txs ip')" by (rule ballI)
  moreover have "txs ip' \<subseteq> fst ` set ws" using chan_invD(5)[OF assms(1)] sub by (rule subset_trans[rotated])
  ultimately show ?thesis unfolding chan_inv_def using assms(3,4) chan_invD(3)[OF assms(1)] by (intro conjI)
qed

lemma chan_inv_delete:
  assumes "chan_inv ip ws oc nx" "map_of ip jid = Some e" "v \<noteq> Unsent" "v \<noteq> ReceiverGone"
  shows "chan_inv (AList.delete jid ip) ws (oc(ip_result_tx e := v)) nx"
proof (rule chan_inv_shrink[OF assms(1)])
  have inv: "distinct (map fst ip)" "distinct (map (\<lambda>e. ip_result_tx (snd e)) ip)" using assms(1) by (simp_all add: chan_inv_def)
  have mem: "(jid, e) \<in> set ip" using assms(2) by (rule map_of_SomeD)
  have only: "p = (jid, e)" if "p \<in> set ip" "ip_result_tx (snd p) = ip_result_tx e" for p
    using tx_unique[OF inv(2) that(1) mem] that(2) by simp
  have key: "p = (jid, e)" if "p \<in> set ip" "fst p = jid" for p
    using that mem inv(1) by (auto simp: distinct_map inj_on_def)
  have tx: "txs ip - txs (AList.delete jid ip) = {ip_result_tx e}"
  proof (intro set_eqI iffI)
    fix c assume "c \<in> txs ip - txs (AList.delete jid ip)"
    then obtain p where p: "p \<in> set ip" "c = ip_result_tx (snd p)" "fst p = jid" by auto
    show "c \<in> {ip_result_tx e}" using key[OF p(1,3)] p(2) by simp
  next
    fix c assume "c \<in> {ip_result_tx e}"
    moreover have "ip_result_tx e \<notin> txs (AList.delete jid ip)" using only by fastforce
    ultimately show "c \<in> txs ip - txs (AList.delete jid ip)" using mem by force
  qed
  show "(oc(ip_result_tx e := v)) c \<noteq> Unsent \<and> (oc(ip_result_tx e := v)) c \<noteq> ReceiverGone"
    if "c \<in> txs ip - txs (AList.delete jid ip)" for c using that assms(3,4) unfolding tx by simp
  show "(oc(ip_result_tx e := v)) c = oc c" if "c \<notin> txs ip - txs (AList.delete jid ip)" for c
    using that unfolding tx by simp
qed (use chan_invD(1,2)[OF assms(1)] in \<open>auto simp: distinct_map_delete\<close>)

lemma chan_inv_add:
  assumes "chan_inv ip ws oc nx" "jid \<notin> fst ` set ip"
  shows "chan_inv ((jid, \<lparr> ip_result_tx = nx, ip_last_heartbeat = t \<rparr>) # ip) (ws @ [(nx, r)]) (oc(nx := Unsent)) (Suc nx)"
proof -
  have fresh: "nx \<notin> fst ` set ws" using assms(1) by (auto simp: chan_inv_def)
  then have "nx \<notin> txs ip" using assms(1) unfolding chan_inv_def by blast
  then show ?thesis using assms fresh unfolding chan_inv_def by (auto simp: less_SucI)
qed

lemma chan_inv_waiter:
  assumes "chan_inv ip ws oc nx" "oc c \<noteq> Unsent"
  shows "chan_inv ip (AList.delete c ws) oc nx"
proof -
  note inv = chan_invD[OF assms(1)]
  have set: "fst ` set (AList.delete c ws) = fst ` set ws - {c}" by auto
  have "c \<notin> txs ip"
  proof
    assume "c \<in> txs ip"
    then show False using inv(4)[of c] inv(5) assms(2) by blast
  qed
  then have "txs ip \<subseteq> fst ` set ws - {c}" using inv(5) by blast
  then show ?thesis unfolding chan_inv_def set using inv by (auto simp: distinct_map_delete)
qed

lemma reply_inv_take:
  assumes "reply_inv pd ws rs" "map_of pd jid = Some item"
  shows "reply_inv (AList.delete jid pd) ws rs"
    and "pi_reply item \<notin> (\<lambda>p. pi_reply (snd p)) ` set (AList.delete jid pd) \<union> snd ` set ws"
    and "rs (pi_reply item) = Unsent \<or> rs (pi_reply item) = ReceiverGone"
proof -
  have mem: "(jid, item) \<in> set pd" using assms(2) by (rule map_of_SomeD)
  have inj: "distinct (map (\<lambda>p. pi_reply (snd p)) pd)" "distinct (map snd ws)"
    "(\<lambda>p. pi_reply (snd p)) ` set pd \<inter> snd ` set ws = {}"
    using assms(1) by (simp_all add: reply_inv_def)
  have sub: "(\<lambda>p. pi_reply (snd p)) ` set (AList.delete jid pd) \<subseteq> (\<lambda>p. pi_reply (snd p)) ` set pd" by auto
  show "reply_inv (AList.delete jid pd) ws rs"
    using assms(1) sub unfolding reply_inv_def by (auto simp: distinct_map_delete)
  have "pi_reply item \<noteq> pi_reply (snd p)" if "p \<in> set (AList.delete jid pd)" for p
  proof
    assume "pi_reply item = pi_reply (snd p)"
    then have "p = (jid, item)" using inj(1) mem that by (auto simp: distinct_map inj_on_def)
    then show False using that by simp
  qed
  moreover have "pi_reply item \<notin> snd ` set ws"
    using inj(3) mem by (metis (no_types, lifting) disjoint_iff imageI snd_conv)
  ultimately show "pi_reply item \<notin> (\<lambda>p. pi_reply (snd p)) ` set (AList.delete jid pd) \<union> snd ` set ws" by auto
  show "rs (pi_reply item) = Unsent \<or> rs (pi_reply item) = ReceiverGone"
    using assms(1) mem unfolding reply_inv_def by (metis (no_types, lifting) UnI1 imageI snd_conv)
qed

lemma reply_inv_send:
  "reply_inv pd ws rs \<Longrightarrow> r \<notin> (\<lambda>p. pi_reply (snd p)) ` set pd \<union> snd ` set ws \<Longrightarrow> reply_inv pd ws (rs(r := v))"
  by (auto simp: reply_inv_def)

lemma reply_inv_waiter:
  assumes "reply_inv pd ws rs" "map_of ws c = Some r"
  shows "reply_inv pd (AList.delete c ws) (rs(r := v))"
    and "rs r = Unsent \<or> rs r = ReceiverGone"
proof -
  have mem: "(c, r) \<in> set ws" using assms(2) by (rule map_of_SomeD)
  have inv: "distinct (map (\<lambda>p. pi_reply (snd p)) pd)" "distinct (map snd ws)"
    "(\<lambda>p. pi_reply (snd p)) ` set pd \<inter> snd ` set ws = {}"
    using assms(1) by (simp_all add: reply_inv_def)
  have nr: "r \<notin> snd ` set (AList.delete c ws)" using inv(2) mem by (fastforce simp: distinct_map inj_on_def)
  have np: "r \<notin> (\<lambda>p. pi_reply (snd p)) ` set pd" using inv(3) mem by (metis (no_types, lifting) disjoint_iff imageI snd_conv)
  have "reply_inv pd (AList.delete c ws) rs"
    using assms(1) unfolding reply_inv_def by (auto simp: distinct_map_delete)
  then show "reply_inv pd (AList.delete c ws) (rs(r := v))" using nr np by (intro reply_inv_send) auto
  show "rs r = Unsent \<or> rs r = ReceiverGone"
    using assms(1) mem unfolding reply_inv_def by (metis (no_types, lifting) UnI2 imageI snd_conv)
qed

lemma chan_inv_drop:
  assumes "chan_inv ip ws oc nx" "distinct (map fst ip')" "distinct (map (\<lambda>e. ip_result_tx (snd e)) ip')"
    "set ip = set ip' \<union> set es" "set ip' \<inter> set es = {}"
  shows "chan_inv ip' ws (\<lambda>c. if c \<in> txs es then drop_sender (oc c) else oc c) nx"
proof -
  note inv = chan_invD[OF assms(1)]
  have disj: "txs ip' \<inter> txs es = {}" using tx_unique[OF inv(2)] assms(4,5) by (auto, blast)
  then have gone: "txs ip - txs ip' = txs es" using assms(4) by auto
  show ?thesis
  proof (rule chan_inv_shrink[OF assms(1) _ assms(2,3)], goal_cases)
    case 1
    then show ?case using assms(4) by blast
  next
    case (2 c)
    then have "c \<in> fst ` set ws" "c \<in> txs es" using inv(5) gone by blast+
    then show ?case using inv(4)[of c] by simp
  next
    case (3 c)
    then show ?case unfolding gone by simp
  qed
qed

lemma remote_inv_get_work:
  assumes "remote_inv st"
  shows "remote_inv (snd (handle_get_work dequeue now st))"
proof (cases "dequeue (rp_queue st)")
  case (Pair d q)
  have inv: "chan_inv (rp_in_progress st) (rp_waiters st) (rp_outcomes st) (rp_next st)"
    "reply_inv (rp_pending st) (rp_waiters st) (rp_replies st)" using assms by (simp_all add: remote_inv_def)
  show ?thesis
  proof (cases d)
    case (Got job)
    show ?thesis
    proof (cases "map_of (rp_pending st) (job_id job)")
      case None
      then show ?thesis using Pair Got inv by (simp add: handle_get_work_def remote_inv_def)
    next
      case (Some item)
      note taken = reply_inv_take[OF inv(2) Some]
      let ?g = "guard_error (pi_guard item) (is_cancelled (rp_heap st) job) (client_present now (rp_heap st) job)"
      have sent: "reply_inv (AList.delete (job_id job) (rp_pending st)) (rp_waiters st) ((rp_replies st)(pi_reply item := v))" for v
        by (rule reply_inv_send[OF taken(1,2)])
      have handed: "reply_inv (AList.delete (job_id job) (rp_pending st)) (rp_waiters st @ [(c, pi_reply item)]) (rp_replies st)" for c
        using taken unfolding reply_inv_def by auto
      have chan: "chan_inv ((job_id job, \<lparr> ip_result_tx = rp_next st, ip_last_heartbeat = now \<rparr>) # AList.delete (job_id job) (rp_in_progress st))
          (rp_waiters st @ [(rp_next st, pi_reply item)])
          ((case map_of (rp_in_progress st) (job_id job) of None \<Rightarrow> rp_outcomes st
            | Some old \<Rightarrow> (rp_outcomes st)(ip_result_tx old := drop_sender (rp_outcomes st (ip_result_tx old))))(rp_next st := Unsent))
          (Suc (rp_next st))"
      proof (rule chan_inv_add)
        show "chan_inv (AList.delete (job_id job) (rp_in_progress st)) (rp_waiters st)
            (case map_of (rp_in_progress st) (job_id job) of None \<Rightarrow> rp_outcomes st
             | Some old \<Rightarrow> (rp_outcomes st)(ip_result_tx old := drop_sender (rp_outcomes st (ip_result_tx old)))) (rp_next st)"
        proof (cases "map_of (rp_in_progress st) (job_id job)")
          case None
          then have "job_id job \<notin> fst ` set (rp_in_progress st)" by (simp add: map_of_eq_None_iff)
          then show ?thesis using inv(1) None by (simp add: delete_id)
        next
          case (Some old)
          have "rp_outcomes st (ip_result_tx old) \<noteq> ReceiverGone"
            using chan_invD(4,5)[OF inv(1)] map_of_SomeD[OF Some] by (metis (no_types, lifting) image_eqI snd_conv subset_iff)
          then show ?thesis using chan_inv_delete[OF inv(1) Some] Some by simp
        qed
      qed auto
      have old_tx: "ip_result_tx old \<noteq> rp_next st" if "map_of (rp_in_progress st) (job_id job) = Some old" for old
        using chan_invD(4,5)[OF inv(1)] map_of_SomeD[OF that]
        by (metis (no_types, lifting) image_eqI less_irrefl snd_conv subset_iff)
      show ?thesis
        using Pair Got Some sent handed chan taken(1) inv old_tx
        by (cases "oneshot_is_closed (rp_replies st (pi_reply item))"; cases ?g)
          (auto simp: handle_get_work_def remote_inv_def take_pending_def send_reply_def hand_over_def
            insert_in_progress_def drop_outcome_tx_def Let_def fun_upd_twist split: option.splits)
    qed
  qed (use Pair inv in \<open>simp_all add: handle_get_work_def remote_inv_def\<close>)
qed

lemma remote_inv_complete:
  assumes "remote_inv st"
  shows "remote_inv (snd (complete jid outcome st))"
proof (cases "map_of (rp_in_progress st) jid")
  case (Some e)
  have inv: "chan_inv (rp_in_progress st) (rp_waiters st) (rp_outcomes st) (rp_next st)" using assms by (simp add: remote_inv_def)
  have "rp_outcomes st (ip_result_tx e) = Unsent"
    using chan_invD(4,5)[OF inv] map_of_SomeD[OF Some] by (metis (no_types, lifting) image_eqI snd_conv subset_iff)
  then show ?thesis using assms chan_inv_delete[OF inv Some, of "Sent outcome"] Some
    by (simp add: complete_def remote_inv_def)
qed (use assms in \<open>simp add: complete_def\<close>)

lemma remote_inv_heartbeat:
  assumes "remote_inv st"
  shows "remote_inv (snd (handle_heartbeat now jid st))"
proof (cases "map_of (rp_in_progress st) jid")
  case (Some e)
  have inv: "chan_inv (rp_in_progress st) (rp_waiters st) (rp_outcomes st) (rp_next st)" using assms by (simp add: remote_inv_def)
  note d = chan_invD[OF inv]
  let ?ip = "(jid, e\<lparr> ip_last_heartbeat := now \<rparr>) # AList.delete jid (rp_in_progress st)"
  have mem: "(jid, e) \<in> set (rp_in_progress st)" using Some by (rule map_of_SomeD)
  have key: "p = (jid, e)" if "p \<in> set (rp_in_progress st)" "fst p = jid" for p
    using that mem d(1) by (auto simp: distinct_map inj_on_def)
  have other: "ip_result_tx (snd p) \<noteq> ip_result_tx e" if "p \<in> set (rp_in_progress st)" "fst p \<noteq> jid" for p
    using tx_unique[OF d(2) that(1) mem] that(2) by auto
  have same: "txs ?ip = txs (rp_in_progress st)"
  proof (intro set_eqI iffI)
    fix c assume "c \<in> txs ?ip"
    then show "c \<in> txs (rp_in_progress st)" using mem by force
  next
    fix c assume "c \<in> txs (rp_in_progress st)"
    then obtain p where p: "p \<in> set (rp_in_progress st)" "c = ip_result_tx (snd p)" by auto
    show "c \<in> txs ?ip" using p key[OF p(1)] by (cases "fst p = jid") auto
  qed
  have "distinct (map fst ?ip)" using d(1) by (auto simp: distinct_map_delete)
  moreover have "distinct (map (\<lambda>e. ip_result_tx (snd e)) ?ip)"
    using d(2) other by (force simp: distinct_map_delete)
  ultimately have "chan_inv ?ip (rp_waiters st) (rp_outcomes st) (rp_next st)"
    unfolding chan_inv_def same using d(3,4,5) by blast
  then show ?thesis using assms Some by (simp add: handle_heartbeat_def remote_inv_def)
qed (use assms in \<open>simp add: handle_heartbeat_def\<close>)

lemma remote_inv_reaper:
  assumes "remote_inv st"
  shows "remote_inv (reaper_tick now st)" "remote_inv (reaper_shutdown st)"
proof -
  have inv: "chan_inv (rp_in_progress st) (rp_waiters st) (rp_outcomes st) (rp_next st)" using assms by (simp add: remote_inv_def)
  note d = chan_invD[OF inv]
  let ?ok = "\<lambda>e. alive now (rp_heartbeat_timeout st) (snd e)"
  have "chan_inv (filter ?ok (rp_in_progress st)) (rp_waiters st)
      (\<lambda>c. if c \<in> txs (filter (\<lambda>e. \<not> ?ok e) (rp_in_progress st)) then drop_sender (rp_outcomes st c) else rp_outcomes st c) (rp_next st)"
    by (rule chan_inv_drop[OF inv]) (use d(1,2) in \<open>auto simp: distinct_map_filter simp del: set_filter\<close>, auto)
  then show "remote_inv (reaper_tick now st)"
    using assms by (simp add: reaper_tick_def remote_inv_def drop_entries_fields Let_def cong: if_cong)
  have "chan_inv [] (rp_waiters st)
      (\<lambda>c. if c \<in> txs (rp_in_progress st) then drop_sender (rp_outcomes st c) else rp_outcomes st c) (rp_next st)"
    by (rule chan_inv_drop[OF inv]) simp_all
  then show "remote_inv (reaper_shutdown st)"
    using assms by (simp add: reaper_shutdown_def remote_inv_def drop_entries_fields cong: if_cong)
qed

lemma waiter_stepE:
  assumes "waiter_step c st = Some st'"
  obtains r v where "map_of (rp_waiters st) c = Some r"
    "st' = send_reply r v (st\<lparr> rp_waiters := AList.delete c (rp_waiters st) \<rparr>)" "rp_outcomes st c \<noteq> Unsent"
  using assms by (auto simp: waiter_step_def Let_def split: option.splits oneshot.splits)

lemma remote_inv_waiter:
  assumes "remote_inv st" "waiter_step c st = Some st'"
  shows "remote_inv st'"
  using assms(2)
proof (rule waiter_stepE)
  fix r v assume w: "map_of (rp_waiters st) c = Some r"
    "st' = send_reply r v (st\<lparr> rp_waiters := AList.delete c (rp_waiters st) \<rparr>)" "rp_outcomes st c \<noteq> Unsent"
  show ?thesis
    using assms(1) w(2) chan_inv_waiter[where oc = "rp_outcomes st", OF _ w(3)] reply_inv_waiter(1)[OF _ w(1)]
    by (simp add: remote_inv_def send_reply_def)
qed

lemma remote_step_inv:
  assumes "remote_step dequeue to_str st st'" "remote_inv st"
  shows "remote_inv st'"
  using assms(1)
proof cases
  case (post now p)
  then show ?thesis using assms(2) remote_inv_complete remote_inv_heartbeat
    by (cases p) (simp_all add: worker_post_def handle_complete_data_def handle_complete_redirect_def
        handle_complete_reject_def handle_complete_error_def)
next
  case (dispatch r jid q g u)
  then show ?thesis using assms(2)
    by (auto simp: remote_inv_def reply_inv_def map_of_eq_None_iff image_image)
next
  case (withdraw jid)
  have "reply_inv (AList.delete jid (rp_pending st)) (rp_waiters st) (rp_replies st)"
    using assms(2) unfolding remote_inv_def reply_inv_def by (auto simp: distinct_map_delete)
  then show ?thesis using assms(2) withdraw by (simp add: remote_inv_def)
next
  case (drop_caller r)
  then show ?thesis using assms(2) by (auto simp: remote_inv_def reply_inv_def)
next
  case (environment q h)
  then show ?thesis using assms(2) by (simp add: remote_inv_def)
qed (use assms(2) remote_inv_get_work remote_inv_waiter remote_inv_reaper in blast)+

lemma remote_new_inv: "remote_inv (remote_pool_new q timeout cb permits h)"
  by (simp add: remote_pool_new_def remote_inv_def chan_inv_def reply_inv_def)

lemma remote_reachable_inv:
  "(remote_step dequeue to_str)\<^sup>*\<^sup>* (remote_pool_new q timeout cb permits h) st \<Longrightarrow> remote_inv st"
  by (induction rule: rtranclp_induct) (simp_all add: remote_new_inv remote_step_inv)

lemma waiter_ready:
  assumes "remote_inv st" "(c, r) \<in> set (rp_waiters st)" "c \<notin> txs (rp_in_progress st)"
  shows "\<exists>st' v. waiter_step c st = Some st' \<and> rp_replies st' = (rp_replies st)(r := oneshot_send v (rp_replies st r))"
proof -
  have inv: "chan_inv (rp_in_progress st) (rp_waiters st) (rp_outcomes st) (rp_next st)" using assms(1) by (simp add: remote_inv_def)
  have c: "map_of (rp_waiters st) c = Some r" using chan_invD(3)[OF inv] assms(2) by simp
  have mem: "c \<in> fst ` set (rp_waiters st)" using assms(2) by force
  have "rp_outcomes st c \<noteq> Unsent" "rp_outcomes st c \<noteq> ReceiverGone"
    using chan_invD(4)[OF inv mem] assms(3) by simp_all
  then show ?thesis using c by (cases "rp_outcomes st c") (auto simp: waiter_step_def send_reply_def Let_def)
qed

lemma reaper_fields:
  "rp_waiters (reaper_tick now st) = rp_waiters st" "rp_replies (reaper_tick now st) = rp_replies st"
  "rp_waiters (reaper_shutdown st) = rp_waiters st" "rp_replies (reaper_shutdown st) = rp_replies st"
  "rp_in_progress (reaper_shutdown st) = []"
  "rp_in_progress (reaper_tick now st) = filter (\<lambda>e. alive now (rp_heartbeat_timeout st) (snd e)) (rp_in_progress st)"
  by (simp_all add: reaper_tick_def reaper_shutdown_def Let_def drop_entries_fields)

text \<open>C14 No caller of a job taken by a remote worker is stranded: once the worker's last heartbeat is older than
  the timeout, the next reaper tick lets the waiter answer the caller, and the shutdown of the worker server
  lets every waiter answer at once.\<close>
theorem remote_no_stranded_caller:
  assumes "(remote_step dequeue to_str)\<^sup>*\<^sup>* (remote_pool_new q timeout cb permits h) st"
    and "(c, r) \<in> set (rp_waiters st)" "rp_replies st r = Unsent"
  shows "(\<exists>st' v. waiter_step c (reaper_shutdown st) = Some st' \<and> rp_replies st' r = Sent v)
    \<and> ((\<forall>(jid, e) \<in> set (rp_in_progress st). ip_result_tx e = c \<longrightarrow> rp_heartbeat_timeout st \<le> now - ip_last_heartbeat e) \<longrightarrow>
        (\<exists>st' v. waiter_step c (reaper_tick now st) = Some st' \<and> rp_replies st' r = Sent v))"
proof -
  have inv: "remote_inv st" by (rule remote_reachable_inv[OF assms(1)])
  have 1: "\<exists>st' v. waiter_step c (reaper_shutdown st) = Some st' \<and> rp_replies st' r = Sent v"
    using waiter_ready[OF remote_inv_reaper(2)[OF inv], of c r] assms(2,3) by (auto simp: reaper_fields)
  have 2: "\<exists>st' v. waiter_step c (reaper_tick now st) = Some st' \<and> rp_replies st' r = Sent v"
    if "\<forall>(jid, e) \<in> set (rp_in_progress st). ip_result_tx e = c \<longrightarrow> rp_heartbeat_timeout st \<le> now - ip_last_heartbeat e"
  proof -
    have "c \<notin> txs (rp_in_progress (reaper_tick now st))" using that by (force simp: reaper_fields alive_def)
    then show ?thesis
      using waiter_ready[OF remote_inv_reaper(1)[OF inv], of c r now] assms(2,3) by (auto simp: reaper_fields)
  qed
  show ?thesis using 1 2 by blast
qed

text \<open>The job a post names, and the outcome a completion carries.\<close>
definition post_job :: "WorkerPost \<Rightarrow> string" where
  "post_job p = (case p of Heartbeat j \<Rightarrow> j | CompleteData j _ _ _ \<Rightarrow> j | CompleteRedirect j _ _ _ _ \<Rightarrow> j
    | CompleteReject j _ \<Rightarrow> j | CompleteError j _ \<Rightarrow> j)"

definition post_result :: "(string \<Rightarrow> string option) \<Rightarrow> WorkerPost \<Rightarrow> TargetResult option" where
  "post_result to_str p =
    (case p of
       Heartbeat _ \<Rightarrow> None
     | CompleteData _ ct cl body \<Rightarrow>
         Some (Complete (JR_Success (data_content_type to_str ct) (data_size to_str cl) (forward_body body)))
     | CompleteRedirect _ loc msg ct cl \<Rightarrow> Some (Complete (JR_Redirect loc msg ct cl))
     | CompleteReject _ reason \<Rightarrow> Some (TargetReject reason True)
     | CompleteError _ message \<Rightarrow> Some (Complete (JR_Error message)))"

lemma post_complete:
  assumes "post_result to_str p = Some res"
  shows "\<exists>outcome. translate_outcome outcome = res \<and> worker_post to_str now p st = complete (post_job p) outcome st"
proof (cases p)
  case (CompleteData j ct cl body)
  then show ?thesis using assms
    by (intro exI[of _ "WO_Complete (data_content_type to_str ct) (data_size to_str cl) (forward_body body)"])
      (simp add: post_result_def post_job_def worker_post_def handle_complete_data_def translate_outcome_def)
next
  case (CompleteRedirect j loc msg ct cl)
  then show ?thesis using assms
    by (intro exI[of _ "WO_Redirect loc msg ct cl"])
      (simp add: post_result_def post_job_def worker_post_def handle_complete_redirect_def translate_outcome_def)
next
  case (CompleteReject j reason)
  then show ?thesis using assms
    by (intro exI[of _ "WO_Reject reason"])
      (simp add: post_result_def post_job_def worker_post_def handle_complete_reject_def translate_outcome_def)
next
  case (CompleteError j message)
  then show ?thesis using assms
    by (intro exI[of _ "WO_Error message"])
      (simp add: post_result_def post_job_def worker_post_def handle_complete_error_def translate_outcome_def)
qed (use assms in \<open>simp add: post_result_def\<close>)

lemma post_unknown:
  assumes "map_of (rp_in_progress st) (post_job p) = None"
  shows "worker_post to_str now p st = (NOT_FOUND, st)"
  using assms by (cases p) (simp_all add: worker_post_def post_job_def handle_heartbeat_def complete_def handle_complete_data_def
      handle_complete_redirect_def handle_complete_reject_def handle_complete_error_def)

lemma data_size_range: "- 1 \<le> data_size to_str hdr \<and> data_size to_str hdr < 2 ^ 63"
  by (auto simp: data_size_def parse_i64_def Let_def split: option.splits if_splits)

text \<open>C15 The first completion a worker posts for a job it owns wins: it answers 200, the waiting caller receives
  exactly its translation (data with a size in range or -1, redirect, silent rejection or job error), and every
  later heartbeat or completion for that job answers 404 and changes nothing.\<close>
theorem remote_first_completion_wins:
  assumes "(remote_step dequeue to_str)\<^sup>*\<^sup>* (remote_pool_new q timeout cb permits h) st"
    and "map_of (rp_in_progress st) (post_job p) = Some e" "post_result to_str p = Some res"
  shows "\<exists>r st1 st2. map_of (rp_waiters st) (ip_result_tx e) = Some r \<and> worker_post to_str now p st = (OK, st1)
    \<and> waiter_step (ip_result_tx e) st1 = Some st2
    \<and> (rp_replies st r = Unsent \<longrightarrow> rp_replies st2 r = Sent (Inr res))
    \<and> (\<forall>p' now'. post_job p' = post_job p \<longrightarrow> worker_post to_str now' p' st1 = (NOT_FOUND, st1))
    \<and> (\<forall>ct sz body. res = Complete (JR_Success ct sz body) \<longrightarrow> - 1 \<le> sz \<and> sz < 2 ^ 63)"
proof -
  have inv: "chan_inv (rp_in_progress st) (rp_waiters st) (rp_outcomes st) (rp_next st)"
    using remote_reachable_inv[OF assms(1)] by (simp add: remote_inv_def)
  have tx: "ip_result_tx e \<in> txs (rp_in_progress st)" using map_of_SomeD[OF assms(2)] by force
  then have mem: "ip_result_tx e \<in> fst ` set (rp_waiters st)" using chan_invD(5)[OF inv] by blast
  then obtain r where r: "map_of (rp_waiters st) (ip_result_tx e) = Some r"
    using map_of_eq_None_iff[of "rp_waiters st" "ip_result_tx e"] by fastforce
  have unsent: "rp_outcomes st (ip_result_tx e) = Unsent" using chan_invD(4)[OF inv mem] tx by simp
  obtain outcome where o': "translate_outcome outcome = res" "worker_post to_str now p st = complete (post_job p) outcome st"
    using post_complete[OF assms(3)] by blast
  define st1 where "st1 = snd (complete (post_job p) outcome st)"
  have st1: "complete (post_job p) outcome st = (OK, st1)" using assms(2) by (simp add: st1_def complete_def)
  have f: "rp_outcomes st1 (ip_result_tx e) = Sent outcome" "rp_waiters st1 = rp_waiters st" "rp_replies st1 = rp_replies st"
    "map_of (rp_in_progress st1) (post_job p) = None"
    using assms(2) unsent by (simp_all add: st1_def complete_def map_of_eq_None_iff image_iff)
  obtain st2 where st2: "waiter_step (ip_result_tx e) st1 = Some st2"
    "rp_replies st2 = (rp_replies st)(r := oneshot_send (Inr res) (rp_replies st r))"
    using f r o'(1) by (simp add: waiter_step_def send_reply_def Let_def)
  have later: "worker_post to_str now' p' st1 = (NOT_FOUND, st1)" if "post_job p' = post_job p" for p' now'
    using post_unknown[of st1 p'] f(4) that by simp
  have range: "- 1 \<le> sz \<and> sz < 2 ^ 63" if "res = Complete (JR_Success ct sz body)" for ct sz body
    using assms(3) that data_size_range[of to_str] by (cases p) (auto simp: post_result_def)
  have "worker_post to_str now p st = (OK, st1)" using o'(2) st1 by simp
  then show ?thesis
    by (rule_tac x = r in exI, rule_tac x = st1 in exI, rule_tac x = st2 in exI) (use r st2 later range in auto)
qed

text \<open>Eviction is exact: a reaper tick removes precisely the jobs whose last heartbeat is at least the timeout
  old, so that a job whose worker heartbeat arrived at \<open>t\<close> survives every tick before \<open>t + timeout\<close>.\<close>
lemma remote_eviction_exact:
  assumes "(remote_step dequeue to_str)\<^sup>*\<^sup>* (remote_pool_new q timeout cb permits h) st"
  shows "map_of (rp_in_progress (reaper_tick now st)) jid =
      (case map_of (rp_in_progress st) jid of
         Some e \<Rightarrow> if now - ip_last_heartbeat e < rp_heartbeat_timeout st then Some e else None
       | None \<Rightarrow> None)
    \<and> (\<forall>e t. map_of (rp_in_progress st) jid = Some e \<longrightarrow> t \<le> now \<longrightarrow> now < t + rp_heartbeat_timeout st \<longrightarrow>
        map_of (rp_in_progress (reaper_tick now (snd (handle_heartbeat t jid st)))) jid
          = Some (e\<lparr> ip_last_heartbeat := t \<rparr>))"
proof -
  have d: "distinct (map fst (rp_in_progress st))"
    using remote_reachable_inv[OF assms] by (auto simp: remote_inv_def intro: chan_invD(1))
  have "map_of (filter (\<lambda>e. alive now T (snd e)) al) jid =
      (case map_of al jid of Some e \<Rightarrow> if now - ip_last_heartbeat e < T then Some e else None | None \<Rightarrow> None)"
    if "distinct (map fst al)" for T al
    using that by (induction al) (auto simp: alive_def map_of_eq_None_iff image_iff split: option.splits)
  then show ?thesis using d by (auto simp: reaper_fields handle_heartbeat_def alive_def)
qed

text \<open>C16 A worker is given a job only if its caller still waits and the dispatch guard passes at that moment; the job
  then leaves the pending map, so that no other worker gets it, its permit is free, it is in progress with a fresh
  heartbeat and its status is \<open>Processing\<close>.  Its user-limit guard is released at the same moment: a job running on a
  remote worker no longer counts against its user's limit.\<close>
theorem remote_work_handed_once:
  assumes "handle_get_work dequeue now st = (Inr resp, st')"
  shows "\<exists>job queue item. dequeue (rp_queue st) = (Got job, queue) \<and> wr_job_id resp = job_id job \<and> wr_request resp = job_request job
    \<and> map_of (rp_pending st) (job_id job) = Some item \<and> rp_replies st (pi_reply item) \<noteq> ReceiverGone
    \<and> guard_error (pi_guard item) (is_cancelled (rp_heap st) job) (client_present now (rp_heap st) job) = None
    \<and> map_of (rp_pending st') (job_id job) = None \<and> rp_permits st' = Suc (rp_permits st) \<and> rp_depth st' = rp_depth st - 1
    \<and> map_option ip_last_heartbeat (map_of (rp_in_progress st') (job_id job)) = Some now
    \<and> pending_status (rp_heap st') job = Processing
    \<and> (pi_user_guard item \<longrightarrow> rp_user_guards st' = remove1 (job_id job) (rp_user_guards st))"
proof (cases "dequeue (rp_queue st)")
  case (Pair d queue)
  then obtain job where d: "d = Got job" using assms by (cases d) (auto simp: handle_get_work_def)
  then obtain item where item: "map_of (rp_pending st) (job_id job) = Some item"
    using assms Pair by (cases "map_of (rp_pending st) (job_id job)") (auto simp: handle_get_work_def)
  have proc: "pending_status (mark_processing job hp) job = Processing" for hp
    by (simp add: mark_processing_def pending_status_def lc_update_def lc_of_def Let_def)
  have "\<not> oneshot_is_closed (rp_replies st (pi_reply item))"
    "guard_error (pi_guard item) (is_cancelled (rp_heap st) job) (client_present now (rp_heap st) job) = None"
    "st' = snd (hand_over job now (pi_reply item) (take_pending (job_id job) item (st\<lparr> rp_queue := queue \<rparr>)))"
    "resp = fst (hand_over job now (pi_reply item) (take_pending (job_id job) item (st\<lparr> rp_queue := queue \<rparr>)))"
    using assms Pair d item
    by (auto simp: handle_get_work_def take_pending_def Let_def split: if_splits option.splits prod.splits)
  then show ?thesis
    using Pair d item proc
    by (intro exI[of _ job] exI[of _ queue] exI[of _ item])
      (auto simp: hand_over_def take_pending_def insert_in_progress_def drop_outcome_tx_def oneshot_is_closed_def Let_def
        map_of_eq_None_iff image_iff split: option.splits)
qed

section \<open>Examples\<close>

text \<open>A pool on a FIFO queue with one job, taken by a worker at time 6.\<close>
definition demo_pool :: "FifoQueue RemotePoolState" where
  "demo_pool = (let st = remote_pool_new fifo_new 60 None 0 (set_reconnect_deadline demo_job 10 demo_heap)
    in st\<lparr> rp_pending := [(''a'', \<lparr> pi_guard = DG_CancelledOrClientGone, pi_reply = 0, pi_user_guard = True \<rparr>)],
           rp_queue := fifo_enqueue demo_job (rp_queue st), rp_user_guards := [''a''] \<rparr>)"

definition demo_taken :: "FifoQueue RemotePoolState" where
  "demo_taken = snd (handle_get_work fifo_dequeue 6 demo_pool)"

lemma demo_taken_work: "\<exists>resp. handle_get_work fifo_dequeue 6 demo_pool = (Inr resp, demo_taken)"
proof -
  have "isl (fst (handle_get_work fifo_dequeue 6 demo_pool)) = False" by code_simp
  then show ?thesis unfolding demo_taken_def
    by (cases "handle_get_work fifo_dequeue 6 demo_pool"; cases "fst (handle_get_work fifo_dequeue 6 demo_pool)") auto
qed

lemma demo_taken_fields:
  "rp_waiters demo_taken = [(0, 0)]" "rp_in_progress demo_taken = [(''a'', \<lparr> ip_result_tx = 0, ip_last_heartbeat = 6 \<rparr>)]"
  "rp_replies demo_taken 0 = Unsent" "rp_heartbeat_timeout demo_taken = 60"
  by code_simp+

lemma demo_taken_reachable:
  "(remote_step fifo_dequeue Some)\<^sup>*\<^sup>* (remote_pool_new fifo_new 60 None 0 (set_reconnect_deadline demo_job 10 demo_heap)) demo_taken"
proof (rule rtranclp.rtrancl_into_rtrancl)
  show "remote_step fifo_dequeue Some demo_pool demo_taken" unfolding demo_taken_def by (rule remote_step.get_work)
  have "remote_step fifo_dequeue Some (remote_pool_new fifo_new 60 None 0 (set_reconnect_deadline demo_job 10 demo_heap)) demo_pool"
    using remote_step.dispatch[of "remote_pool_new fifo_new 60 None 0 (set_reconnect_deadline demo_job 10 demo_heap)" 0 "''a''"
        fifo_dequeue Some True "fifo_enqueue demo_job fifo_new" DG_CancelledOrClientGone]
    by (simp add: demo_pool_def remote_pool_new_def Let_def)
  then show "(remote_step fifo_dequeue Some)\<^sup>*\<^sup>*
      (remote_pool_new fifo_new 60 None 0 (set_reconnect_deadline demo_job 10 demo_heap)) demo_pool" by blast
qed

theorem remote_no_stranded_caller_witness:
  "\<exists>st' v. waiter_step 0 (reaper_tick 70 demo_taken) = Some st' \<and> rp_replies st' 0 = Sent v"
  using remote_no_stranded_caller[OF demo_taken_reachable, of 0 0 70] by (simp add: demo_taken_fields)

theorem remote_first_completion_wins_witness:
  "\<exists>st1. worker_post Some 7 (CompleteError ''a'' ''bad'') demo_taken = (OK, st1)
    \<and> worker_post Some 8 (CompleteReject ''a'' ''late'') st1 = (NOT_FOUND, st1)"
proof -
  have "map_of (rp_in_progress demo_taken) (post_job (CompleteError ''a'' ''bad'')) = Some \<lparr> ip_result_tx = 0, ip_last_heartbeat = 6 \<rparr>"
    "post_result Some (CompleteError ''a'' ''bad'') = Some (Complete (JR_Error ''bad''))"
    by (simp_all add: demo_taken_fields post_job_def post_result_def)
  from remote_first_completion_wins[OF demo_taken_reachable this, of 7]
  obtain st1 where "worker_post Some 7 (CompleteError ''a'' ''bad'') demo_taken = (OK, st1)"
    "\<forall>p' now'. post_job p' = post_job (CompleteError ''a'' ''bad'') \<longrightarrow> worker_post Some now' p' st1 = (NOT_FOUND, st1)"
    by blast
  moreover have "post_job (CompleteReject ''a'' ''late'') = post_job (CompleteError ''a'' ''bad'')" by (simp add: post_job_def)
  ultimately show ?thesis by blast
qed

theorem remote_work_handed_once_witness:
  "map_of (rp_pending demo_taken) ''a'' = None \<and> rp_user_guards demo_taken = []"
proof -
  obtain resp where work: "handle_get_work fifo_dequeue 6 demo_pool = (Inr resp, demo_taken)" using demo_taken_work by blast
  have "fifo_dequeue (rp_queue demo_pool) = (Got demo_job, fifo_new)" by code_simp
  moreover have "job_id demo_job = ''a''" by code_simp
  ultimately show ?thesis
    using remote_work_handed_once[OF work] by (auto simp: demo_pool_def remote_pool_new_def Let_def)
qed

end
