(* ===== verification/Worker_Server.thy ===== *)
theory Worker_Server
  imports Remote_Pool Switch_Routing
begin

text \<open>
  The shared HTTP server of the remote pools (\<open>bits/src/worker_server.rs\<close>): pool names, registration, the lazy start
  of the listener, and the choice of the pool from the path of a request.

  A router is an opaque value; a request is handed to it with its new path and query, which the HTTP library may
  refuse (\<open>Inl\<close>, with the error text of the response).  Binding the listener is an argument with its three steps.
\<close>

section \<open>Pool names\<close>

definition is_ascii_alphanumeric :: "char \<Rightarrow> bool" where
  "is_ascii_alphanumeric c \<longleftrightarrow>
    (CHR ''0'' \<le> c \<and> c \<le> CHR ''9'') \<or> (CHR ''A'' \<le> c \<and> c \<le> CHR ''Z'') \<or> (CHR ''a'' \<le> c \<and> c \<le> CHR ''z'')"

definition pool_char :: "char \<Rightarrow> bool" where
  "pool_char ch \<longleftrightarrow> is_ascii_alphanumeric ch \<or> ch = CHR ''_'' \<or> ch = CHR ''-''"

definition validate_pool_name :: "string \<Rightarrow> string + unit" where
  "validate_pool_name name =
    (if name = [] then Inl ''pool name must not be empty''
     else case find (\<lambda>ch. \<not> pool_char ch) name of
            Some ch \<Rightarrow> Inl (''pool name '' @ [CHR 0x27] @ name @ [CHR 0x27] @ '' contains invalid character '' @ [CHR 0x27, ch, CHR 0x27]
              @ ''; only alphanumeric characters, underscores, and hyphens are allowed'')
          | None \<Rightarrow> Inr ())"

section \<open>State\<close>

text \<open>\<open>ws_listening\<close> says whether the listener task was spawned, \<open>ws_receivers\<close> counts the tasks that watch for the shutdown.\<close>
record 'r WorkerServer =
  ws_host :: string
  ws_port :: u16
  ws_advertised_addr :: "string option"
  ws_pools :: "(string \<times> 'r) list"
  ws_started :: bool
  ws_listening :: bool
  ws_receivers :: nat
  ws_shutdown :: bool

definition worker_server_new :: "string \<Rightarrow> u16 \<Rightarrow> string option \<Rightarrow> 'r WorkerServer" where
  "worker_server_new host port advertised_addr = \<lparr> ws_host = host, ws_port = port, ws_advertised_addr = advertised_addr,
    ws_pools = [], ws_started = False, ws_listening = False, ws_receivers = 0, ws_shutdown = False \<rparr>"

definition address :: "'r WorkerServer \<Rightarrow> string" where
  "address ws = ws_host ws @ '':'' @ show_uint (uint (ws_port ws))"

definition callback_url :: "'r WorkerServer \<Rightarrow> string \<Rightarrow> string option" where
  "callback_url ws pool_name =
    map_option (\<lambda>addr. ''http://'' @ rev (dropWhile (\<lambda>c. c = CHR ''/'') (rev addr)) @ ''/'' @ pool_name) (ws_advertised_addr ws)"

text \<open>Sending on a watch channel without receivers changes nothing.\<close>
definition shutdown :: "'r WorkerServer \<Rightarrow> 'r WorkerServer" where
  "shutdown ws = (if ws_receivers ws = 0 then ws else ws\<lparr> ws_shutdown := True \<rparr>)"

datatype listen_error = BindFailed string | NonblockingFailed string | ConvertFailed string

definition ensure_started :: "(string \<Rightarrow> listen_error + unit) \<Rightarrow> 'r WorkerServer \<Rightarrow> (string + unit) \<times> 'r WorkerServer" where
  "ensure_started listen ws =
    (if ws_started ws then (Inr (), ws)
     else let ws = ws\<lparr> ws_started := True \<rparr>
          in case listen (address ws) of
               Inl (BindFailed e) \<Rightarrow> (Inl (''worker server failed to bind to '' @ address ws @ '': '' @ e), ws)
             | Inl (NonblockingFailed e) \<Rightarrow> (Inl (''worker server: failed to set non-blocking on listener: '' @ e), ws)
             | Inl (ConvertFailed e) \<Rightarrow> (Inl (''worker server: failed to convert listener to async: '' @ e), ws)
             | Inr _ \<Rightarrow> (Inr (), ws\<lparr> ws_listening := True, ws_receivers := Suc (ws_receivers ws) \<rparr>))"

definition register_pool :: "(string \<Rightarrow> listen_error + unit) \<Rightarrow> string \<Rightarrow> 'r \<Rightarrow> 'r WorkerServer \<Rightarrow> (string + unit) \<times> 'r WorkerServer" where
  "register_pool listen pool_name router ws =
    (case validate_pool_name pool_name of
       Inl e \<Rightarrow> (Inl e, ws)
     | Inr _ \<Rightarrow> ensure_started listen (ws\<lparr> ws_pools := AList.update pool_name router (ws_pools ws) \<rparr>))"

definition worker_server_start :: "(string \<Rightarrow> listen_error + unit) \<Rightarrow> 'r WorkerServer \<Rightarrow> (string + unit) \<times> 'r WorkerServer" where
  "worker_server_start listen ws = (if ws_pools ws = [] then (Inr (), ws) else ensure_started listen ws)"

section \<open>Requests\<close>

definition strip_slash :: "string \<Rightarrow> string" where
  "strip_slash path = (case path of c # cs \<Rightarrow> if c = CHR ''/'' then cs else path | [] \<Rightarrow> [])"

definition extract_pool_and_rest :: "string \<Rightarrow> string \<times> string" where
  "extract_pool_and_rest path =
    (let after_slash = strip_slash path
     in if CHR ''/'' \<in> set after_slash
        then (takeWhile (\<lambda>c. c \<noteq> CHR ''/'') after_slash, dropWhile (\<lambda>c. c \<noteq> CHR ''/'') after_slash)
        else if after_slash \<noteq> [] then (after_slash, ''/'')
        else ([], ''/''))"

datatype 'r pool_response = PlainText StatusCode string | Forwarded 'r string

text \<open>\<open>keys\<close> is the order in which the hash map lists its keys; \<open>check_uri\<close> are the two checks of the new path and query.\<close>
definition available_pools_string :: "(string list \<Rightarrow> string list) \<Rightarrow> 'r WorkerServer \<Rightarrow> string" where
  "available_pools_string keys ws = join '', '' (keys (map fst (ws_pools ws)))"

definition dispatch_to_pool :: "(string list \<Rightarrow> string list) \<Rightarrow> (string \<Rightarrow> string + unit) \<Rightarrow> 'r WorkerServer \<Rightarrow> string \<Rightarrow> string option
    \<Rightarrow> 'r pool_response" where
  "dispatch_to_pool keys check_uri ws path query =
    (case extract_pool_and_rest path of (pool_name, rest_path) \<Rightarrow>
       if pool_name = [] then PlainText 404 (''no pool specified; available pools: ['' @ available_pools_string keys ws @ '']'')
       else case map_of (ws_pools ws) pool_name of
              None \<Rightarrow> PlainText 404 (''pool '' @ [CHR 0x27] @ pool_name @ [CHR 0x27] @ '' not found; available pools: [''
                @ available_pools_string keys ws @ '']'')
            | Some router \<Rightarrow>
                let new_pq = (case query of Some q \<Rightarrow> rest_path @ ''?'' @ q | None \<Rightarrow> rest_path)
                in case check_uri new_pq of
                     Inl e \<Rightarrow> PlainText 400 e
                   | Inr _ \<Rightarrow> Forwarded router new_pq)"

section \<open>Requests reach their pool\<close>

lemma validate_pool_name_iff: "validate_pool_name n = Inr () \<longleftrightarrow> n \<noteq> [] \<and> list_all pool_char n"
  by (auto simp: validate_pool_name_def list_all_iff find_None_iff find_Some_iff split: option.splits)

lemma pool_char_no_slash: "list_all pool_char n \<Longrightarrow> CHR ''/'' \<notin> set n"
  by (auto simp: list_all_iff pool_char_def is_ascii_alphanumeric_def less_eq_char_def)

lemma extract_pool:
  assumes "list_all pool_char n" "n \<noteq> []" "rest = [] \<or> hd rest = CHR ''/''"
  shows "extract_pool_and_rest (CHR ''/'' # n @ rest) = (n, if rest = [] then ''/'' else rest)"
proof -
  have ns: "\<forall>x \<in> set n. x \<noteq> CHR ''/''" using pool_char_no_slash[OF assms(1)] by auto
  show ?thesis
  proof (cases rest)
    case Nil
    then show ?thesis using ns assms(2) by (auto simp: extract_pool_and_rest_def strip_slash_def)
  next
    case (Cons c cs)
    then have "takeWhile (\<lambda>c. c \<noteq> CHR ''/'') (n @ rest) = n" "dropWhile (\<lambda>c. c \<noteq> CHR ''/'') (n @ rest) = rest"
      using ns assms(3) by (simp_all add: takeWhile_append2 dropWhile_append2)
    then show ?thesis using Cons assms(3) by (simp add: extract_pool_and_rest_def strip_slash_def)
  qed
qed

lemma ensure_started_pools: "ws_pools (snd (ensure_started listen ws)) = ws_pools ws"
  by (auto simp: ensure_started_def Let_def split: sum.splits listen_error.splits)

text \<open>Every request below \<open>/pool\<close> reaches the pool registered under that name, with the rest of the path and the query.\<close>
lemma dispatch_registered:
  assumes "validate_pool_name n = Inr ()" "map_of (ws_pools ws) n = Some r" "rest = [] \<or> hd rest = CHR ''/''" "\<And>pq. check_uri pq = Inr ()"
  shows "dispatch_to_pool keys check_uri ws (CHR ''/'' # n @ rest) query =
    Forwarded r ((if rest = [] then ''/'' else rest) @ (case query of Some q \<Rightarrow> ''?'' @ q | None \<Rightarrow> []))"
proof -
  have n: "list_all pool_char n" "n \<noteq> []" using assms(1) by (simp_all add: validate_pool_name_iff)
  then show ?thesis using assms(2-4) by (auto simp: dispatch_to_pool_def extract_pool Let_def split: option.splits)
qed

text \<open>C40 A failed start is remembered as a start: once binding the listener has failed, every later registration of a
  valid pool and every explicit start report success although nothing listens.\<close>
theorem worker_bind_failure_hidden:
  assumes "ensure_started listen ws = (Inl e, ws')" "\<not> ws_listening ws" "validate_pool_name n = Inr ()"
  shows "fst (register_pool listen' n r ws') = Inr () \<and> \<not> ws_listening (snd (register_pool listen' n r ws'))
    \<and> fst (worker_server_start listen' ws') = Inr () \<and> \<not> ws_listening (snd (worker_server_start listen' ws'))"
proof -
  have "ws_started ws'" "\<not> ws_listening ws'"
    using assms(1,2) by (auto simp: ensure_started_def Let_def split: if_splits sum.splits listen_error.splits)
  then show ?thesis using assms(3) by (simp add: register_pool_def worker_server_start_def ensure_started_def)
qed

section \<open>Examples\<close>

definition demo_ws :: "nat WorkerServer" where
  "demo_ws = worker_server_new ''0.0.0.0'' 9001 None"

theorem worker_bind_failure_hidden_witness:
  "fst (register_pool (\<lambda>_. Inl (BindFailed ''in use'')) ''mars'' 7 (snd (ensure_started (\<lambda>_. Inl (BindFailed ''in use'')) demo_ws))) = Inr ()"
proof -
  have "validate_pool_name ''mars'' = Inr ()" by code_simp
  moreover have "ensure_started (\<lambda>_. Inl (BindFailed ''in use'')) demo_ws =
      (Inl (''worker server failed to bind to '' @ address demo_ws @ '': in use''), demo_ws\<lparr> ws_started := True \<rparr>)" "\<not> ws_listening demo_ws"
    by (simp_all add: ensure_started_def demo_ws_def worker_server_new_def address_def)
  ultimately show ?thesis using worker_bind_failure_hidden[of _ demo_ws] by simp
qed

end
