(* ===== verification/Route_Config.thy ===== *)
theory Route_Config
  imports Worker_Server
begin

text \<open>
  Routes from configuration (\<open>bits/src/config.rs\<close>, \<open>bits/src/actions/registry.rs\<close>, \<open>Dispatcher::from_config\<close>).

  The action registry, the parsing of routes, actions, dispatcher settings and user limits, and the attachment of
  dispatchers.  The worker server and the cache of resolved targets are the state of the parse (\<open>ParseState\<close>), kept
  also when it fails.  Deserialisation of the two kind enumerations by serde, the JSON text of a value, the conversion of
  floating-point seconds, the listener, and the behaviour of a started dispatcher are fields of \<open>ConfigEnv\<close>.
  \<open>usize\<close> has 64 bits.
\<close>

section \<open>Configuration values\<close>

definition as_object :: "json \<Rightarrow> (string \<times> json) list option" where
  "as_object v = (case v of JObject kvs \<Rightarrow> Some kvs | _ \<Rightarrow> None)"

definition as_bool :: "json \<Rightarrow> bool option" where
  "as_bool v = (case v of JBool b \<Rightarrow> Some b | _ \<Rightarrow> None)"

definition has_key :: "(string \<times> json) list \<Rightarrow> string \<Rightarrow> bool" where
  "has_key kvs k \<longleftrightarrow> map_of kvs k \<noteq> None"

definition map_transpose :: "('a \<Rightarrow> 'e + 'b) \<Rightarrow> 'a option \<Rightarrow> 'e + 'b option" where
  "map_transpose f v = (case v of None \<Rightarrow> Inr None | Some x \<Rightarrow> bind_result (f x) (\<lambda>y. Inr (Some y)))"

definition validation :: "string \<Rightarrow> string \<Rightarrow> BitsError" where
  "validation path reason = BE_Config (CE_Validation path reason)"

definition missing :: "string \<Rightarrow> BitsError" where
  "missing path = BE_Config (CE_MissingField path)"

definition quoted :: "string \<Rightarrow> string" where
  "quoted s = [CHR 0x27] @ s @ [CHR 0x27]"

text \<open>Floating-point numbers are their bits.\<close>
record RemotePoolConfig =
  rpc_heartbeat_timeout_secs :: u64

datatype ExecutorKind = AsyncPool "nat option" | ThreadPool "nat option" | RemotePool RemotePoolConfig

definition default_heartbeat_timeout_secs :: u64 where
  "default_heartbeat_timeout_secs = 0x404E000000000000"

record RemotePoolExecutor =
  rpe_pool_name :: string
  rpe_heartbeat_timeout :: duration
  rpe_callback_url :: "string option"

datatype ExecutorSpec = AsyncPoolExecutor nat | ThreadPoolExecutor nat | RemoteExecutor RemotePoolExecutor

record DispatcherSpec =
  ds_queue :: QueueKind
  ds_executor :: ExecutorSpec
  ds_capacity :: nat
  ds_user_limiter :: "UserLimiter option"

type_synonym 'x action_factory = "json \<Rightarrow> ActionError + 'x Action"
type_synonym 'x close_fn = "'x World_scheme \<Rightarrow> 'x World_scheme"

record 'x ConfigEnv =
  ce_inventory :: "(string \<times> 'x action_factory) list"
  ce_runtime :: "(string \<times> 'x action_factory) list"
  ce_json_text :: "json \<Rightarrow> string"
  ce_queue_kind :: "json \<Rightarrow> string + QueueKind"
  ce_executor_kind :: "json \<Rightarrow> string + ExecutorKind"
  ce_secs :: "u64 \<Rightarrow> string + duration"
  ce_listen :: "string \<Rightarrow> listen_error + unit"
  ce_check :: "DispatcherSpec \<Rightarrow> ('x, CheckResult) sched \<times> 'x close_fn"
  ce_transform :: "DispatcherSpec \<Rightarrow> 'x sched_transform \<times> 'x close_fn"
  ce_target :: "DispatcherSpec \<Rightarrow> ('x, TargetResult) sched \<times> 'x close_fn"

section \<open>The action registry\<close>

definition register_runtime_action :: "string \<Rightarrow> 'x action_factory \<Rightarrow> 'x ConfigEnv \<Rightarrow> (ActionError + unit) \<times> 'x ConfigEnv" where
  "register_runtime_action name factory env =
    (if name \<in> fst ` set (ce_inventory env)
     then (Inl (AE_ConfigError (''Cannot register '' @ quoted name @ '': conflicts with a built-in action'')), env)
     else if name \<in> fst ` set (ce_runtime env)
     then (Inl (AE_ConfigError (''Cannot register '' @ quoted name @ '': already registered as a runtime action'')), env)
     else (Inr (), env\<lparr> ce_runtime := AList.update name factory (ce_runtime env) \<rparr>))"

definition list_actions :: "'x ConfigEnv \<Rightarrow> string list" where
  "list_actions env = map fst (ce_inventory env) @ map fst (ce_runtime env)"

definition create_action :: "'x ConfigEnv \<Rightarrow> string \<Rightarrow> json \<Rightarrow> ActionError + 'x Action" where
  "create_action env name config =
    (case map_of (ce_runtime env) name of
       Some factory \<Rightarrow> factory config
     | None \<Rightarrow>
         (case map_of (ce_inventory env) name of
            Some factory \<Rightarrow> factory config
          | None \<Rightarrow> Inl (AE_ConfigError (''Unknown action: '' @ quoted name @ ''. Available actions: [''
              @ join '', '' (list_actions env) @ '']''))))"

section \<open>User limits\<close>

definition parse_ceiling :: "json \<Rightarrow> string \<Rightarrow> BitsError + nat" where
  "parse_ceiling v path =
    (case as_u64 v of None \<Rightarrow> Inl (validation path ''must be a non-negative integer'') | Some n \<Rightarrow> Inr (unat n))"

definition check_keys :: "string \<Rightarrow> string list \<Rightarrow> string \<Rightarrow> (string \<times> json) list \<Rightarrow> BitsError + unit" where
  "check_keys path allowed expected kvs =
    (case find (\<lambda>(key, _). key \<notin> set allowed) kvs of
       Some (key, _) \<Rightarrow> Inl (validation path (''unknown field '' @ quoted key @ '' (expected '' @ expected @ '')''))
     | None \<Rightarrow> Inr ())"

fun parse_roles :: "string \<Rightarrow> (string \<times> json) list \<Rightarrow> BitsError + (string \<times> nat) list" where
  "parse_roles realm_path [] = Inr []"
| "parse_roles realm_path ((role, v) # kvs) =
    bind_result (parse_ceiling v (realm_path @ ''.roles.'' @ role)) (\<lambda>n.
    bind_result (parse_roles realm_path kvs) (\<lambda>roles. Inr ((role, n) # roles)))"

definition parse_realm :: "string \<Rightarrow> json \<Rightarrow> BitsError + RealmLimit" where
  "parse_realm realm_path v =
    (case as_object v of
       None \<Rightarrow> Inl (validation realm_path ''must be an object'')
     | Some kvs \<Rightarrow>
         bind_result (check_keys realm_path [''max'', ''roles''] (quoted ''max'' @ '' and/or '' @ quoted ''roles'') kvs) (\<lambda>_.
         bind_result (map_transpose (\<lambda>m. parse_ceiling m (realm_path @ ''.max'')) (map_of kvs ''max'')) (\<lambda>realm_default.
         bind_result
           (case map_of kvs ''roles'' of
              None \<Rightarrow> Inr []
            | Some rv \<Rightarrow>
                (case as_object rv of
                   None \<Rightarrow> Inl (validation (realm_path @ ''.roles'') ''must be an object'')
                 | Some rs \<Rightarrow> parse_roles realm_path rs)) (\<lambda>roles.
         if realm_default = None \<and> roles = []
         then Inl (validation realm_path (''must define '' @ quoted ''max'' @ '' and/or a non-empty '' @ quoted ''roles'' @ '' map''))
         else Inr \<lparr> rl_default = realm_default, rl_roles = roles \<rparr>))))"

fun parse_realms :: "(string \<times> json) list \<Rightarrow> BitsError + (string \<times> RealmLimit) list" where
  "parse_realms [] = Inr []"
| "parse_realms ((realm, v) # kvs) =
    bind_result (parse_realm (''dispatcher.user_limit.realms.'' @ realm) v) (\<lambda>block.
    bind_result (parse_realms kvs) (\<lambda>realms. Inr ((realm, block) # realms)))"

definition parse_user_limit :: "json \<Rightarrow> BitsError + UserLimitConfig" where
  "parse_user_limit v =
    (case as_object v of
       None \<Rightarrow> Inl (validation ''dispatcher.user_limit'' ''must be an object'')
     | Some obj \<Rightarrow>
         bind_result (map_transpose (\<lambda>m. parse_ceiling m ''dispatcher.user_limit.max'') (map_of obj ''max'')) (\<lambda>default.
         bind_result (check_keys ''dispatcher.user_limit'' [''max'', ''realms''] (quoted ''max'' @ '' and/or '' @ quoted ''realms'') obj) (\<lambda>_.
         bind_result
           (case map_of obj ''realms'' of
              None \<Rightarrow> Inr []
            | Some rv \<Rightarrow>
                (case as_object rv of
                   None \<Rightarrow> Inl (validation ''dispatcher.user_limit.realms'' ''must be an object'')
                 | Some rs \<Rightarrow> parse_realms rs)) (\<lambda>realms.
         if default = None \<and> realms = []
         then Inl (validation ''dispatcher.user_limit''
           (''must define a global '' @ quoted ''max'' @ '' and/or at least one realm block''))
         else Inr \<lparr> ulc_default = default, ulc_realms = realms \<rparr>))))"

section \<open>Dispatcher settings\<close>

definition DEFAULT_QUEUE_CAPACITY :: nat where "DEFAULT_QUEUE_CAPACITY = 500000"

record DispatcherSettings =
  st_queue :: "QueueKind option"
  st_executor :: "ExecutorKind option"
  st_queue_capacity :: nat
  st_user_limit :: "UserLimitConfig option"

definition dispatcher_settings_default :: DispatcherSettings where
  "dispatcher_settings_default = \<lparr> st_queue = None, st_executor = None, st_queue_capacity = DEFAULT_QUEUE_CAPACITY, st_user_limit = None \<rparr>"

definition parse_capacity :: "json option \<Rightarrow> BitsError + nat" where
  "parse_capacity value =
    (case value of
       None \<Rightarrow> Inr DEFAULT_QUEUE_CAPACITY
     | Some v \<Rightarrow>
         (case as_u64 v of
            None \<Rightarrow> Inl (validation ''dispatcher.queue_capacity'' ''must be a positive integer'')
          | Some cap \<Rightarrow>
              if cap = 0 then Inl (validation ''dispatcher.queue_capacity'' ''must be greater than zero'') else Inr (unat cap)))"

definition decode_field :: "(json \<Rightarrow> string + 'a) \<Rightarrow> string \<Rightarrow> string \<Rightarrow> json \<Rightarrow> BitsError + 'a" where
  "decode_field from_value path target v =
    (case from_value v of Inl e \<Rightarrow> Inl (BE_Config (CE_Decode path target e)) | Inr x \<Rightarrow> Inr x)"

definition parse_dispatcher_fields :: "'x ConfigEnv \<Rightarrow> json option \<Rightarrow> BitsError + DispatcherSettings" where
  "parse_dispatcher_fields env dispatcher =
    (case dispatcher of
       None \<Rightarrow> Inr dispatcher_settings_default
     | Some d \<Rightarrow>
         (case as_object d of
            None \<Rightarrow> Inl (validation ''dispatcher'' ''must be an object'')
          | Some m \<Rightarrow>
              bind_result (map_transpose (decode_field (ce_queue_kind env) ''dispatcher.queue'' ''QueueKind'') (map_of m ''queue'')) (\<lambda>queue.
              bind_result (map_transpose (decode_field (ce_executor_kind env) ''dispatcher.executor'' ''ExecutorKind'') (map_of m ''executor'')) (\<lambda>executor.
              bind_result (parse_capacity (map_of m ''queue_capacity'')) (\<lambda>capacity.
              bind_result (map_transpose parse_user_limit (map_of m ''user_limit'')) (\<lambda>user_limit.
              if has_key m ''concurrency''
              then Inl (validation ''dispatcher.concurrency'' ''removed; set concurrency inside the executor block instead'')
              else if has_key m ''persistent'' \<or> has_key m ''lock_ttl_secs''
              then Inl (validation ''dispatcher'' ''persistent/lock_ttl_secs removed; use bits.persist_after_secs policy'')
              else Inr \<lparr> st_queue = queue, st_executor = executor, st_queue_capacity = capacity, st_user_limit = user_limit \<rparr>))))))"

section \<open>Dispatchers from settings\<close>

record Registries =
  rg_checks :: "(string \<times> json) list"
  rg_transforms :: "(string \<times> json) list"
  rg_targets :: "(string \<times> json) list"

record ParseContext =
  pc_registries :: Registries
  pc_broker_id :: string

type_synonym 'x ResolvedTarget =
  "('x, TargetResult) action_fn \<times> json \<times> (('x, TargetResult) sched \<times> 'x close_fn) option \<times> bool option"

record 'x ParseState =
  ps_resolved :: "(string \<times> 'x ResolvedTarget) list"
  ps_worker_server :: "RemotePoolExecutor WorkerServer option"

definition DEFAULT_POOL_SIZE :: nat where "DEFAULT_POOL_SIZE = 256"

text \<open>\<open>start_scheduler\<close>: the local pools only spawn their tasks; a remote pool registers with the worker server, and then its
  reaper watches for the shutdown.\<close>
definition start_scheduler :: "(string \<Rightarrow> listen_error + unit) \<Rightarrow> ExecutorSpec \<Rightarrow> RemotePoolExecutor WorkerServer option
    \<Rightarrow> (string + unit) \<times> RemotePoolExecutor WorkerServer option" where
  "start_scheduler listen executor ws =
    (case (executor, ws) of
       (RemoteExecutor p, Some s) \<Rightarrow>
         (case register_pool listen (rpe_pool_name p) p s of
            (Inl e, s) \<Rightarrow> (Inl (''remote_pool: failed to register pool '' @ quoted (rpe_pool_name p) @ '': '' @ e), Some s)
          | (Inr _, s) \<Rightarrow> (Inr (), Some (s\<lparr> ws_receivers := Suc (ws_receivers s) \<rparr>)))
     | _ \<Rightarrow> (Inr (), ws))"

definition remote_executor :: "'x ConfigEnv \<Rightarrow> bool \<Rightarrow> string option \<Rightarrow> RemotePoolExecutor WorkerServer option \<Rightarrow> RemotePoolConfig
    \<Rightarrow> string + ExecutorSpec" where
  "remote_executor env target_result pool_name ws cfg =
    (if \<not> target_result then Inl ''remote_pool executor can only be used with target actions''
     else bind_result (ok_or pool_name ''remote_pool executor requires a named target registry entry (pool name)'') (\<lambda>name.
       bind_result (ok_or ws ''remote_pool executor requires bits.worker_server to be configured'') (\<lambda>server.
       case ce_secs env (rpc_heartbeat_timeout_secs cfg) of
         Inl e \<Rightarrow> Inl (''remote_pool: invalid heartbeat_timeout_secs: '' @ e)
       | Inr timeout \<Rightarrow>
           if timeout = 0 then Inl ''remote_pool: heartbeat_timeout_secs must be positive''
           else Inr (RemoteExecutor \<lparr> rpe_pool_name = name, rpe_heartbeat_timeout = timeout,
                  rpe_callback_url = callback_url server name \<rparr>))))"

text \<open>\<open>target_result\<close> is the type test on \<open>T\<close>.\<close>
definition from_config :: "'x ConfigEnv \<Rightarrow> bool \<Rightarrow> QueueKind option \<Rightarrow> ExecutorKind option \<Rightarrow> string option \<Rightarrow> nat
    \<Rightarrow> RemotePoolExecutor WorkerServer option \<Rightarrow> (string + DispatcherSpec option) \<times> RemotePoolExecutor WorkerServer option" where
  "from_config env target_result queue executor pool_name queue_capacity ws =
    (if queue = None \<and> executor = None then (Inr None, ws)
     else case (case executor of
                  None \<Rightarrow> Inr (AsyncPoolExecutor DEFAULT_POOL_SIZE)
                | Some (AsyncPool concurrency) \<Rightarrow> Inr (AsyncPoolExecutor (unwrap_or concurrency DEFAULT_POOL_SIZE))
                | Some (ThreadPool concurrency) \<Rightarrow> Inr (ThreadPoolExecutor (unwrap_or concurrency DEFAULT_POOL_SIZE))
                | Some (RemotePool cfg) \<Rightarrow> remote_executor env target_result pool_name ws cfg) of
            Inl e \<Rightarrow> (Inl e, ws)
          | Inr exec \<Rightarrow>
              if queue_capacity = 0 then (Inl ''queue_capacity must be greater than zero'', ws)
              else (case start_scheduler (ce_listen env) exec ws of
                      (Inl e, ws) \<Rightarrow> (Inl e, ws)
                    | (Inr _, ws) \<Rightarrow> (Inr (Some \<lparr> ds_queue = unwrap_or queue Fifo, ds_executor = exec,
                        ds_capacity = queue_capacity, ds_user_limiter = None \<rparr>), ws)))"

definition with_user_limit :: "UserLimitConfig option \<Rightarrow> string \<Rightarrow> string \<Rightarrow> DispatcherSpec \<Rightarrow> DispatcherSpec" where
  "with_user_limit cfg scope broker_id d =
    d\<lparr> ds_user_limiter := map_option (\<lambda>c. limiter_new c scope broker_id) cfg \<rparr>"

text \<open>The executor of the settings against the type of the action, and the defaults that follow.\<close>
definition settle_executor :: "bool \<Rightarrow> bool \<Rightarrow> DispatcherSettings \<Rightarrow> BitsError + DispatcherSettings" where
  "settle_executor is_remote_action has_worker_server settings =
    bind_result
      (if is_remote_action then
         bind_result
           (case st_executor settings of
              None \<Rightarrow> Inr (settings\<lparr> st_executor := Some (RemotePool \<lparr> rpc_heartbeat_timeout_secs = default_heartbeat_timeout_secs \<rparr>) \<rparr>)
            | Some (RemotePool _) \<Rightarrow> Inr settings
            | Some _ \<Rightarrow> Inl (validation ''dispatcher.executor'' (quoted ''remote'' @ '' target requires executor: remote_pool'')))
           (\<lambda>settings. if has_worker_server then Inr settings else Inl (missing ''bits.worker_server''))
       else (case st_executor settings of
               Some (RemotePool _) \<Rightarrow>
                 Inl (validation ''dispatcher.executor'' (''remote_pool requires a '' @ quoted ''remote'' @ '' target action''))
             | _ \<Rightarrow> Inr settings))
      (\<lambda>settings. Inr (if st_user_limit settings \<noteq> None \<and> st_queue settings = None \<and> st_executor settings = None
                      then settings\<lparr> st_queue := Some Fifo \<rparr> else settings))"

definition make_dispatcher :: "'x ConfigEnv \<Rightarrow> ParseContext \<Rightarrow> bool \<Rightarrow> string option \<Rightarrow> string \<Rightarrow> DispatcherSettings \<Rightarrow> 'x ParseState
    \<Rightarrow> (BitsError + DispatcherSpec option) \<times> 'x ParseState" where
  "make_dispatcher env ctx target_result pool_name entry_name settings st =
    (case from_config env target_result (st_queue settings) (st_executor settings) pool_name (st_queue_capacity settings)
            (if target_result then ps_worker_server st else None) of
       (Inl e, ws) \<Rightarrow> (Inl (validation ''dispatcher'' e), if target_result then st\<lparr> ps_worker_server := ws \<rparr> else st)
     | (Inr d, ws) \<Rightarrow> (Inr (map_option (with_user_limit (st_user_limit settings) entry_name (pc_broker_id ctx)) d),
                       if target_result then st\<lparr> ps_worker_server := ws \<rparr> else st))"

definition attach_dispatcher :: "'x ConfigEnv \<Rightarrow> ParseContext \<Rightarrow> string \<Rightarrow> string \<Rightarrow> 'x Action \<Rightarrow> DispatcherSettings \<Rightarrow> bool option
    \<Rightarrow> 'x ParseState \<Rightarrow> (BitsError + 'x Action) \<times> 'x ParseState" where
  "attach_dispatcher env ctx entry_name action_name action settings silent st =
    (let is_remote_action = (action_name = ''remote'') in
     case settle_executor is_remote_action (ps_worker_server st \<noteq> None) settings of
       Inl e \<Rightarrow> (Inl e, st)
     | Inr settings \<Rightarrow>
         (case action of
            Check f d _ _ \<Rightarrow>
              (case make_dispatcher env ctx False None entry_name settings st of
                 (Inl e, st) \<Rightarrow> (Inl e, st)
               | (Inr disp, st) \<Rightarrow> (Inr (Check f d (map_option (ce_check env) disp) silent), st))
          | Transform f d _ _ \<Rightarrow>
              (case make_dispatcher env ctx False None entry_name settings st of
                 (Inl e, st) \<Rightarrow> (Inl e, st)
               | (Inr disp, st) \<Rightarrow> (Inr (Transform f d (map_option (ce_transform env) disp) silent), st))
          | Target f d _ _ \<Rightarrow>
              (case make_dispatcher env ctx True (if is_remote_action then Some entry_name else None) entry_name settings st of
                 (Inl e, st) \<Rightarrow> (Inl e, st)
               | (Inr disp, st) \<Rightarrow> (Inr (Target f d (map_option (ce_target env) disp) silent), st))
          | Switch _ \<Rightarrow>
              if st_queue settings \<noteq> None \<or> st_executor settings \<noteq> None
              then (Inl (validation ''dispatcher'' ''config only valid for Check, Transform, and Target actions''), st)
              else (Inr action, st)))"

section \<open>Actions\<close>

text \<open>The built-in \<open>remote\<close> target (\<open>actions/target_remote.rs\<close>) does nothing locally.\<close>
definition remote_target_dispatch :: "('x, TargetResult) action_fn" where
  "remote_target_dispatch job w =
    (Inl (AE_ConfigError (quoted ''remote'' @ '' target must be paired with '' @ quoted ''executor: remote_pool'')), w)"

definition action_from_entry :: "'x ConfigEnv \<Rightarrow> ParseContext \<Rightarrow> string \<Rightarrow> string \<Rightarrow> json \<Rightarrow> 'x ParseState
    \<Rightarrow> (BitsError + 'x Action) \<times> 'x ParseState" where
  "action_from_entry env ctx ns entry_name entry st =
    (let path = ns @ ''.'' @ entry_name;
         parsed =
           (case as_object entry of
              None \<Rightarrow> Inl (validation path (''must be an object, got: '' @ ce_json_text env entry))
            | Some m \<Rightarrow>
                if has_key m ''persistent'' \<or> has_key m ''lock_ttl_secs''
                then Inl (validation path ''persistent/lock_ttl_secs removed; use bits.persist_after_secs'')
                else
                  bind_result (ok_or (Option.bind (map_of m ''type'') as_str) (missing (path @ ''.type''))) (\<lambda>type_name.
                  bind_result (parse_dispatcher_fields env (map_of m ''dispatcher'')) (\<lambda>settings.
                  bind_result (map_transpose (\<lambda>v. ok_or (as_bool v) (validation (path @ ''.silent'') ''must be a boolean''))
                      (map_of m ''silent'')) (\<lambda>silent.
                  let config = JObject (filter (\<lambda>(k, _). k \<notin> {''type'', ''dispatcher'', ''silent''}) m)
                  in case create_action env type_name config of
                       Inl e \<Rightarrow> Inl (validation (path @ ''.type'') (action_error_display e))
                     | Inr action \<Rightarrow> Inr (type_name, settings, silent, action)))))
     in case parsed of
          Inl e \<Rightarrow> (Inl e, st)
        | Inr (type_name, settings, silent, action) \<Rightarrow> attach_dispatcher env ctx entry_name type_name action settings silent st)"

fun split_colons :: "string \<Rightarrow> (string \<times> string) option" where
  "split_colons (a # b # s) =
    (if a = CHR '':'' \<and> b = CHR '':'' then Some ([], s)
     else map_option (\<lambda>(x, y). (a # x, y)) (split_colons (b # s)))"
| "split_colons _ = None"

definition split_ns :: "string \<Rightarrow> string \<Rightarrow> BitsError + (string \<times> string)" where
  "split_ns s rname =
    ok_or (split_colons s) (BE_Routing (InvalidAction rname s ''must be namespace::name''))"

definition named_entry :: "string \<Rightarrow> string \<Rightarrow> string \<Rightarrow> (string \<times> json) list \<Rightarrow> BitsError + json" where
  "named_entry ns name rname registry =
    ok_or (map_of registry name)
      (BE_Routing (InvalidAction rname (ns @ ''::'' @ name) (''unknown '' @ ns @ '' '' @ quoted name)))"

definition resolve_named :: "'x ConfigEnv \<Rightarrow> ParseContext \<Rightarrow> string \<Rightarrow> string \<Rightarrow> string \<Rightarrow> 'x ParseState
    \<Rightarrow> (BitsError + 'x Action) \<times> 'x ParseState" where
  "resolve_named env ctx ns name rname st =
    (if ns = ''check'' then
       (case named_entry ns name rname (rg_checks (pc_registries ctx)) of
          Inl e \<Rightarrow> (Inl e, st) | Inr entry \<Rightarrow> action_from_entry env ctx ns name entry st)
     else if ns = ''transform'' then
       (case named_entry ns name rname (rg_transforms (pc_registries ctx)) of
          Inl e \<Rightarrow> (Inl e, st) | Inr entry \<Rightarrow> action_from_entry env ctx ns name entry st)
     else if ns = ''target'' then
       (case map_of (ps_resolved st) name of
          Some (f, d, dispatcher, surface) \<Rightarrow> (Inr (Target f d dispatcher surface), st)
        | None \<Rightarrow>
            (case named_entry ns name rname (rg_targets (pc_registries ctx)) of
               Inl e \<Rightarrow> (Inl e, st)
             | Inr entry \<Rightarrow>
                 (case action_from_entry env ctx ns name entry st of
                    (Inr (Target f d dispatcher surface), st) \<Rightarrow>
                      (Inr (Target f d dispatcher surface),
                       st\<lparr> ps_resolved := AList.update name (f, d, dispatcher, surface) (ps_resolved st) \<rparr>)
                  | (r, st) \<Rightarrow> (r, st))))
     else (Inl (BE_Routing (InvalidAction rname (ns @ ''::'' @ name) (''unknown namespace '' @ quoted ns))), st))"

definition validate_inline_action :: "string \<Rightarrow> string \<Rightarrow> string \<Rightarrow> 'x Action \<Rightarrow> BitsError + unit" where
  "validate_inline_action ns rname action_name action =
    (case action of
       Check _ _ _ _ \<Rightarrow> if ns = ''check'' then Inr () else Inl (BE_Routing (InvalidAction rname action_name
         (''inline action namespace '' @ quoted ns @ '' does not match action type'')))
     | Transform _ _ _ _ \<Rightarrow> if ns = ''transform'' then Inr () else Inl (BE_Routing (InvalidAction rname action_name
         (''inline action namespace '' @ quoted ns @ '' does not match action type'')))
     | Target _ _ _ _ \<Rightarrow> if ns = ''target'' then Inr () else Inl (BE_Routing (InvalidAction rname action_name
         (''inline action namespace '' @ quoted ns @ '' does not match action type'')))
     | Switch _ \<Rightarrow> Inl (BE_Routing (InvalidAction rname action_name
         (''inline action namespace '' @ quoted ns @ '' does not match action type''))))"

definition parse_inline :: "'x ConfigEnv \<Rightarrow> ParseContext \<Rightarrow> string \<Rightarrow> (string \<times> json) list \<Rightarrow> 'x ParseState
    \<Rightarrow> (BitsError + 'x Action) \<times> 'x ParseState" where
  "parse_inline env ctx rname m st =
    (case find (\<lambda>(key, _). split_colons key \<noteq> None) m of
       None \<Rightarrow> (Inl (BE_Routing (InvalidAction rname (ce_json_text env (JObject m)) ''unrecognised action'')), st)
     | Some (key, config) \<Rightarrow>
         (case
            bind_result (split_ns key rname) (\<lambda>(ns, action_name).
            if action_name = ''remote''
            then Inl (BE_Routing (InvalidAction rname key (''target::remote must be defined as a named registry entry (not inline); ''
              @ ''the pool name is derived from the registry entry name'')))
            else (case create_action env action_name config of
                    Inl e \<Rightarrow> Inl (BE_Routing (InvalidAction rname key (action_error_display e)))
                  | Inr action \<Rightarrow>
                      bind_result (validate_inline_action ns rname key action) (\<lambda>_.
                      bind_result (parse_dispatcher_fields env (map_of m ''dispatcher'')) (\<lambda>settings.
                      bind_result (map_transpose (\<lambda>v. ok_or (as_bool v)
                          (BE_Routing (InvalidAction rname key ''silent must be a boolean''))) (map_of m ''silent'')) (\<lambda>silent.
                      Inr (action_name, action, settings, silent)))))) of
            Inl e \<Rightarrow> (Inl e, st)
          | Inr (action_name, action, settings, silent) \<Rightarrow>
              attach_dispatcher env ctx action_name action_name action settings silent st))"

definition parse_reference :: "'x ConfigEnv \<Rightarrow> ParseContext \<Rightarrow> string \<Rightarrow> string \<Rightarrow> 'x ParseState
    \<Rightarrow> (BitsError + 'x Action) \<times> 'x ParseState" where
  "parse_reference env ctx rname name st =
    (if name = ''persist''
     then (Inl (BE_Routing (InvalidAction rname name
       (quoted ''persist'' @ '' step has been removed; use bits.persist_after_secs instead''))), st)
     else case split_ns name rname of
            Inl e \<Rightarrow> (Inl e, st)
          | Inr (ns, entry_name) \<Rightarrow> resolve_named env ctx ns entry_name rname st)"

section \<open>Routes\<close>

definition bad_entry :: "string \<Rightarrow> nat \<Rightarrow> string \<Rightarrow> BitsError" where
  "bad_entry section index reason =
    BE_Routing (InvalidRoute (section @ ''['' @ show_uint (int index) @ '']'') reason)"

text \<open>The name and the actions of one entry of a list of routes.\<close>
definition route_entry :: "string \<Rightarrow> nat \<Rightarrow> json \<Rightarrow> BitsError + string \<times> json list" where
  "route_entry section index entry =
    bind_result (ok_or (as_object entry) (bad_entry section index ''entry must be an object'')) (\<lambda>m.
    if length m \<noteq> 1
    then Inl (bad_entry section index (''entry must have exactly one key (the route name), got '' @ show_uint (int (length m))))
    else (case hd m of (name, route_val) \<Rightarrow>
      bind_result (ok_or (as_array route_val) (BE_Routing (InvalidRoute name (section @ '' route must be an array of actions''))))
        (\<lambda>vs. Inr (name, vs))))"

definition and_then :: "('e + 'a) \<times> 's \<Rightarrow> ('a \<Rightarrow> 's \<Rightarrow> ('e + 'b) \<times> 's) \<Rightarrow> ('e + 'b) \<times> 's" where
  "and_then r k = (case r of (Inl e, st) \<Rightarrow> (Inl e, st) | (Inr x, st) \<Rightarrow> k x st)"

lemma and_then_cong [fundef_cong]:
  assumes "r = r'" "\<And>x st. r' = (Inr x, st) \<Longrightarrow> k x st = k' x st"
  shows "and_then r k = and_then r' k'"
  using assms by (auto simp: and_then_def split: prod.splits sum.splits)

lemma size_map_of: "map_of kvs k = Some v \<Longrightarrow> size v < size (JObject kvs)"
  by (induction kvs) (auto split: if_splits)

lemma size_route_entry: "route_entry section index entry = Inr (name, vs) \<Longrightarrow> size_list size vs < size entry"
  by (cases entry) (auto simp: route_entry_def as_object_def as_array_def bind_result_eq_Inr ok_or_def length_Suc_conv
      split: if_splits option.splits prod.splits json.splits)

definition parse_measure where
  "parse_measure = case_sum
    (case_sum (\<lambda>(env :: 'x ConfigEnv, ctx :: ParseContext, section :: string, value, st :: 'x ParseState). size value)
       (\<lambda>(env :: 'x ConfigEnv, ctx :: ParseContext, section :: string, index :: nat, entries, st :: 'x ParseState). size_list size entries))
    (case_sum (\<lambda>(env :: 'x ConfigEnv, ctx :: ParseContext, rname :: string, vs, st :: 'x ParseState). size_list size vs)
       (\<lambda>(env :: 'x ConfigEnv, ctx :: ParseContext, rname :: string, value :: json, st :: 'x ParseState). size value))"

function parse_routes :: "'x ConfigEnv \<Rightarrow> ParseContext \<Rightarrow> string \<Rightarrow> json \<Rightarrow> 'x ParseState \<Rightarrow> (BitsError + 'x Route list) \<times> 'x ParseState"
and parse_entries :: "'x ConfigEnv \<Rightarrow> ParseContext \<Rightarrow> string \<Rightarrow> nat \<Rightarrow> json list \<Rightarrow> 'x ParseState \<Rightarrow> (BitsError + 'x Route list) \<times> 'x ParseState"
and parse_actions :: "'x ConfigEnv \<Rightarrow> ParseContext \<Rightarrow> string \<Rightarrow> json list \<Rightarrow> 'x ParseState \<Rightarrow> (BitsError + 'x Action list) \<times> 'x ParseState"
and parse_action :: "'x ConfigEnv \<Rightarrow> ParseContext \<Rightarrow> string \<Rightarrow> json \<Rightarrow> 'x ParseState \<Rightarrow> (BitsError + 'x Action) \<times> 'x ParseState" where
  "parse_routes env ctx section value st =
    (case as_array value of
       Some entries \<Rightarrow> parse_entries env ctx section 0 entries st
     | None \<Rightarrow> (Inl (BE_Routing (InvalidRoute section ''must be an array'')), st))"
| "parse_entries env ctx section index [] st = (Inr [], st)"
| "parse_entries env ctx section index (entry # entries) st =
    (case route_entry section index entry of
       Inl e \<Rightarrow> (Inl e, st)
     | Inr p \<Rightarrow>
         and_then (parse_actions env ctx (fst p) (snd p) st) (\<lambda>actions st.
         and_then (parse_entries env ctx section (Suc index) entries st) (\<lambda>routes st.
         (Inr (Route (fst p) actions # routes), st))))"
| "parse_actions env ctx rname [] st = (Inr [], st)"
| "parse_actions env ctx rname (v # vs) st =
    and_then (parse_action env ctx rname v st) (\<lambda>a st.
    and_then (parse_actions env ctx rname vs st) (\<lambda>actions st. (Inr (a # actions), st)))"
| "parse_action env ctx rname value st =
    (case value of
       JString name \<Rightarrow> parse_reference env ctx rname name st
     | JObject m \<Rightarrow>
         (case map_of m ''switch'' of
            Some switch_val \<Rightarrow>
              and_then (parse_routes env ctx ''switch'' switch_val st) (\<lambda>routes st.
              case validate routes of
                Inl e \<Rightarrow> (Inl (BE_Routing e), st)
              | Inr _ \<Rightarrow> (Inr (Switch routes), st))
          | None \<Rightarrow> parse_inline env ctx rname m st)
     | _ \<Rightarrow> (Inl (BE_Routing (InvalidAction rname (ce_json_text env value) ''action must be string or object'')), st))"
  by pat_completeness auto

termination
proof (relation "measure parse_measure", goal_cases)
  case 1 show ?case by simp
next
  case 2 then show ?case by (simp add: parse_measure_def as_array_def split: json.splits)
qed (insert size_route_entry size_map_of, fastforce simp: parse_measure_def as_array_def split: json.splits)+

declare parse_routes.simps [simp del] parse_action.simps [simp del]

section \<open>The route factory\<close>

record 'x RouteFactory =
  rf_registries :: Registries
  rf_resolved_targets :: "(string \<times> 'x ResolvedTarget) list"
  rf_worker_server :: "RemotePoolExecutor WorkerServer option"
  rf_broker_id :: string

text \<open>\<open>entry(name).or_insert(target)\<close> for all resolved targets.\<close>
definition merge_targets :: "(string \<times> 't) list \<Rightarrow> (string \<times> 't) list \<Rightarrow> (string \<times> 't) list" where
  "merge_targets resolved shared = shared @ filter (\<lambda>(n, _). n \<notin> fst ` set shared) resolved"

text \<open>The cache is locked twice; \<open>meanwhile\<close> is what other calls add to it in between.\<close>
definition parse_route :: "'x ConfigEnv \<Rightarrow> (string \<times> 'x ResolvedTarget) list \<Rightarrow> string \<Rightarrow> json \<Rightarrow> 'x RouteFactory
    \<Rightarrow> (BitsError + 'x Route list) \<times> 'x RouteFactory" where
  "parse_route env meanwhile name v rf =
    (let ctx = \<lparr> pc_registries = rf_registries rf, pc_broker_id = rf_broker_id rf \<rparr>;
         st = \<lparr> ps_resolved = rf_resolved_targets rf, ps_worker_server = rf_worker_server rf \<rparr>
     in case parse_routes env ctx name v st of (r, st) \<Rightarrow>
          let rf = rf\<lparr> rf_worker_server := ps_worker_server st, rf_resolved_targets := merge_targets meanwhile (rf_resolved_targets rf) \<rparr>
          in case r of
               Inl e \<Rightarrow> (Inl e, rf)
             | Inr routes \<Rightarrow> (Inr routes, rf\<lparr> rf_resolved_targets := merge_targets (ps_resolved st) (rf_resolved_targets rf) \<rparr>))"

definition start_worker_server :: "'x ConfigEnv \<Rightarrow> 'x RouteFactory \<Rightarrow> (BitsError + unit) \<times> 'x RouteFactory" where
  "start_worker_server env rf =
    (case rf_worker_server rf of
       None \<Rightarrow> (Inr (), rf)
     | Some ws \<Rightarrow>
         (case worker_server_start (ce_listen env) ws of (r, ws) \<Rightarrow>
            (case r of Inl e \<Rightarrow> Inl (BE_WorkerServer (WS_Bind (address ws) e)) | Inr _ \<Rightarrow> Inr (), rf\<lparr> rf_worker_server := Some ws \<rparr>)))"

definition shutdown_worker_server :: "'x RouteFactory \<Rightarrow> 'x RouteFactory" where
  "shutdown_worker_server rf = rf\<lparr> rf_worker_server := map_option shutdown (rf_worker_server rf) \<rparr>"

section \<open>Scalar settings\<close>

definition duration_secs :: "(u64 \<Rightarrow> string + duration) \<Rightarrow> string \<Rightarrow> u64 \<Rightarrow> BitsError + duration" where
  "duration_secs try_from_secs_f64 field secs =
    (case try_from_secs_f64 secs of Inl e \<Rightarrow> Inl (validation field e) | Inr d \<Rightarrow> Inr d)"

definition positive_duration_secs :: "(u64 \<Rightarrow> string + duration) \<Rightarrow> string \<Rightarrow> u64 \<Rightarrow> BitsError + duration" where
  "positive_duration_secs try_from_secs_f64 field secs =
    bind_result (duration_secs try_from_secs_f64 field secs) (\<lambda>d.
      if d = 0 then Inl (validation field ''must be greater than zero'') else Inr d)"

definition require_site_env_tag :: "string \<Rightarrow> json option \<Rightarrow> BitsError + string" where
  "require_site_env_tag field v =
    bind_result (ok_or v (missing field)) (\<lambda>v.
    bind_result
      (case v of
         JString tag \<Rightarrow> Inr tag
       | JPosInt number \<Rightarrow> Inr (show_uint (uint number))
       | _ \<Rightarrow> Inl (validation field ''must be a string or unsigned integer tag''))
      (\<lambda>tag. case pack_tag tag of Inl err \<Rightarrow> Inl (validation field (encode_error_display err)) | Inr _ \<Rightarrow> Inr tag))"

section \<open>Accepted user limits\<close>

definition fits_u64 :: "nat \<Rightarrow> bool" where "fits_u64 n \<longleftrightarrow> n < 2 ^ 64"

definition realm_ok :: "RealmLimit \<Rightarrow> bool" where
  "realm_ok b \<longleftrightarrow> (\<forall>n \<in> set_option (rl_default b). fits_u64 n) \<and> (\<forall>(role, n) \<in> set (rl_roles b). fits_u64 n)
    \<and> \<not> (rl_default b = None \<and> rl_roles b = [])"

definition limit_ok :: "UserLimitConfig \<Rightarrow> bool" where
  "limit_ok cfg \<longleftrightarrow> (\<forall>n \<in> set_option (ulc_default cfg). fits_u64 n) \<and> (\<forall>(realm, b) \<in> set (ulc_realms cfg). realm_ok b)
    \<and> \<not> (ulc_default cfg = None \<and> ulc_realms cfg = [])"

definition ceiling_json :: "nat \<Rightarrow> json" where
  "ceiling_json n = JPosInt (of_nat n)"

definition realm_json :: "RealmLimit \<Rightarrow> json" where
  "realm_json b = JObject
    ((case rl_default b of None \<Rightarrow> [] | Some n \<Rightarrow> [(''max'', ceiling_json n)])
     @ (if rl_roles b = [] then [] else [(''roles'', JObject (map (\<lambda>(role, n). (role, ceiling_json n)) (rl_roles b)))]))"

text \<open>A configuration that is read as \<open>cfg\<close>.\<close>
definition limit_json :: "UserLimitConfig \<Rightarrow> json" where
  "limit_json cfg = JObject
    ((case ulc_default cfg of None \<Rightarrow> [] | Some n \<Rightarrow> [(''max'', ceiling_json n)])
     @ (if ulc_realms cfg = [] then [] else [(''realms'', JObject (map (\<lambda>(realm, b). (realm, realm_json b)) (ulc_realms cfg)))]))"

lemma parse_ceiling_bound: "parse_ceiling v path = Inr n \<Longrightarrow> fits_u64 n"
proof -
  have "unat w < 2 ^ 64" for w :: u64 using unsigned_less[of w, where 'a = nat] by simp
  then show "parse_ceiling v path = Inr n \<Longrightarrow> fits_u64 n" by (auto simp: parse_ceiling_def fits_u64_def split: option.splits)
qed

lemma parse_ceiling_json: "fits_u64 n \<Longrightarrow> parse_ceiling (ceiling_json n) path = Inr n"
  by (simp add: parse_ceiling_def ceiling_json_def as_u64_def fits_u64_def unsigned_of_nat take_bit_nat_eq_self)

lemma map_transpose_Inr:
  "map_transpose f v = Inr y \<longleftrightarrow> (v = None \<and> y = None) \<or> (\<exists>x z. v = Some x \<and> f x = Inr z \<and> y = Some z)"
  by (auto simp: map_transpose_def bind_result_eq_Inr split: option.splits)

lemma parse_roles_bound: "parse_roles p kvs = Inr roles \<Longrightarrow> \<forall>(role, n) \<in> set roles. fits_u64 n"
  by (induction p kvs arbitrary: roles rule: parse_roles.induct) (auto simp: bind_result_eq_Inr dest: parse_ceiling_bound)

lemma parse_roles_json:
  "\<forall>(role, n) \<in> set roles. fits_u64 n \<Longrightarrow> parse_roles p (map (\<lambda>(role, n). (role, ceiling_json n)) roles) = Inr roles"
  by (induction roles) (auto simp: parse_ceiling_json)

lemma parse_realm_ok: "parse_realm p v = Inr b \<Longrightarrow> realm_ok b"
  by (auto simp: parse_realm_def realm_ok_def bind_result_eq_Inr map_transpose_Inr split: option.splits if_splits
      dest!: parse_roles_bound dest: parse_ceiling_bound)

lemma parse_realm_json: "realm_ok b \<Longrightarrow> parse_realm p (realm_json b) = Inr b"
  by (cases "rl_default b") (auto simp: parse_realm_def realm_json_def realm_ok_def as_object_def check_keys_def map_transpose_def
      parse_ceiling_json parse_roles_json)

lemma parse_realms_ok: "parse_realms kvs = Inr realms \<Longrightarrow> \<forall>(realm, b) \<in> set realms. realm_ok b"
  by (induction kvs arbitrary: realms rule: parse_realms.induct) (auto simp: bind_result_eq_Inr dest: parse_realm_ok)

lemma parse_realms_json:
  "\<forall>(realm, b) \<in> set realms. realm_ok b \<Longrightarrow> parse_realms (map (\<lambda>(realm, b). (realm, realm_json b)) realms) = Inr realms"
  by (induction realms) (auto simp: parse_realm_json)

lemma parse_user_limit_ok: "parse_user_limit v = Inr cfg \<Longrightarrow> limit_ok cfg"
  by (auto simp: parse_user_limit_def limit_ok_def bind_result_eq_Inr map_transpose_Inr split: option.splits if_splits
      dest!: parse_realms_ok dest: parse_ceiling_bound)

lemma parse_user_limit_json: "limit_ok cfg \<Longrightarrow> parse_user_limit (limit_json cfg) = Inr cfg"
  by (cases "ulc_default cfg") (auto simp: parse_user_limit_def limit_json_def limit_ok_def as_object_def check_keys_def map_transpose_def
      parse_ceiling_json parse_realms_json)

definition user_with_role :: "string \<Rightarrow> string \<Rightarrow> json" where
  "user_with_role realm role = JObject [(''auth'', JObject [(''realm'', JString realm), (''username'', JString ''u''),
    (''roles'', JArray [JString role])])]"

lemma limit_applies: "limit_ok cfg \<Longrightarrow> \<exists>user. resolve cfg user \<noteq> None"
proof -
  assume ok: "limit_ok cfg"
  have res: "resolve cfg (user_with_role realm role) \<noteq> None \<longleftrightarrow> candidates cfg realm (user_with_role realm role) \<noteq> {}" for realm role
    by (simp add: resolve_candidates user_with_role_def auth_field_def json_get_def as_str_def)
  show ?thesis
  proof (cases "ulc_default cfg")
    case (Some n)
    then have "n \<in> candidates cfg [] (user_with_role [] [])" by (simp add: candidates_def)
    then show ?thesis using res by blast
  next
    case None
    then obtain realm b bs where bs: "ulc_realms cfg = (realm, b) # bs" using ok by (cases "ulc_realms cfg") (auto simp: limit_ok_def)
    then have "realm_ok b" using ok by (auto simp: limit_ok_def)
    then have "\<exists>role. candidates cfg realm (user_with_role realm role) \<noteq> {}"
      using bs by (cases "rl_default b"; cases "rl_roles b")
        (auto simp: candidates_def realm_ok_def user_with_role_def auth_field_def json_get_def as_array_def)
    then show ?thesis using res by blast
  qed
qed

text \<open>A \<open>user_limit\<close> block that is accepted has an effect: its ceilings fit the platform, every realm block has one, at
  least one user is limited by it, and writing it back gives a block that is read as the same limits.  Every set of
  limits of this form can be configured.\<close>
lemma user_limit_accepted_exactly:
  "((\<exists>v. parse_user_limit v = Inr cfg) \<longleftrightarrow> limit_ok cfg)
    \<and> (limit_ok cfg \<longrightarrow> parse_user_limit (limit_json cfg) = Inr cfg \<and> (\<exists>user. resolve cfg user \<noteq> None))"
  using parse_user_limit_ok parse_user_limit_json limit_applies by blast

section \<open>Named targets are shared\<close>

definition keeps_targets :: "'x ParseState \<Rightarrow> 'x ParseState \<Rightarrow> bool" where
  "keeps_targets st st' \<longleftrightarrow> map_of (ps_resolved st) \<subseteq>\<^sub>m map_of (ps_resolved st')"

lemma keeps_targets_refl [simp, intro]: "keeps_targets st st"
  by (simp add: keeps_targets_def)

lemma keeps_targets_trans [trans]: "keeps_targets a b \<Longrightarrow> keeps_targets b c \<Longrightarrow> keeps_targets a c"
  by (auto simp: keeps_targets_def intro: map_le_trans)

lemma make_dispatcher_resolved: "ps_resolved (snd (make_dispatcher env ctx t p n settings st)) = ps_resolved st"
  by (auto simp: make_dispatcher_def split: prod.splits sum.splits)

lemma make_dispatcher_resolvedD: "make_dispatcher env ctx t p n settings st = (r, st') \<Longrightarrow> ps_resolved st' = ps_resolved st"
  using make_dispatcher_resolved[of env ctx t p n settings st] by simp

lemma attach_resolved: "ps_resolved (snd (attach_dispatcher env ctx e a action settings silent st)) = ps_resolved st"
  by (auto simp: attach_dispatcher_def Let_def dest: make_dispatcher_resolvedD split: sum.splits Action.splits prod.splits)

lemma entry_resolved: "ps_resolved (snd (action_from_entry env ctx ns n entry st)) = ps_resolved st"
  by (auto simp: action_from_entry_def Let_def attach_resolved split: sum.splits)

lemma entry_resolvedD: "action_from_entry env ctx ns n entry st = (r, st') \<Longrightarrow> ps_resolved st' = ps_resolved st"
  using entry_resolved[of env ctx ns n entry st] by simp

lemma resolve_named_keeps: "keeps_targets st (snd (resolve_named env ctx ns n rname st))"
proof (cases "ns = ''target'' \<and> map_of (ps_resolved st) n = None")
  case False
  then show ?thesis
    by (auto simp: resolve_named_def keeps_targets_def entry_resolved split: sum.splits option.splits)
next
  case True
  then show ?thesis
    by (auto simp: resolve_named_def keeps_targets_def map_le_def update_conv' dest!: entry_resolvedD
        split: sum.splits prod.splits Action.splits)
qed

lemma reference_keeps: "keeps_targets st (snd (parse_reference env ctx rname n st))"
  by (auto simp: parse_reference_def resolve_named_keeps split: sum.splits)

lemma inline_keeps: "keeps_targets st (snd (parse_inline env ctx rname m st))"
  by (auto simp: parse_inline_def keeps_targets_def attach_resolved split: option.splits sum.splits)

lemma and_then_keeps:
  assumes "keeps_targets st (snd r)" "\<And>x st'. r = (Inr x, st') \<Longrightarrow> keeps_targets st' (snd (k x st'))"
  shows "keeps_targets st (snd (and_then r k))"
  using assms by (auto simp: and_then_def split: prod.splits sum.splits intro: keeps_targets_trans)

lemma parse_keeps:
  "keeps_targets st (snd (parse_routes env ctx sec v st))"
  "keeps_targets st (snd (parse_entries env ctx sec index entries st))"
  "keeps_targets st (snd (parse_actions env ctx rname vs st))"
  "keeps_targets st (snd (parse_action env ctx rname v st))"
proof (induction env ctx sec v st and env ctx sec index entries st and env ctx rname vs st and env ctx rname v st
    rule: parse_routes_parse_entries_parse_actions_parse_action.induct)
  case (1 env ctx sec v st)
  then show ?case by (auto simp: parse_routes.simps split: option.splits)
next
  case (3 env ctx sec index entry entries st)
  then show ?case by (auto split: sum.splits intro!: and_then_keeps)
next
  case (5 env ctx rname v vs st)
  then show ?case by (auto intro!: and_then_keeps)
next
  case (6 env ctx rname v st)
  then show ?case
    by (cases v) (auto simp: parse_action.simps reference_keeps inline_keeps split: option.splits sum.splits intro!: and_then_keeps)
qed simp_all

lemma resolve_named_cached:
  assumes "resolve_named env ctx ''target'' n rname st = (Inr (Target f d disp silent), st')"
  shows "map_of (ps_resolved st') n = Some (f, d, disp, silent)"
proof (cases "map_of (ps_resolved st) n")
  case None
  then show ?thesis using assms
    by (auto simp: resolve_named_def update_conv' split: sum.splits prod.splits Action.splits)
next
  case (Some t)
  then show ?thesis using assms by (cases t) (auto simp: resolve_named_def)
qed


section \<open>Remote targets have their pool\<close>

lemma start_remote:
  assumes "start_scheduler listen (RemoteExecutor p) (Some ws) = (Inr u, ws')"
  shows "validate_pool_name (rpe_pool_name p) = Inr () \<and> (\<exists>s. ws' = Some s \<and> map_of (ws_pools s) (rpe_pool_name p) = Some p)"
  using assms ensure_started_pools[of listen "ws\<lparr> ws_pools := AList.update (rpe_pool_name p) p (ws_pools ws) \<rparr>"]
  by (auto simp: start_scheduler_def register_pool_def update_conv' split: prod.splits sum.splits)

lemma remote_from_config:
  assumes "from_config env True queue (Some (RemotePool cfg)) (Some n) capacity ws = (Inr d, ws')"
  shows "\<exists>s p. ws' = Some s \<and> map_of (ws_pools s) n = Some p \<and> rpe_pool_name p = n \<and> 0 < rpe_heartbeat_timeout p
    \<and> validate_pool_name n = Inr () \<and> map_option ds_executor d = Some (RemoteExecutor p)"
proof -
  from assms obtain s t where s: "ws = Some s" "ce_secs env (rpc_heartbeat_timeout_secs cfg) = Inr t" "0 < t"
    by (auto simp: from_config_def remote_executor_def ok_or_def split: option.splits sum.splits if_splits)
  let ?p = "\<lparr> rpe_pool_name = n, rpe_heartbeat_timeout = t, rpe_callback_url = callback_url s n \<rparr>"
  obtain r ws1 where st: "start_scheduler (ce_listen env) (RemoteExecutor ?p) (Some s) = (r, ws1)" by (rule prod.exhaust)
  then have "\<exists>u. r = Inr u" "ws' = ws1" "map_option ds_executor d = Some (RemoteExecutor ?p)"
    using assms s by (auto simp: from_config_def remote_executor_def ok_or_def split: if_splits sum.splits)
  then show ?thesis using start_remote[of "ce_listen env" ?p s] st s(3) by auto
qed

text \<open>The type \<open>remote\<close> and the executor \<open>remote_pool\<close> go together: a target of that type is accepted only with a worker
  server on which its pool is then registered under the name of the entry, with a positive heartbeat timeout and as the
  executor of its dispatcher, so that every worker request below that name reaches it; an action of another type is never
  given a remote executor and leaves the server alone.\<close>
lemma remote_target_has_pool:
  assumes "attach_dispatcher env ctx n type_name (Target f d0 x y) settings silent st = (Inr a, st')"
  shows "\<exists>disp. a = Target f d0 (map_option (ce_target env) disp) silent
    \<and> (if type_name = ''remote''
       then \<exists>ws p. ps_worker_server st' = Some ws \<and> map_of (ws_pools ws) n = Some p \<and> rpe_pool_name p = n
          \<and> 0 < rpe_heartbeat_timeout p \<and> map_option ds_executor disp = Some (RemoteExecutor p)
          \<and> (\<forall>keys rest. dispatch_to_pool keys (\<lambda>_. Inr ()) ws (CHR ''/'' # n @ CHR ''/'' # rest) None = Forwarded p (CHR ''/'' # rest))
       else st' = st \<and> (\<forall>p. map_option ds_executor disp \<noteq> Some (RemoteExecutor p)))"
proof (cases "type_name = ''remote''")
  case True
  then obtain s2 where s2: "settle_executor True (ps_worker_server st \<noteq> None) settings = Inr s2"
    using assms by (auto simp: attach_dispatcher_def split: sum.splits)
  then obtain cfg where cfg: "st_executor s2 = Some (RemotePool cfg)"
    by (auto simp: settle_executor_def bind_result_eq_Inr split: option.splits ExecutorKind.splits if_splits)
  obtain r ws where fc: "from_config env True (st_queue s2) (Some (RemotePool cfg)) (Some n) (st_queue_capacity s2) (ps_worker_server st) = (r, ws)"
    by (rule prod.exhaust)
  then obtain disp where r: "r = Inr disp" "st' = st\<lparr> ps_worker_server := ws \<rparr>"
      "a = Target f d0 (map_option (ce_target env) (map_option (with_user_limit (st_user_limit s2) n (pc_broker_id ctx)) disp)) silent"
    using assms True s2 cfg by (auto simp: attach_dispatcher_def make_dispatcher_def split: sum.splits)
  obtain s p where p: "ws = Some s" "map_of (ws_pools s) n = Some p" "rpe_pool_name p = n" "0 < rpe_heartbeat_timeout p"
      "validate_pool_name n = Inr ()" "map_option ds_executor disp = Some (RemoteExecutor p)"
    using remote_from_config[OF fc[unfolded r(1)]] by blast
  have "dispatch_to_pool keys (\<lambda>_. Inr ()) s (CHR ''/'' # n @ CHR ''/'' # rest) None = Forwarded p (CHR ''/'' # rest)" for keys rest
    using dispatch_registered[OF p(5,2), of "CHR ''/'' # rest" "\<lambda>_. Inr ()" keys None] by simp
  then show ?thesis using r True p
    by (intro exI[of _ "map_option (with_user_limit (st_user_limit s2) n (pc_broker_id ctx)) disp"])
      (auto simp: with_user_limit_def)
next
  case False
  then obtain s2 where s2: "settle_executor False (ps_worker_server st \<noteq> None) settings = Inr s2"
    using assms by (auto simp: attach_dispatcher_def split: sum.splits)
  then have ne: "st_executor s2 \<noteq> Some (RemotePool cfg)" for cfg
    by (auto simp: settle_executor_def bind_result_eq_Inr split: option.splits ExecutorKind.splits if_splits)
  obtain r ws where fc: "from_config env True (st_queue s2) (st_executor s2) None (st_queue_capacity s2) (ps_worker_server st) = (r, ws)"
    by (rule prod.exhaust)
  then obtain disp where r: "r = Inr disp" "st' = st\<lparr> ps_worker_server := ws \<rparr>"
      "a = Target f d0 (map_option (ce_target env) (map_option (with_user_limit (st_user_limit s2) n (pc_broker_id ctx)) disp)) silent"
    using assms False s2 by (auto simp: attach_dispatcher_def make_dispatcher_def split: sum.splits)
  have "ws = ps_worker_server st \<and> (\<forall>p. map_option ds_executor disp \<noteq> Some (RemoteExecutor p))"
    using fc[unfolded r(1)] ne by (auto simp: from_config_def start_scheduler_def split: option.splits ExecutorKind.splits if_splits sum.splits)
  then show ?thesis using r False
    by (intro exI[of _ "map_option (with_user_limit (st_user_limit s2) n (pc_broker_id ctx)) disp"])
      (auto simp: with_user_limit_def)
qed

section \<open>Examples\<close>

definition demo_cfg :: "unit ConfigEnv" where
  "demo_cfg = \<lparr> ce_inventory = [(''remote'', \<lambda>_. Inr (Target remote_target_dispatch (JObject []) None None))], ce_runtime = [],
    ce_json_text = (\<lambda>_. []), ce_queue_kind = (\<lambda>_. Inl []), ce_executor_kind = (\<lambda>_. Inl []), ce_secs = (\<lambda>_. Inr 60),
    ce_listen = (\<lambda>_. Inr ()), ce_check = (\<lambda>_. (\<lambda>j g k. k, id)), ce_transform = (\<lambda>_. (\<lambda>j g k w. (fst (k w), None, w), id)),
    ce_target = (\<lambda>_. (\<lambda>j g k. k, id)) \<rparr>"

definition demo_parse_ctx :: ParseContext where
  "demo_parse_ctx = \<lparr> pc_registries = \<lparr> rg_checks = [], rg_transforms = [], rg_targets = [(''mars'', JObject [(''type'', JString ''remote'')])] \<rparr>,
    pc_broker_id = ''b'' \<rparr>"

definition demo_parse_state :: "unit ParseState" where
  "demo_parse_state = \<lparr> ps_resolved = [], ps_worker_server = Some (worker_server_new ''0.0.0.0'' 9001 None) \<rparr>"

lemma demo_pool_name: "validate_pool_name ''mars'' = Inr ()" by code_simp

lemma demo_attach:
  "\<exists>st'. attach_dispatcher demo_cfg demo_parse_ctx ''mars'' ''remote'' (Target remote_target_dispatch (JObject []) None None)
      dispatcher_settings_default None demo_parse_state
    = (Inr (Target remote_target_dispatch (JObject []) (Some (\<lambda>j g k. k, id)) None), st')"
  using demo_pool_name by (simp add: attach_dispatcher_def settle_executor_def dispatcher_settings_default_def demo_parse_state_def make_dispatcher_def
      from_config_def remote_executor_def ok_or_def demo_cfg_def DEFAULT_QUEUE_CAPACITY_def start_scheduler_def register_pool_def
      ensure_started_def worker_server_new_def)

lemma demo_resolve:
  "\<exists>st'. resolve_named demo_cfg demo_parse_ctx ''target'' ''mars'' ''r'' demo_parse_state
    = (Inr (Target remote_target_dispatch (JObject []) (Some (\<lambda>j g k. k, id)) None), st')"
proof -
  obtain st' where a: "attach_dispatcher demo_cfg demo_parse_ctx ''mars'' ''remote'' (Target remote_target_dispatch (JObject []) None None)
      dispatcher_settings_default None demo_parse_state
    = (Inr (Target remote_target_dispatch (JObject []) (Some (\<lambda>j g k. k, id)) None), st')" using demo_attach by blast
  have c: "create_action demo_cfg ''remote'' config = Inr (Target remote_target_dispatch (JObject []) None None)" for config
    by (simp add: create_action_def demo_cfg_def)
  have "action_from_entry demo_cfg demo_parse_ctx ''target'' ''mars'' (JObject [(''type'', JString ''remote'')]) demo_parse_state
      = (Inr (Target remote_target_dispatch (JObject []) (Some (\<lambda>j g k. k, id)) None), st')"
    by (simp add: action_from_entry_def as_object_def has_key_def as_str_def ok_or_def parse_dispatcher_fields_def map_transpose_def c a)
  then show ?thesis by (simp add: resolve_named_def demo_parse_state_def named_entry_def demo_parse_ctx_def ok_or_def)
qed


end
