(* ===== verification/Http_Target.thy ===== *)
theory Http_Target
  imports Route_Config
begin

text \<open>
  The built-in HTTP target (\<open>bits/src/actions/target_http.rs\<close>): its settings, the call, and how the answer becomes the
  outcome of the job.

  The HTTP library is a parameter: building a client, and sending a request, which may take time and change the world.
  So are the derived deserialiser of the struct, which gets the function for its two timeouts, and the conversion of
  floating-point seconds.  The cell that keeps the client is left out: the client depends on the timeouts only.
\<close>

section \<open>Settings\<close>

text \<open>30 seconds.\<close>
definition DEFAULT_TARGET_TIMEOUT_SECS :: u64 where "DEFAULT_TARGET_TIMEOUT_SECS = 0x403E000000000000"

record HttpTarget =
  ht_url :: string
  ht_connect_timeout_secs :: u64
  ht_read_timeout_secs :: u64

definition http_target_new :: "string \<Rightarrow> HttpTarget" where
  "http_target_new url = \<lparr> ht_url = url, ht_connect_timeout_secs = DEFAULT_TARGET_TIMEOUT_SECS,
    ht_read_timeout_secs = DEFAULT_TARGET_TIMEOUT_SECS \<rparr>"

text \<open>Finite, and above zero: neither zero nor negative.\<close>
definition f64_positive_finite :: "u64 \<Rightarrow> bool" where
  "f64_positive_finite v \<longleftrightarrow> drop_bit 52 v AND 0x7FF \<noteq> 0x7FF \<and> \<not> bit v 63 \<and> v \<noteq> 0"

definition deserialize_positive_secs :: "(json \<Rightarrow> string + u64) \<Rightarrow> (u64 \<Rightarrow> string + duration) \<Rightarrow> json \<Rightarrow> string + u64" where
  "deserialize_positive_secs de_f64 try_from_secs_f64 d =
    bind_result (de_f64 d) (\<lambda>v.
      if \<not> f64_positive_finite v then Inl ''must be a positive finite number of seconds''
      else case try_from_secs_f64 v of
             Inl _ \<Rightarrow> Inl ''value overflows Duration; use a smaller number of seconds''
           | Inr _ \<Rightarrow> Inr v)"

section \<open>The call\<close>

record HttpReply =
  hp_status :: StatusCode
  hp_content_type :: "(string + string) option"
  hp_content_length :: "u64 option"
  hp_stream :: ByteStream
  hp_text :: "string + string"

record 'x HttpEnv =
  he_f64 :: "json \<Rightarrow> string + u64"
  he_secs :: "u64 \<Rightarrow> string + duration"
  he_derived :: "(json \<Rightarrow> string + u64) \<Rightarrow> json \<Rightarrow> string + HttpTarget"
  he_send :: "duration \<Rightarrow> duration \<Rightarrow> string \<Rightarrow> json \<Rightarrow> 'x World_scheme \<Rightarrow> (string + HttpReply) \<times> 'x World_scheme"
  he_status_text :: "StatusCode \<Rightarrow> string"

text \<open>\<open>Duration::from_secs_f64\<close> panics (\<open>None\<close>) where \<open>try_from_secs_f64\<close> reports an error.\<close>
definition http_client :: "'x HttpEnv \<Rightarrow> HttpTarget \<Rightarrow> (duration \<times> duration) option" where
  "http_client env t =
    (case (he_secs env (ht_connect_timeout_secs t), he_secs env (ht_read_timeout_secs t)) of
       (Inr connect, Inr read) \<Rightarrow> Some (connect, read)
     | _ \<Rightarrow> None)"

definition is_success :: "StatusCode \<Rightarrow> bool" where "is_success status \<longleftrightarrow> 200 \<le> status \<and> status < 300"
definition is_client_error :: "StatusCode \<Rightarrow> bool" where "is_client_error status \<longleftrightarrow> 400 \<le> status \<and> status < 500"

definition reply_outcome :: "(StatusCode \<Rightarrow> string) \<Rightarrow> string \<Rightarrow> HttpReply \<Rightarrow> ActionError + TargetResult" where
  "reply_outcome status_text url response =
    (let status = hp_status response in
     if is_success status then
       let content_type = (case hp_content_type response of
               Some (Inr s) \<Rightarrow> s
             | Some (Inl _) \<Rightarrow> ''application/octet-stream''
             | None \<Rightarrow> ''application/octet-stream'');
           size = (case hp_content_length response of Some n \<Rightarrow> sint n | None \<Rightarrow> - 1)
       in Inr (Complete (JR_Success content_type size (hp_stream response)))
     else if is_client_error status then
       Inr (TargetReject (case hp_text response of Inr reason \<Rightarrow> reason | Inl _ \<Rightarrow> status_text status) True)
     else Inl (NetworkError (''HTTP '' @ status_text status @ '' from '' @ url)))"

definition execute :: "'x HttpEnv \<Rightarrow> duration \<times> duration \<Rightarrow> string \<Rightarrow> json \<Rightarrow> 'x World_scheme
    \<Rightarrow> (ActionError + TargetResult) \<times> 'x World_scheme" where
  "execute env client url request w =
    (case he_send env (fst client) (snd client) url request w of
       (Inl e, w) \<Rightarrow> (Inl (NetworkError e), w)
     | (Inr response, w) \<Rightarrow> (reply_outcome (he_status_text env) url response, w))"

definition http_dispatch :: "'x HttpEnv \<Rightarrow> HttpTarget \<Rightarrow> Job \<Rightarrow> 'x World_scheme \<Rightarrow> ((ActionError + TargetResult) \<times> 'x World_scheme) option" where
  "http_dispatch env t job w = map_option (\<lambda>client. execute env client (ht_url t) (job_request job) w) (http_client env t)"

text \<open>The factory registered under \<open>http\<close>, up to the action itself.\<close>
definition http_target_from_value :: "'x HttpEnv \<Rightarrow> json \<Rightarrow> ActionError + HttpTarget" where
  "http_target_from_value env config =
    (case he_derived env (deserialize_positive_secs (he_f64 env) (he_secs env)) config of
       Inl e \<Rightarrow> Inl (AE_ConfigError e)
     | Inr t \<Rightarrow> Inr t)"

text \<open>What the derived deserialiser does with the two timeouts: each is the default or was read by the given function.\<close>
definition derives_timeouts :: "'x HttpEnv \<Rightarrow> bool" where
  "derives_timeouts env \<longleftrightarrow> (\<forall>de v t. he_derived env de v = Inr t \<longrightarrow>
    (ht_connect_timeout_secs t = DEFAULT_TARGET_TIMEOUT_SECS \<or> (\<exists>x. de x = Inr (ht_connect_timeout_secs t)))
    \<and> (ht_read_timeout_secs t = DEFAULT_TARGET_TIMEOUT_SECS \<or> (\<exists>x. de x = Inr (ht_read_timeout_secs t))))"

lemma deserialize_positive_secs_ok:
  "deserialize_positive_secs de dur x = Inr v \<Longrightarrow> f64_positive_finite v \<and> (\<exists>d. dur v = Inr d)"
  by (auto simp: deserialize_positive_secs_def bind_result_eq_Inr split: if_splits sum.splits)

text \<open>A route that ends in an HTTP target without a dispatcher.\<close>
definition http_route :: "'x HttpEnv \<Rightarrow> duration \<times> duration \<Rightarrow> string \<times> string \<Rightarrow> 'x Route" where
  "http_route env client endpoint =
    Route (fst endpoint) [Target (\<lambda>job. execute env client (snd endpoint) (job_request job)) (JObject []) None None]"

text \<open>The endpoints in order, up to the first that does not answer 4xx.\<close>
fun first_answer :: "'x HttpEnv \<Rightarrow> duration \<times> duration \<Rightarrow> Job \<Rightarrow> (string \<times> string) list \<Rightarrow> 'x World_scheme
    \<Rightarrow> (ActionError + TargetResult) \<times> 'x World_scheme" where
  "first_answer env client job [] w = (Inr no_route_matched, w)"
| "first_answer env client job (endpoint # endpoints) w =
    (if is_cancelled (w_heap w) job then (Inl AE_Cancelled, w)
     else if \<not> client_present (w_now w) (w_heap w) job then (Inl AE_ClientGone, w)
     else case he_send env (fst client) (snd client) (snd endpoint) (job_request job) w of
            (Inl e, w) \<Rightarrow> (Inl (NetworkError e), w)
          | (Inr response, w) \<Rightarrow>
              if is_client_error (hp_status response) then first_answer env client job endpoints w
              else (reply_outcome (he_status_text env) (snd endpoint) response, w))"

lemma reply_rejects:
  "is_client_error (hp_status response) \<Longrightarrow> \<exists>reason. reply_outcome st url response = Inr (TargetReject reason True)"
  by (auto simp: reply_outcome_def is_success_def is_client_error_def Let_def)

lemma reply_decides:
  "\<not> is_client_error (hp_status response) \<Longrightarrow>
    (\<exists>r. reply_outcome st url response = Inr (Complete r)) \<or> (\<exists>e. reply_outcome st url response = Inl e)"
  by (auto simp: reply_outcome_def Let_def)

lemma run_http_routes: "run_routes (map (http_route env client) endpoints) job [] w = first_answer env client job endpoints w"
proof (induction endpoints arbitrary: w)
  case (Cons endpoint endpoints)
  obtain r w1 where s: "he_send env (fst client) (snd client) (snd endpoint) (job_request job) w = (r, w1)" by (rule prod.exhaust)
  show ?case
  proof (cases r)
    case (Inl e)
    then show ?thesis using s by (simp add: http_route_def run_target_def execute_def)
  next
    case (Inr response)
    show ?thesis
    proof (cases "is_client_error (hp_status response)")
      case True
      then show ?thesis using s Inr Cons.IH reply_rejects [OF True, of "he_status_text env" "snd endpoint"]
        by (auto simp: http_route_def run_target_def execute_def rejected_def)
    next
      case False
      then show ?thesis using s Inr reply_decides [OF False, of "he_status_text env" "snd endpoint"]
        by (auto simp: http_route_def run_target_def execute_def)
    qed
  qed
qed (simp add: all_rejected_def)

text \<open>An HTTP target that the configuration accepts never panics when it runs: both timeouts are positive,
  finite and small enough for a duration, so that its client can be built.\<close>
lemma http_target_never_panics:
  assumes "derives_timeouts env" "he_secs env DEFAULT_TARGET_TIMEOUT_SECS = Inr d" "http_target_from_value env config = Inr t"
  shows "f64_positive_finite (ht_connect_timeout_secs t) \<and> f64_positive_finite (ht_read_timeout_secs t)
    \<and> (\<exists>client. http_client env t = Some client \<and> http_dispatch env t job w = Some (execute env client (ht_url t) (job_request job) w))"
proof -
  have default: "f64_positive_finite DEFAULT_TARGET_TIMEOUT_SECS" by code_simp
  have "f64_positive_finite v \<and> (\<exists>d. he_secs env v = Inr d)"
    if "v = DEFAULT_TARGET_TIMEOUT_SECS \<or> (\<exists>x. deserialize_positive_secs (he_f64 env) (he_secs env) x = Inr v)" for v
    using that default assms(2) deserialize_positive_secs_ok by blast
  moreover have "ht_connect_timeout_secs t = DEFAULT_TARGET_TIMEOUT_SECS
        \<or> (\<exists>x. deserialize_positive_secs (he_f64 env) (he_secs env) x = Inr (ht_connect_timeout_secs t))"
      "ht_read_timeout_secs t = DEFAULT_TARGET_TIMEOUT_SECS
        \<or> (\<exists>x. deserialize_positive_secs (he_f64 env) (he_secs env) x = Inr (ht_read_timeout_secs t))"
    using assms(1,3) unfolding derives_timeouts_def by (auto simp: http_target_from_value_def split: sum.splits)
  ultimately have "f64_positive_finite (ht_connect_timeout_secs t)" "f64_positive_finite (ht_read_timeout_secs t)"
      "\<exists>d. he_secs env (ht_connect_timeout_secs t) = Inr d" "\<exists>d. he_secs env (ht_read_timeout_secs t) = Inr d" by blast+
  then show ?thesis by (auto simp: http_client_def http_dispatch_def)
qed

section \<open>Properties\<close>

text \<open>C35 Routes to HTTP endpoints are a chain of fallbacks: the endpoints are asked in order, and the first that does
  not answer with a client error decides, with the stream and the headers of a success, or with a network error for any other
  status and for a failed request.  When all answer with client errors, the job is rejected silently and none of their reasons
  is reported.  A cancelled or abandoned job asks no further endpoint.\<close>
theorem http_fallback_chain:
  "switch_dispatch (map (http_route env client) endpoints) job w = first_answer env client job endpoints w"
  by (simp add: switch_dispatch_def run_http_routes)

end
