(* ===== verification/Shared_Store.thy ===== *)
theory Shared_Store
  imports User_Limit
begin

text \<open>
  What the stores shared between brokers (\<open>bits/src/db/nats.rs\<close>, \<open>bits/src/db/tikv.rs\<close>) have in
  common.  A method is a state transformer with a \<open>Result\<close>; \<open>db_then\<close> is \<open>.await?\<close>, \<open>db_try\<close> is \<open>?\<close> on a
  pure result.  The clients and \<open>serde_json\<close> are third-party code: they are records of operations, and
  the serialised bytes are an opaque type \<open>'v\<close>.  \<open>atomic_claim\<close> is the ownership compare-and-set of
  the trait \<open>JobStore\<close> in one indivisible step, the specification of both implementations.
\<close>

section \<open>Fallible calls\<close>

definition db_return :: "'a \<Rightarrow> 's \<Rightarrow> 'a db \<times> 's" where
  "db_return x s = (Inr x, s)"

definition db_then :: "('s \<Rightarrow> 'a db \<times> 's) \<Rightarrow> ('a \<Rightarrow> 's \<Rightarrow> 'b db \<times> 's) \<Rightarrow> 's \<Rightarrow> 'b db \<times> 's" where
  "db_then m f s = (case m s of (Inl e, s) \<Rightarrow> (Inl e, s) | (Inr x, s) \<Rightarrow> f x s)"

definition db_try :: "'a db \<Rightarrow> ('a \<Rightarrow> 's \<Rightarrow> 'b db \<times> 's) \<Rightarrow> 's \<Rightarrow> 'b db \<times> 's" where
  "db_try r f s = (case r of Inl e \<Rightarrow> (Inl e, s) | Inr x \<Rightarrow> f x s)"

text \<open>\<open>.await.map_err(|e| DbError::Backend(format!("<what>: {e}")))\<close>.\<close>
definition backend :: "string \<Rightarrow> ('s \<Rightarrow> (string + 'a) \<times> 's) \<Rightarrow> 's \<Rightarrow> 'a db \<times> 's" where
  "backend what m s = (case m s of (Inl e, s) \<Rightarrow> (Inl (Backend (what @ '': '' @ e)), s) | (Inr x, s) \<Rightarrow> (Inr x, s))"

named_theorems db_simps \<open>running fallible calls\<close>

lemma db_return_run [db_simps]: "db_return x s = (Inr x, s)"
  by (simp add: db_return_def)

lemma db_then_run [db_simps]:
  "m s = (Inr x, s') \<Longrightarrow> db_then m f s = f x s'" "m s = (Inl e, s') \<Longrightarrow> db_then m f s = (Inl e, s')"
  by (simp_all add: db_then_def)

lemma db_try_run [db_simps]: "db_try (Inr x) f s = f x s" "db_try (Inl e) f s = (Inl e, s)"
  by (simp_all add: db_try_def)

lemma backend_run [db_simps]:
  "m s = (Inr x, s') \<Longrightarrow> backend what m s = (Inr x, s')"
  "m s = (Inl e, s') \<Longrightarrow> backend what m s = (Inl (Backend (what @ '': '' @ e)), s')"
  by (simp_all add: backend_def)

lemma db_then_Inr:
  "db_then m f s = (Inr y, s'') \<longleftrightarrow> (\<exists>x s'. m s = (Inr x, s') \<and> f x s' = (Inr y, s''))"
  by (auto simp: db_then_def split: prod.splits sum.splits)

lemma db_try_Inr: "db_try r f s = (Inr y, s') \<longleftrightarrow> (\<exists>x. r = Inr x \<and> f x s = (Inr y, s'))"
  by (auto simp: db_try_def split: sum.splits)

lemma backend_Inr: "backend what m s = (Inr x, s') \<longleftrightarrow> m s = (Inr x, s')"
  by (auto simp: backend_def split: prod.splits sum.splits)

lemma db_return_Inr: "db_return x s = (Inr y, s') \<longleftrightarrow> y = x \<and> s' = s"
  by (auto simp: db_return_def)

lemmas db_Inr = db_then_Inr db_try_Inr backend_Inr db_return_Inr

section \<open>Serialisation\<close>

record 'v store_codec =
  cd_ser_job :: "PersistentJobRecord \<Rightarrow> string + 'v"
  cd_de_job :: "'v \<Rightarrow> string + PersistentJobRecord"
  cd_ser_lease :: "BrokerLeaseRecord \<Rightarrow> string + 'v"
  cd_de_lease :: "'v \<Rightarrow> string + BrokerLeaseRecord"
  cd_ser_user :: "UserLimitEntry \<Rightarrow> string + 'v"
  cd_de_user :: "'v \<Rightarrow> string + UserLimitEntry"
  cd_ser_u32 :: "u32 \<Rightarrow> string + 'v"
  cd_de_u32 :: "'v \<Rightarrow> string + u32"

definition serialize :: "('a \<Rightarrow> string + 'v) \<Rightarrow> 'a \<Rightarrow> 'v db" where
  "serialize to_vec x = (case to_vec x of Inl e \<Rightarrow> Inl (Backend (''serialize failed: '' @ e)) | Inr v \<Rightarrow> Inr v)"

definition deserialize :: "('v \<Rightarrow> string + 'a) \<Rightarrow> 'v \<Rightarrow> 'a db" where
  "deserialize from_slice v =
    (case from_slice v of Inl e \<Rightarrow> Inl (Backend (''deserialize failed: '' @ e)) | Inr x \<Rightarrow> Inr x)"

lemma serialize_Inr [simp]: "serialize f x = Inr v \<longleftrightarrow> f x = Inr v"
  by (auto simp: serialize_def split: sum.splits)

lemma deserialize_Inr [simp]: "deserialize f v = Inr x \<longleftrightarrow> f v = Inr x"
  by (auto simp: deserialize_def split: sum.splits)

text \<open>The records contain nothing that \<open>serde_json\<close> cannot represent: they serialise and read back.\<close>
locale round_trip_codec =
  fixes cd :: "'v store_codec"
  assumes job_rt: "\<exists>v. cd_ser_job cd r = Inr v \<and> cd_de_job cd v = Inr r"
    and lease_rt: "\<exists>v. cd_ser_lease cd l = Inr v \<and> cd_de_lease cd v = Inr l"
    and user_rt: "\<exists>v. cd_ser_user cd u = Inr v \<and> cd_de_user cd v = Inr u"
    and u32_rt: "\<exists>v. cd_ser_u32 cd n = Inr v \<and> cd_de_u32 cd v = Inr n"
begin

lemma ser_job_de: "cd_ser_job cd r = Inr v \<Longrightarrow> cd_de_job cd v = Inr r"
  using job_rt [of r] by auto

lemma ser_user_de: "cd_ser_user cd u = Inr v \<Longrightarrow> cd_de_user cd v = Inr u"
  using user_rt [of u] by auto

lemma ser_lease_de: "cd_ser_lease cd l = Inr v \<Longrightarrow> cd_de_lease cd v = Inr l"
  using lease_rt [of l] by auto

lemma ser_u32_de: "cd_ser_u32 cd n = Inr v \<Longrightarrow> cd_de_u32 cd v = Inr n"
  using u32_rt [of n] by auto

end

text \<open>A concrete codec: a value remembers what it was made from.\<close>
datatype stored = StJob PersistentJobRecord | StLease BrokerLeaseRecord | StUser UserLimitEntry | StU32 u32 | StNone

definition sim_codec :: "stored store_codec" where
  "sim_codec = \<lparr>
    cd_ser_job = (\<lambda>r. Inr (StJob r)), cd_de_job = (\<lambda>v. case v of StJob r \<Rightarrow> Inr r | _ \<Rightarrow> Inl ''type mismatch''),
    cd_ser_lease = (\<lambda>r. Inr (StLease r)), cd_de_lease = (\<lambda>v. case v of StLease r \<Rightarrow> Inr r | _ \<Rightarrow> Inl ''type mismatch''),
    cd_ser_user = (\<lambda>r. Inr (StUser r)), cd_de_user = (\<lambda>v. case v of StUser r \<Rightarrow> Inr r | _ \<Rightarrow> Inl ''type mismatch''),
    cd_ser_u32 = (\<lambda>r. Inr (StU32 r)), cd_de_u32 = (\<lambda>v. case v of StU32 r \<Rightarrow> Inr r | _ \<Rightarrow> Inl ''type mismatch'') \<rparr>"

interpretation sim_codec: round_trip_codec sim_codec
  by unfold_locales (simp_all add: sim_codec_def)

section \<open>The claim as one step\<close>

definition atomic_claim ::
  "string \<Rightarrow> string \<Rightarrow> PersistentJobRecord option \<Rightarrow> ClaimResult \<times> PersistentJobRecord option" where
  "atomic_claim expected claimant rec =
    (case rec of
       None \<Rightarrow> (CR_NotFound, None)
     | Some r \<Rightarrow>
         if pjr_broker_id r = claimant then (CR_Claimed r, Some r)
         else if pjr_broker_id r \<noteq> expected then (CR_Active (pjr_broker_id r), Some r)
         else (CR_Claimed (r\<lparr> pjr_broker_id := claimant \<rparr>), Some (r\<lparr> pjr_broker_id := claimant \<rparr>)))"

text \<open>A store that behaves as \<open>atomic_claim\<close> on the record of a valid id has the claim laws of \<open>job_store\<close>.\<close>
definition claims_atomically ::
  "(string \<Rightarrow> string \<Rightarrow> string \<Rightarrow> 's \<Rightarrow> ClaimResult db \<times> 's) \<Rightarrow> ('s \<Rightarrow> string \<rightharpoonup> PersistentJobRecord)
    \<Rightarrow> ('s \<Rightarrow> bool) \<Rightarrow> (string \<Rightarrow> bool) \<Rightarrow> bool" where
  "claims_atomically claim lookup invar valid \<longleftrightarrow>
    (\<forall>s jid expected claimant. invar s \<longrightarrow> valid jid \<longrightarrow>
      (\<exists>s'. claim jid expected claimant s = (Inr (fst (atomic_claim expected claimant (lookup s jid))), s')
        \<and> invar s' \<and> lookup s' = (lookup s)(jid := snd (atomic_claim expected claimant (lookup s jid)))
        \<and> (snd (atomic_claim expected claimant (lookup s jid)) = lookup s jid \<longrightarrow> s' = s)))"

lemma atomic_claim_same:
  "(\<And>r. rec = Some r \<Longrightarrow> pjr_broker_id r = claimant \<or> pjr_broker_id r \<noteq> expected) \<Longrightarrow>
    snd (atomic_claim expected claimant rec) = rec"
  by (auto simp: atomic_claim_def split: option.splits)

lemma job_store_atomic:
  assumes "\<And>r s. invar s \<Longrightarrow> valid (pjr_job_id r) \<Longrightarrow> fst (upsert r s) = Inr () \<and> invar (snd (upsert r s))
      \<and> lookup (snd (upsert r s)) = (lookup s)(pjr_job_id r \<mapsto> r)"
    and "\<And>jid s. invar s \<Longrightarrow> valid jid \<Longrightarrow> fst (delete jid s) = Inr () \<and> invar (snd (delete jid s))
      \<and> lookup (snd (delete jid s)) = (lookup s)(jid := None)"
    and claim: "claims_atomically claim lookup invar valid"
  shows "job_store upsert delete claim lookup valid invar"
proof (unfold_locales, goal_cases)
  case 1
  then show ?case by (rule assms(1))
next
  case 2
  then show ?case by (rule assms(2))
next
  case (3 s jid expected claimant)
  then obtain s' where s': "claim jid expected claimant s = (Inr (fst (atomic_claim expected claimant (lookup s jid))), s')"
    "snd (atomic_claim expected claimant (lookup s jid)) = lookup s jid \<longrightarrow> s' = s"
    using claim unfolding claims_atomically_def by blast
  with 3 show ?case by (simp add: atomic_claim_def)
next
  case (4 s jid r claimant expected)
  then obtain s' where s': "claim jid expected claimant s = (Inr (fst (atomic_claim expected claimant (lookup s jid))), s')"
    "invar s'" "lookup s' = (lookup s)(jid := snd (atomic_claim expected claimant (lookup s jid)))"
    using claim unfolding claims_atomically_def by blast
  from 4 have "r\<lparr> pjr_broker_id := claimant \<rparr> = r" if "pjr_broker_id r = claimant" using that by (cases r) simp
  with 4 s' show ?case by (auto simp: atomic_claim_def)
next
  case (5 s jid r claimant expected)
  then obtain s' where s': "claim jid expected claimant s = (Inr (fst (atomic_claim expected claimant (lookup s jid))), s')"
    "snd (atomic_claim expected claimant (lookup s jid)) = lookup s jid \<longrightarrow> s' = s"
    using claim unfolding claims_atomically_def by blast
  with 5 show ?case by (simp add: atomic_claim_def)
qed

section \<open>Broker slots\<close>

text \<open>\<open>loop { ... }\<close> around an attempt whose result \<open>None\<close> is \<open>continue\<close>; a loop that never ends is \<open>None\<close>.\<close>
partial_function (option) retry_loop :: "('s \<Rightarrow> 'a option db \<times> 's) \<Rightarrow> 's \<Rightarrow> ('a db \<times> 's) option" where
  "retry_loop attempt s =
    (case attempt s of
       (Inl e, s) \<Rightarrow> Some (Inl e, s)
     | (Inr (Some x), s) \<Rightarrow> Some (Inr x, s)
     | (Inr None, s) \<Rightarrow> retry_loop attempt s)"

lemma retry_loop_result:
  assumes "retry_loop attempt s = Some (Inr x, s')" "I s"
    and takes: "\<And>s x s'. I s \<Longrightarrow> attempt s = (Inr (Some x), s') \<Longrightarrow> P s x s'"
    and retries: "\<And>s s1. I s \<Longrightarrow> attempt s = (Inr None, s1) \<Longrightarrow> I s1"
    and later: "\<And>s s1 x s'. I s \<Longrightarrow> attempt s = (Inr None, s1) \<Longrightarrow> P s1 x s' \<Longrightarrow> P s x s'"
  shows "P s x s'"
proof -
  define Q where "Q = (\<lambda>attempt' s (y :: _ db \<times> _). attempt' = attempt \<longrightarrow> I s \<longrightarrow> (\<forall>x. fst y = Inr x \<longrightarrow> P s x (snd y)))"
  have "Q attempt s (Inr x, s')"
  proof (rule retry_loop.raw_induct [where P = Q, OF _ assms(1)])
    fix loop attempt' s y
    assume IH: "\<And>attempt' s y. loop attempt' s = Some y \<Longrightarrow> Q attempt' s y"
      and run: "(case attempt' s of (Inl e, s) \<Rightarrow> Some (Inl e, s) | (Inr (Some x), s) \<Rightarrow> Some (Inr x, s)
        | (Inr None, s) \<Rightarrow> loop attempt' s) = Some y"
    have "P s x (snd y)" if "attempt' = attempt" "I s" "fst y = Inr x" for x
    proof -
      obtain r s1 where a: "attempt s = (r, s1)" by (rule prod.exhaust)
      consider e where "r = Inl e" | z where "r = Inr (Some z)" | "r = Inr None" by (metis option.exhaust sum.exhaust)
      then show ?thesis
      proof cases
        case 3
        then have "loop attempt s1 = Some y" using run a that(1) by simp
        then have "P s1 x (snd y)" using IH [of attempt s1 y] retries [OF that(2)] a 3 that(3) by (simp add: Q_def)
        then show ?thesis using later [OF that(2)] a 3 by blast
      qed (use run a that takes [OF that(2)] in auto)
    qed
    then show "Q attempt' s y" by (simp add: Q_def)
  qed
  with assms(2) show ?thesis by (simp add: Q_def)
qed

lemma retry_loop_returns:
  assumes "I s" and "\<And>s s1. I s \<Longrightarrow> attempt s = (Inr None, s1) \<Longrightarrow> I s1 \<and> m s1 < (m s :: nat)"
  shows "\<exists>r s'. retry_loop attempt s = Some (r, s')"
  using assms(1)
proof (induction "m s" arbitrary: s rule: less_induct)
  case less
  obtain r s1 where a: "attempt s = (r, s1)" by (rule prod.exhaust)
  consider e where "r = Inl e" | z where "r = Inr (Some z)" | "r = Inr None" by (metis option.exhaust sum.exhaust)
  then show ?case
  proof cases
    case 3
    with a assms(2) [OF less.prems] have "I s1" "m s1 < m s" by auto
    from less.hyps [OF this(2,1)] show ?thesis using a 3 by (simp add: retry_loop.simps [of attempt s])
  qed (use a in \<open>simp_all add: retry_loop.simps [of attempt s]\<close>)
qed

text \<open>An allocator which at one instant of a successful call moves a counter from the slot it returns to
  the next one.  \<open>others\<close> is what the rest of the world may do.\<close>

locale slot_counter =
  fixes alloc :: "'s \<Rightarrow> u16 \<Rightarrow> 's \<Rightarrow> bool"
    and others :: "'s \<Rightarrow> 's \<Rightarrow> bool"
    and counter :: "'s \<Rightarrow> nat"
    and ok :: "'s \<Rightarrow> bool"
  assumes alloc_law: "ok s \<Longrightarrow> alloc s slot s' \<Longrightarrow>
      \<exists>t. others s t \<and> counter t = unat slot \<and> unat slot < counter s' \<and> ok s'"
    and others_law: "ok s \<Longrightarrow> others s s' \<Longrightarrow> counter s \<le> counter s' \<and> ok s'"

text \<open>Slots allocated one after the other, others acting in between.\<close>
inductive slot_history ::
  "('s \<Rightarrow> u16 \<Rightarrow> 's \<Rightarrow> bool) \<Rightarrow> ('s \<Rightarrow> 's \<Rightarrow> bool) \<Rightarrow> 's \<Rightarrow> u16 list \<Rightarrow> 's \<Rightarrow> bool" for alloc others where
  none: "slot_history alloc others s [] s"
| idle: "slot_history alloc others s slots s1 \<Longrightarrow> others s1 s2 \<Longrightarrow> slot_history alloc others s slots s2"
| allocate: "slot_history alloc others s slots s1 \<Longrightarrow> alloc s1 slot s2 \<Longrightarrow> slot_history alloc others s (slots @ [slot]) s2"

context slot_counter
begin

lemma history_increasing:
  "slot_history alloc others s slots s' \<Longrightarrow> ok s \<Longrightarrow>
    ok s' \<and> sorted_wrt (<) slots \<and> (\<forall>a \<in> set slots. unat a < counter s')"
proof (induction rule: slot_history.induct)
  case (idle s slots s1 s2)
  then show ?case using others_law less_le_trans by blast
next
  case (allocate s slots s1 slot s2)
  then have s1: "ok s1" "sorted_wrt (<) slots" "\<forall>a \<in> set slots. unat a < counter s1" by simp_all
  obtain t where t: "others s1 t" "counter t = unat slot" "unat slot < counter s2" "ok s2"
    using alloc_law [OF s1(1) allocate(2)] by blast
  have lt: "unat a < unat slot" if "a \<in> set slots" for a
    using s1(3) that others_law [OF s1(1) t(1)] t(2) by fastforce
  then have "a < slot" if "a \<in> set slots" for a using that by (simp add: word_less_nat_alt)
  with s1(2) t lt show ?case by (auto simp: sorted_wrt_append intro: less_trans)
qed simp

lemma history_distinct: "slot_history alloc others s slots s' \<Longrightarrow> ok s \<Longrightarrow> sorted_wrt (<) slots \<and> distinct slots"
  using history_increasing strict_sorted_iff by blast

end

interpretation memory_slots: slot_counter "\<lambda>s slot s'. allocate_memory_broker_slot site env s = (Inr slot, s')" "(=)"
  "\<lambda>s. ms_next_slot s site env" "\<lambda>s. ms_next_slot s site env \<le> 65536" for site env
proof (unfold_locales, goal_cases)
  case (1 s slot s')
  have "ms_next_slot s site env < 65536" "slot = of_nat (ms_next_slot s site env)"
    using allocate_memory_broker_slot_next(1) [OF 1] by (auto split: if_splits)
  moreover have "ms_next_slot s' site env = min 65536 (Suc (ms_next_slot s site env))"
    using allocate_memory_broker_slot_next(2) [OF 1] .
  ultimately show ?case by (simp add: unsigned_of_nat take_bit_nat_eq_self)
qed simp

end
