(* ===== verification/Nats_Store.thy ===== *)
theory Nats_Store
  imports Shared_Store
begin

text \<open>
  The NATS JetStream store (\<open>bits/src/db/nats.rs\<close>).

  \<open>async_nats\<close> is third-party code: its calls are the record \<open>nats_client\<close> of operations on the state
  \<open>'s\<close> of the server and of everybody who uses it.  A call therefore also contains whatever other
  brokers do while it is awaited.  The handle \<open>'h\<close> stands for a \<open>kv::Store\<close>, \<open>'c\<close> for a JetStream context,
  \<open>'v\<close> for a value's bytes.  A method works on the pair of the \<open>NatsStore\<close> (its once-cell included) and
  the server.  A watch is the list of items it delivers, with a flag whether the stream ends after them;
  \<open>None\<close> is a call that never returns.

  \<open>nats_kv\<close> states what the code relies on: a call takes effect at one instant between others'
  actions, a conditional update succeeds only on the revision it names, revisions are not reused.
  \<open>nats_calm\<close> adds that a healthy server used by nobody else answers.
\<close>

section \<open>The client\<close>

datatype kv_Operation = Op_Put | Op_Delete | Op_Purge

record 'v kv_Entry =
  ke_key :: string
  ke_value :: 'v
  ke_revision :: u64
  ke_operation :: kv_Operation
  ke_seen_current :: bool

datatype CreateError = AlreadyExists | CreateFailed string
datatype UpdateError = WrongLastRevision | UpdateFailed string

datatype StorageType = StorageFile | StorageMemory

text \<open>The fields of \<open>kv::Config\<close> that the source sets; \<open>None\<close> is the crate's default.\<close>
record kv_Config =
  kc_bucket :: string
  kc_history :: nat
  kc_num_replicas :: nat
  kc_storage :: "StorageType option"
  kc_max_age :: "duration option"
  kc_limit_markers :: "duration option"

record ('c, 'h, 'v, 's) nats_client =
  nc_clock :: "'s \<Rightarrow> instant"
  nc_secs_f64 :: "duration \<Rightarrow> string"
  nc_connect :: "string \<Rightarrow> nat option \<Rightarrow> 's \<Rightarrow> (string + 'c) \<times> 's"
  nc_create_key_value :: "'c \<Rightarrow> kv_Config \<Rightarrow> 's \<Rightarrow> (string + 'h) \<times> 's"
  nc_update_key_value :: "'c \<Rightarrow> kv_Config \<Rightarrow> 's \<Rightarrow> (string + 'h) \<times> 's"
  nc_get_key_value :: "'c \<Rightarrow> string \<Rightarrow> 's \<Rightarrow> (string + 'h) \<times> 's"
  kv_prefix :: "'h \<Rightarrow> string"
  kv_entry :: "'h \<Rightarrow> string \<Rightarrow> 's \<Rightarrow> (string + 'v kv_Entry option) \<times> 's"
  kv_put :: "'h \<Rightarrow> string \<Rightarrow> 'v \<Rightarrow> 's \<Rightarrow> (string + u64) \<times> 's"
  kv_create :: "'h \<Rightarrow> string \<Rightarrow> 'v \<Rightarrow> 's \<Rightarrow> (CreateError + u64) \<times> 's"
  kv_update :: "'h \<Rightarrow> string \<Rightarrow> 'v \<Rightarrow> u64 \<Rightarrow> 's \<Rightarrow> (UpdateError + u64) \<times> 's"
  kv_purge :: "'h \<Rightarrow> string \<Rightarrow> 's \<Rightarrow> (string + unit) \<times> 's"
  kv_purge_with_ttl :: "'h \<Rightarrow> string \<Rightarrow> duration \<Rightarrow> 's \<Rightarrow> (string + unit) \<times> 's"
  kv_delete :: "'h \<Rightarrow> string \<Rightarrow> 's \<Rightarrow> (string + unit) \<times> 's"
  kv_info_with_subjects :: "'h \<Rightarrow> string \<Rightarrow> 's \<Rightarrow> (string + string list) \<times> 's"
  kv_watch_with_history :: "'h \<Rightarrow> string \<Rightarrow> 's \<Rightarrow> (string + (string + 'v kv_Entry) list \<times> bool) \<times> 's"

section \<open>The store\<close>

definition USER_LIMIT_TOMBSTONE_TTL :: duration where "USER_LIMIT_TOMBSTONE_TTL = 600 * 1000000000"
definition USER_LIMIT_DELETE_MARKER_TTL :: duration where "USER_LIMIT_DELETE_MARKER_TTL = 600 * 1000000000"
definition DEFAULT_JOB_TOMBSTONE_TTL :: duration where "DEFAULT_JOB_TOMBSTONE_TTL = 24 * 60 * 60 * 1000000000"
definition JOB_DELETE_MARKER_TTL :: duration where "JOB_DELETE_MARKER_TTL = 600 * 1000000000"

record 'h NatsStore =
  ns_url :: string
  ns_jobs_bucket :: string
  ns_leases_bucket :: string
  ns_user_limits_bucket :: string
  ns_lease_ttl :: duration
  ns_num_replicas :: nat
  ns_connect_timeout :: duration
  ns_subscription_capacity :: "nat option"
  ns_user_limit_tombstone_ttl :: "duration option"
  ns_user_limit_delete_marker_ttl :: "duration option"
  ns_job_tombstone_ttl :: duration
  ns_job_delete_marker_ttl :: "duration option"
  ns_stores :: "('h \<times> 'h \<times> 'h) option"

definition nats_new :: "string \<Rightarrow> string \<Rightarrow> string \<Rightarrow> duration \<Rightarrow> nat \<Rightarrow> duration \<Rightarrow> 'h NatsStore" where
  "nats_new url jobs_bucket leases_bucket lease_ttl num_replicas connect_timeout =
    \<lparr> ns_url = url, ns_jobs_bucket = jobs_bucket, ns_leases_bucket = leases_bucket,
      ns_user_limits_bucket = leases_bucket @ ''-userlimits'', ns_lease_ttl = lease_ttl,
      ns_num_replicas = num_replicas, ns_connect_timeout = connect_timeout,
      ns_subscription_capacity = None, ns_user_limit_tombstone_ttl = None,
      ns_user_limit_delete_marker_ttl = None, ns_job_tombstone_ttl = DEFAULT_JOB_TOMBSTONE_TTL,
      ns_job_delete_marker_ttl = None, ns_stores = None \<rparr>"

definition with_job_tombstone_ttl :: "duration \<Rightarrow> 'h NatsStore \<Rightarrow> 'h NatsStore" where
  "with_job_tombstone_ttl ttl ns = ns\<lparr> ns_job_tombstone_ttl := ttl \<rparr>"

definition with_job_delete_marker_ttl :: "duration \<Rightarrow> 'h NatsStore \<Rightarrow> 'h NatsStore" where
  "with_job_delete_marker_ttl ttl ns = ns\<lparr> ns_job_delete_marker_ttl := Some ttl \<rparr>"

definition job_delete_marker_ttl :: "'h NatsStore \<Rightarrow> duration" where
  "job_delete_marker_ttl ns = unwrap_or (ns_job_delete_marker_ttl ns) JOB_DELETE_MARKER_TTL"

definition with_subscription_capacity :: "nat \<Rightarrow> 'h NatsStore \<Rightarrow> 'h NatsStore" where
  "with_subscription_capacity capacity ns = ns\<lparr> ns_subscription_capacity := Some capacity \<rparr>"

definition with_user_limit_tombstone_ttl :: "duration \<Rightarrow> 'h NatsStore \<Rightarrow> 'h NatsStore" where
  "with_user_limit_tombstone_ttl ttl ns = ns\<lparr> ns_user_limit_tombstone_ttl := Some ttl \<rparr>"

definition user_limit_tombstone_ttl :: "'h NatsStore \<Rightarrow> duration" where
  "user_limit_tombstone_ttl ns = unwrap_or (ns_user_limit_tombstone_ttl ns) USER_LIMIT_TOMBSTONE_TTL"

definition with_user_limit_delete_marker_ttl :: "duration \<Rightarrow> 'h NatsStore \<Rightarrow> 'h NatsStore" where
  "with_user_limit_delete_marker_ttl ttl ns = ns\<lparr> ns_user_limit_delete_marker_ttl := Some ttl \<rparr>"

definition user_limit_delete_marker_ttl :: "'h NatsStore \<Rightarrow> duration" where
  "user_limit_delete_marker_ttl ns = unwrap_or (ns_user_limit_delete_marker_ttl ns) USER_LIMIT_DELETE_MARKER_TTL"

section \<open>Connecting\<close>

text \<open>Inside \<open>tokio::time::timeout\<close>: \<open>None\<close> is a future dropped at the await point where the deadline
  passed.  A request that was already sent may still have its effect.\<close>

definition awaited :: "('s \<Rightarrow> bool) \<Rightarrow> ('s \<Rightarrow> 'a \<times> 's) \<Rightarrow> 's \<Rightarrow> 'a option \<times> 's" where
  "awaited in_time m s = (case m s of (r, s) \<Rightarrow> (if in_time s then Some r else None, s))"

definition timed_then ::
  "('s \<Rightarrow> ('e + 'a) option \<times> 's) \<Rightarrow> ('a \<Rightarrow> 's \<Rightarrow> ('e + 'b) option \<times> 's) \<Rightarrow> 's \<Rightarrow> ('e + 'b) option \<times> 's" where
  "timed_then m f s =
    (case m s of (None, s) \<Rightarrow> (None, s) | (Some (Inl e), s) \<Rightarrow> (Some (Inl e), s) | (Some (Inr x), s) \<Rightarrow> f x s)"

definition timed_err :: "('e \<Rightarrow> 'd) \<Rightarrow> ('s \<Rightarrow> ('e + 'a) option \<times> 's) \<Rightarrow> 's \<Rightarrow> ('d + 'a) option \<times> 's" where
  "timed_err f m s = apfst (map_option (map_sum f id)) (m s)"

definition get_or_create_bucket ::
  "('c, 'h, 'v, 's) nats_client \<Rightarrow> ('s \<Rightarrow> bool) \<Rightarrow> 'c \<Rightarrow> kv_Config \<Rightarrow> 's \<Rightarrow> (string + 'h) option \<times> 's" where
  "get_or_create_bucket cl in_time js config s =
    (case awaited in_time (nc_create_key_value cl js config) s of
       (Some (Inl create_err), s) \<Rightarrow>
         (case awaited in_time (nc_update_key_value cl js config) s of
            (Some (Inl update_err), s) \<Rightarrow>
              timed_err (\<lambda>e. ''bucket '' @ [CHR 0x27] @ kc_bucket config @ [CHR 0x27] @ '': create failed ('' @ create_err
                  @ ''), update failed ('' @ update_err @ ''), get also failed: '' @ e)
                (awaited in_time (nc_get_key_value cl js (kc_bucket config))) s
          | r \<Rightarrow> r)
     | r \<Rightarrow> r)"

definition jobs_config :: "'h NatsStore \<Rightarrow> kv_Config" where
  "jobs_config ns = \<lparr> kc_bucket = ns_jobs_bucket ns, kc_history = 1, kc_num_replicas = ns_num_replicas ns,
    kc_storage = None, kc_max_age = None, kc_limit_markers = Some (job_delete_marker_ttl ns) \<rparr>"

text \<open>\<open>Duration::MAX\<close> is \<open>u64::MAX\<close> seconds and 999999999 nanoseconds.\<close>
definition leases_config :: "'h NatsStore \<Rightarrow> kv_Config" where
  "leases_config ns = \<lparr> kc_bucket = ns_leases_bucket ns, kc_history = 1, kc_num_replicas = ns_num_replicas ns,
    kc_storage = Some StorageMemory, kc_max_age = Some (min (ns_lease_ttl ns * 2) (2 ^ 64 * 1000000000 - 1)),
    kc_limit_markers = None \<rparr>"

definition user_limits_config :: "'h NatsStore \<Rightarrow> kv_Config" where
  "user_limits_config ns = \<lparr> kc_bucket = ns_user_limits_bucket ns, kc_history = 1, kc_num_replicas = ns_num_replicas ns,
    kc_storage = Some StorageMemory, kc_max_age = None, kc_limit_markers = Some (user_limit_delete_marker_ttl ns) \<rparr>"

definition nats_open ::
  "('c, 'h, 'v, 's) nats_client \<Rightarrow> ('s \<Rightarrow> bool) \<Rightarrow> 'h NatsStore \<Rightarrow> 's \<Rightarrow> ('h \<times> 'h \<times> 'h) db option \<times> 's" where
  "nats_open cl in_time ns =
    timed_then (timed_err (\<lambda>e. Backend (''NATS connect failed: '' @ e))
      (awaited in_time (nc_connect cl (ns_url ns) (ns_subscription_capacity ns)))) (\<lambda>js.
    timed_then (timed_err (\<lambda>e. Backend (''jobs bucket: '' @ e))
      (get_or_create_bucket cl in_time js (jobs_config ns))) (\<lambda>jobs.
    timed_then (timed_err (\<lambda>e. Backend (''leases bucket: '' @ e))
      (get_or_create_bucket cl in_time js (leases_config ns))) (\<lambda>leases.
    timed_then (timed_err (\<lambda>e. Backend (''user-limits bucket: '' @ e))
      (get_or_create_bucket cl in_time js (user_limits_config ns))) (\<lambda>user_limits s.
    (Some (Inr (jobs, leases, user_limits)), s)))))"

text \<open>\<open>OnceCell::get_or_try_init\<close>: a failed initialisation leaves the cell empty.\<close>
definition nats_stores ::
  "('c, 'h, 'v, 's) nats_client \<Rightarrow> 'h NatsStore \<times> 's \<Rightarrow> ('h \<times> 'h \<times> 'h) db \<times> 'h NatsStore \<times> 's" where
  "nats_stores cl st =
    (case st of (ns, s) \<Rightarrow>
     case ns_stores ns of
       Some hs \<Rightarrow> (Inr hs, st)
     | None \<Rightarrow>
         (case nats_open cl (\<lambda>s'. nc_clock cl s' \<le> nc_clock cl s + ns_connect_timeout ns) ns s of
            (None, s) \<Rightarrow> (Inl (Backend (''NATS init timed out after ''
              @ nc_secs_f64 cl (ns_connect_timeout ns) @ ''s'')), ns, s)
          | (Some (Inl e), s) \<Rightarrow> (Inl e, ns, s)
          | (Some (Inr hs), s) \<Rightarrow> (Inr hs, ns\<lparr> ns_stores := Some hs \<rparr>, s)))"

definition nats_init :: "('c, 'h, 'v, 's) nats_client \<Rightarrow> 'h NatsStore \<times> 's \<Rightarrow> unit db \<times> 'h NatsStore \<times> 's" where
  "nats_init cl = db_then (nats_stores cl) (\<lambda>_. db_return ())"

definition nats_jobs :: "('c, 'h, 'v, 's) nats_client \<Rightarrow> 'h NatsStore \<times> 's \<Rightarrow> 'h db \<times> 'h NatsStore \<times> 's" where
  "nats_jobs cl = db_then (nats_stores cl) (\<lambda>(jobs, leases, user_limits). db_return jobs)"

definition nats_leases :: "('c, 'h, 'v, 's) nats_client \<Rightarrow> 'h NatsStore \<times> 's \<Rightarrow> 'h db \<times> 'h NatsStore \<times> 's" where
  "nats_leases cl = db_then (nats_stores cl) (\<lambda>(jobs, leases, user_limits). db_return leases)"

definition nats_user_limits :: "('c, 'h, 'v, 's) nats_client \<Rightarrow> 'h NatsStore \<times> 's \<Rightarrow> 'h db \<times> 'h NatsStore \<times> 's" where
  "nats_user_limits cl = db_then (nats_stores cl) (\<lambda>(jobs, leases, user_limits). db_return user_limits)"

text \<open>A call on the server leaves the \<open>NatsStore\<close> as it is.\<close>
definition on_server :: "('s \<Rightarrow> 'r \<times> 's) \<Rightarrow> 'n \<times> 's \<Rightarrow> 'r \<times> 'n \<times> 's" where
  "on_server m st = (case st of (ns, s) \<Rightarrow> case m s of (r, s) \<Rightarrow> (r, ns, s))"

section \<open>Keys\<close>

text \<open>\<open>str::bytes\<close>: UTF-8, for the scalar values up to U+00FF.\<close>
definition str_bytes :: "string \<Rightarrow> nat list" where
  "str_bytes s = concat (map (\<lambda>c. let n = of_char c in if n < 128 then [n] else [192 + n div 64, 128 + n mod 64]) s)"

definition hex_byte :: "nat \<Rightarrow> string" where
  "hex_byte b = [hex_digit (int (b div 16)), hex_digit (int (b mod 16))]"

definition hex_token :: "string \<Rightarrow> string" where
  "hex_token s = concat (map hex_byte (str_bytes s))"

definition user_slot_key :: "string \<Rightarrow> string \<Rightarrow> string \<Rightarrow> string" where
  "user_slot_key scope user jid = ''ul.'' @ hex_token scope @ ''.'' @ hex_token user @ ''.'' @ hex_token jid"

definition user_slot_prefix :: "string \<Rightarrow> string \<Rightarrow> string" where
  "user_slot_prefix scope user = ''ul.'' @ hex_token scope @ ''.'' @ hex_token user @ ''.''"

definition nats_job_key :: "string \<Rightarrow> string db" where
  "nats_job_key public_id =
    (case decode_result public_id of
       Inl err \<Rightarrow> Inl (Backend (''invalid public job ID '' @ debug_str public_id @ '': '' @ decode_error_display err))
     | Inr decoded \<Rightarrow> Inr (''jobs.'' @ di_site decoded @ ''.'' @ di_env decoded @ ''.''
         @ show_uint (uint (di_broker_slot decoded)) @ ''.'' @ public_id))"

definition nats_broker_lease_key :: "string \<Rightarrow> string" where
  "nats_broker_lease_key broker_id = ''brokers.'' @ broker_id"

definition nats_broker_slot_counter_key :: "string \<Rightarrow> string \<Rightarrow> string" where
  "nats_broker_slot_counter_key site_tag env_tag = ''counters.broker_slot.'' @ site_tag @ ''.'' @ env_tag"

section \<open>Job records\<close>

definition purge_expiring :: "('c, 'h, 'v, 's) nats_client \<Rightarrow> 'h \<Rightarrow> string \<Rightarrow> duration \<Rightarrow> 's \<Rightarrow> unit db \<times> 's" where
  "purge_expiring cl store key ttl s =
    (case kv_purge_with_ttl cl store key ttl s of
       (Inl ttl_err, s) \<Rightarrow> backend (''purge '' @ key @ '' (fallback)'') (kv_purge cl store key) s
     | (Inr _, s) \<Rightarrow> (Inr (), s))"

definition nats_upsert_job ::
  "('c, 'h, 'v, 's) nats_client \<Rightarrow> 'v store_codec \<Rightarrow> PersistentJobRecord \<Rightarrow> 'h NatsStore \<times> 's
    \<Rightarrow> unit db \<times> 'h NatsStore \<times> 's" where
  "nats_upsert_job cl cd record =
    db_try (nats_job_key (pjr_job_id record)) (\<lambda>key.
    db_try (serialize (cd_ser_job cd) record) (\<lambda>val.
    db_then (nats_jobs cl) (\<lambda>jobs.
    db_then (on_server (backend ''put job'' (kv_put cl jobs key val))) (\<lambda>_.
    db_return ()))))"

definition nats_delete_job ::
  "('c, 'h, 'v, 's) nats_client \<Rightarrow> string \<Rightarrow> 'h NatsStore \<times> 's \<Rightarrow> unit db \<times> 'h NatsStore \<times> 's" where
  "nats_delete_job cl jid st =
    db_try (nats_job_key jid) (\<lambda>key.
    db_then (nats_jobs cl) (\<lambda>jobs.
    on_server (purge_expiring cl jobs key (ns_job_tombstone_ttl (fst st))))) st"

definition MAX_CAS_ATTEMPTS :: nat where "MAX_CAS_ATTEMPTS = 3"

text \<open>The loop over the attempts, then the last read.\<close>
primrec nats_claim_loop ::
  "('c, 'h, 'v, 's) nats_client \<Rightarrow> 'v store_codec \<Rightarrow> 'h \<Rightarrow> string \<Rightarrow> string \<Rightarrow> string \<Rightarrow> nat \<Rightarrow> 's \<Rightarrow> ClaimResult db \<times> 's" where
  "nats_claim_loop cl cd jobs key expected claimant 0 =
    db_then (backend ''re-read after CAS retries'' (kv_entry cl jobs key)) (\<lambda>refreshed.
      case refreshed of
        Some e \<Rightarrow>
          if ke_operation e = Op_Put
          then db_try (deserialize (cd_de_job cd) (ke_value e)) (\<lambda>current.
            if pjr_broker_id current = claimant then db_return (CR_Claimed current)
            else db_return (CR_Active (pjr_broker_id current)))
          else db_return CR_NotFound
      | None \<Rightarrow> db_return CR_NotFound)"
| "nats_claim_loop cl cd jobs key expected claimant (Suc attempts) =
    db_then (backend ''get job entry'' (kv_entry cl jobs key)) (\<lambda>entry.
      case entry of
        None \<Rightarrow> db_return CR_NotFound
      | Some entry \<Rightarrow>
          if ke_operation entry \<noteq> Op_Put then db_return CR_NotFound
          else db_try (deserialize (cd_de_job cd) (ke_value entry)) (\<lambda>record.
            if pjr_broker_id record = claimant then db_return (CR_Claimed record)
            else if pjr_broker_id record \<noteq> expected then db_return (CR_Active (pjr_broker_id record))
            else let claimed = record\<lparr> pjr_broker_id := claimant \<rparr> in
              db_try (serialize (cd_ser_job cd) claimed) (\<lambda>val s.
                case kv_update cl jobs key val (ke_revision entry) s of
                  (Inr _, s) \<Rightarrow> (Inr (CR_Claimed claimed), s)
                | (Inl (UpdateFailed e), s) \<Rightarrow> (Inl (Backend (''update job: '' @ e)), s)
                | (Inl WrongLastRevision, s) \<Rightarrow> nats_claim_loop cl cd jobs key expected claimant attempts s)))"

definition nats_claim_if_owner ::
  "('c, 'h, 'v, 's) nats_client \<Rightarrow> 'v store_codec \<Rightarrow> string \<Rightarrow> string \<Rightarrow> string \<Rightarrow> 'h NatsStore \<times> 's
    \<Rightarrow> ClaimResult db \<times> 'h NatsStore \<times> 's" where
  "nats_claim_if_owner cl cd jid expected_owner_broker_id claimant_broker_id =
    db_try (nats_job_key jid) (\<lambda>key.
    db_then (nats_jobs cl) (\<lambda>jobs.
    on_server (nats_claim_loop cl cd jobs key expected_owner_broker_id claimant_broker_id MAX_CAS_ATTEMPTS)))"

section \<open>Broker leases\<close>

definition nats_upsert_broker_lease ::
  "('c, 'h, 'v, 's) nats_client \<Rightarrow> 'v store_codec \<Rightarrow> datetime \<Rightarrow> string \<Rightarrow> string \<Rightarrow> duration \<Rightarrow> 'h NatsStore \<times> 's
    \<Rightarrow> unit db \<times> 'h NatsStore \<times> 's" where
  "nats_upsert_broker_lease cl cd now broker_id internal_poll_base_url ttl =
    db_try (case chrono_from_std ttl of
        None \<Rightarrow> Inl (Backend ''invalid broker lease ttl: Source duration value is out of range for the target type'')
      | Some d \<Rightarrow> Inr d) (\<lambda>lease_duration.
    let record = \<lparr> blr_broker_id = broker_id, blr_internal_poll_base_url = internal_poll_base_url,
      blr_lease_until = now + lease_duration, blr_updated_at = now \<rparr> in
    db_try (serialize (cd_ser_lease cd) record) (\<lambda>val.
    db_then (nats_leases cl) (\<lambda>leases.
    db_then (on_server (backend ''put lease'' (kv_put cl leases (nats_broker_lease_key broker_id) val))) (\<lambda>_.
    db_return ()))))"

definition nats_get_broker_lease ::
  "('c, 'h, 'v, 's) nats_client \<Rightarrow> 'v store_codec \<Rightarrow> string \<Rightarrow> 'h NatsStore \<times> 's
    \<Rightarrow> BrokerLeaseRecord option db \<times> 'h NatsStore \<times> 's" where
  "nats_get_broker_lease cl cd broker_id =
    db_then (nats_leases cl) (\<lambda>leases.
    db_then (on_server (backend ''get lease entry'' (kv_entry cl leases (nats_broker_lease_key broker_id)))) (\<lambda>entry.
      case entry of
        Some e \<Rightarrow>
          if ke_operation e = Op_Put
          then db_try (deserialize (cd_de_lease cd) (ke_value e)) (\<lambda>record. db_return (Some record))
          else db_return None
      | None \<Rightarrow> db_return None))"

definition nats_delete_broker_lease ::
  "('c, 'h, 'v, 's) nats_client \<Rightarrow> string \<Rightarrow> 'h NatsStore \<times> 's \<Rightarrow> unit db \<times> 'h NatsStore \<times> 's" where
  "nats_delete_broker_lease cl broker_id =
    db_then (nats_leases cl) (\<lambda>leases.
    db_then (on_server (backend ''delete lease'' (kv_delete cl leases (nats_broker_lease_key broker_id)))) (\<lambda>_.
    db_return ()))"

section \<open>Broker slots\<close>

text \<open>One pass of the loop: \<open>None\<close> is \<open>continue\<close>.\<close>
definition nats_slot_attempt ::
  "('c, 'h, 'v, 's) nats_client \<Rightarrow> 'v store_codec \<Rightarrow> 'h \<Rightarrow> string \<Rightarrow> string \<Rightarrow> 's \<Rightarrow> u16 option db \<times> 's" where
  "nats_slot_attempt cl cd jobs site_tag env_tag =
    (let key = nats_broker_slot_counter_key site_tag env_tag in
     db_then (backend ''get broker slot counter'' (kv_entry cl jobs key)) (\<lambda>entry.
       case entry of
         None \<Rightarrow> db_try (serialize (cd_ser_u32 cd) 1) (\<lambda>val s.
           case kv_create cl jobs key val s of
             (Inr _, s) \<Rightarrow> (Inr (Some 0), s)
           | (Inl AlreadyExists, s) \<Rightarrow> (Inr None, s)
           | (Inl (CreateFailed e), s) \<Rightarrow> (Inl (Backend (''create broker slot counter: '' @ e)), s))
       | Some entry \<Rightarrow>
           if ke_operation entry \<noteq> Op_Put
           then db_try (serialize (cd_ser_u32 cd) 1) (\<lambda>val s.
             case kv_update cl jobs key val (ke_revision entry) s of
               (Inr _, s) \<Rightarrow> (Inr (Some 0), s)
             | (Inl WrongLastRevision, s) \<Rightarrow> (Inr None, s)
             | (Inl (UpdateFailed e), s) \<Rightarrow> (Inl (Backend (''recreate broker slot counter: '' @ e)), s))
           else db_try (deserialize (cd_de_u32 cd) (ke_value entry)) (\<lambda>next_slot.
             if next_slot > 65535 then (\<lambda>s. (Inl (SlotExhausted site_tag env_tag 65535), s))
             else db_try (serialize (cd_ser_u32 cd) (next_slot + 1)) (\<lambda>val s.
               case kv_update cl jobs key val (ke_revision entry) s of
                 (Inr _, s) \<Rightarrow> (Inr (Some (ucast next_slot)), s)
               | (Inl WrongLastRevision, s) \<Rightarrow> (Inr None, s)
               | (Inl (UpdateFailed e), s) \<Rightarrow> (Inl (Backend (''update broker slot counter: '' @ e)), s)))))"

definition allocate_nats_broker_slot ::
  "('c, 'h, 'v, 's) nats_client \<Rightarrow> 'v store_codec \<Rightarrow> string \<Rightarrow> string \<Rightarrow> 'h NatsStore \<times> 's
    \<Rightarrow> (u16 db \<times> 'h NatsStore \<times> 's) option" where
  "allocate_nats_broker_slot cl cd site_tag env_tag st =
    (case nats_jobs cl st of
       (Inl e, st) \<Rightarrow> Some (Inl e, st)
     | (Inr jobs, ns, s) \<Rightarrow> map_option (\<lambda>(r, s). (r, ns, s)) (retry_loop (nats_slot_attempt cl cd jobs site_tag env_tag) s))"

section \<open>User slots\<close>

definition reserve_user_slot_nats ::
  "('c, 'h, 'v, 's) nats_client \<Rightarrow> 'v store_codec \<Rightarrow> datetime \<Rightarrow> string \<Rightarrow> string \<Rightarrow> string \<Rightarrow> string
    \<Rightarrow> 'h NatsStore \<times> 's \<Rightarrow> u64 db \<times> 'h NatsStore \<times> 's" where
  "reserve_user_slot_nats cl cd now scope user jid owner_broker_id =
    db_then (nats_user_limits cl) (\<lambda>store.
    let key = user_slot_key scope user jid;
        entry = \<lparr> ule_scope = scope, ule_user = user, ule_job_id = jid,
          ule_owner_broker_id = owner_broker_id, ule_seq = 0, ule_created_at = now \<rparr>;
        create = db_try (serialize (cd_ser_user cd) entry) (\<lambda>val s.
          case kv_create cl store key val s of
            (Inr revision, s) \<Rightarrow> (Inr revision, s)
          | (Inl AlreadyExists, s) \<Rightarrow>
              db_then (backend ''get user slot after race'' (kv_entry cl store key)) (\<lambda>existing.
                db_return (unwrap_or (map_option ke_revision existing) 0)) s
          | (Inl (CreateFailed e), s) \<Rightarrow> (Inl (Backend (''create user slot: '' @ e)), s))
    in on_server (db_then (backend ''get user slot'' (kv_entry cl store key)) (\<lambda>found.
         case found of
           Some e \<Rightarrow> if ke_operation e = Op_Put then db_return (ke_revision e) else create
         | None \<Rightarrow> create)))"

definition release_user_slot_nats ::
  "('c, 'h, 'v, 's) nats_client \<Rightarrow> string \<Rightarrow> string \<Rightarrow> string \<Rightarrow> 'h NatsStore \<times> 's \<Rightarrow> unit db \<times> 'h NatsStore \<times> 's" where
  "release_user_slot_nats cl scope user jid st =
    db_then (nats_user_limits cl) (\<lambda>store.
    on_server (purge_expiring cl store (user_slot_key scope user jid) (user_limit_tombstone_ttl (fst st)))) st"

text \<open>Reading a watch up to the entry that catches up with the present.\<close>
fun drain_watch :: "(string + 'v kv_Entry) list \<Rightarrow> bool \<Rightarrow> 'v kv_Entry list db option" where
  "drain_watch [] ends = (if ends then Some (Inr []) else None)"
| "drain_watch (Inl e # _) ends = Some (Inl (Backend (''watch entry: '' @ e)))"
| "drain_watch (Inr entry # items) ends =
    (if ke_seen_current entry then Some (Inr [entry])
     else map_option (map_sum id ((#) entry)) (drain_watch items ends))"

definition scan_current_entries ::
  "('c, 'h, 'v, 's) nats_client \<Rightarrow> 'h \<Rightarrow> string \<Rightarrow> 's \<Rightarrow> ('v kv_Entry list db \<times> 's) option" where
  "scan_current_entries cl store key_pattern s =
    (case kv_info_with_subjects cl store (kv_prefix cl store @ key_pattern) s of
       (Inl e, s) \<Rightarrow> Some (Inl (Backend (''info '' @ key_pattern @ '': '' @ e)), s)
     | (Inr [], s) \<Rightarrow> Some (Inr [], s)
     | (Inr (_ # _), s) \<Rightarrow>
         (case kv_watch_with_history cl store key_pattern s of
            (Inl e, s) \<Rightarrow> Some (Inl (Backend (''watch '' @ key_pattern @ '': '' @ e)), s)
          | (Inr (items, ends), s) \<Rightarrow> map_option (\<lambda>r. (r, s)) (drain_watch items ends)))"

primrec collect_slots :: "'v store_codec \<Rightarrow> 'v kv_Entry list \<Rightarrow> UserLimitEntry list db" where
  "collect_slots cd [] = Inr []"
| "collect_slots cd (e # es) =
    (if ke_operation e \<noteq> Op_Put then collect_slots cd es
     else bind_result (deserialize (cd_de_user cd) (ke_value e)) (\<lambda>ent.
       bind_result (collect_slots cd es) (\<lambda>rest. Inr (ent\<lparr> ule_seq := ke_revision e \<rparr> # rest))))"

definition list_user_slots_nats ::
  "('c, 'h, 'v, 's) nats_client \<Rightarrow> 'v store_codec \<Rightarrow> string \<Rightarrow> string \<Rightarrow> 'h NatsStore \<times> 's
    \<Rightarrow> (UserLimitEntry list db \<times> 'h NatsStore \<times> 's) option" where
  "list_user_slots_nats cl cd scope user st =
    (case nats_user_limits cl st of
       (Inl e, st) \<Rightarrow> Some (Inl e, st)
     | (Inr store, ns, s) \<Rightarrow>
         map_option (\<lambda>(r, s). (bind_result r (collect_slots cd), ns, s))
           (scan_current_entries cl store (user_slot_prefix scope user @ ''>'') s))"

primrec live_owners :: "'v store_codec \<Rightarrow> datetime \<Rightarrow> 'v kv_Entry list \<Rightarrow> string set db" where
  "live_owners cd now [] = Inr {}"
| "live_owners cd now (e # es) =
    (if ke_operation e = Op_Put
     then bind_result (deserialize (cd_de_lease cd) (ke_value e)) (\<lambda>rec.
       bind_result (live_owners cd now es) (\<lambda>live.
         Inr (if blr_lease_until rec > now then insert (blr_broker_id rec) live else live)))
     else live_owners cd now es)"

primrec reclaim_loop ::
  "('c, 'h, 'v, 's) nats_client \<Rightarrow> 'v store_codec \<Rightarrow> 'h \<Rightarrow> duration \<Rightarrow> string set \<Rightarrow> 'v kv_Entry list \<Rightarrow> u64 \<Rightarrow> 's \<Rightarrow> u64 db \<times> 's" where
  "reclaim_loop cl cd ul ttl live [] removed = db_return removed"
| "reclaim_loop cl cd ul ttl live (e # es) removed =
    (if take 3 (ke_key e) \<noteq> ''ul.'' \<or> ke_operation e \<noteq> Op_Put then reclaim_loop cl cd ul ttl live es removed
     else db_try (deserialize (cd_de_user cd) (ke_value e)) (\<lambda>ent.
       if ule_owner_broker_id ent \<in> live then reclaim_loop cl cd ul ttl live es removed
       else db_then (purge_expiring cl ul (ke_key e) ttl) (\<lambda>_. reclaim_loop cl cd ul ttl live es (removed + 1))))"

definition reclaim_user_slots_nats ::
  "('c, 'h, 'v, 's) nats_client \<Rightarrow> 'v store_codec \<Rightarrow> datetime \<Rightarrow> 'h NatsStore \<times> 's
    \<Rightarrow> (u64 db \<times> 'h NatsStore \<times> 's) option" where
  "reclaim_user_slots_nats cl cd now st =
    (case nats_leases cl st of
       (Inl e, st) \<Rightarrow> Some (Inl e, st)
     | (Inr leases, ns, s) \<Rightarrow>
     case scan_current_entries cl leases ''>'' s of
       None \<Rightarrow> None
     | Some (Inl e, s) \<Rightarrow> Some (Inl e, ns, s)
     | Some (Inr held, s) \<Rightarrow>
     case live_owners cd now held of
       Inl e \<Rightarrow> Some (Inl e, ns, s)
     | Inr live \<Rightarrow>
     case nats_user_limits cl (ns, s) of
       (Inl e, st) \<Rightarrow> Some (Inl e, st)
     | (Inr ul, ns, s) \<Rightarrow>
     case scan_current_entries cl ul ''>'' s of
       None \<Rightarrow> None
     | Some (Inl e, s) \<Rightarrow> Some (Inl e, ns, s)
     | Some (Inr entries, s) \<Rightarrow>
         (case reclaim_loop cl cd ul (user_limit_tombstone_ttl ns) live entries 0 s of (r, s) \<Rightarrow> Some (r, ns, s)))"

section \<open>What the store relies on\<close>

text \<open>\<open>cur s h k\<close> is the last message of a key; \<open>live\<close> when it carries a value.\<close>

definition live :: "'v kv_Entry option \<Rightarrow> bool" where
  "live m \<longleftrightarrow> (\<exists>e. m = Some e \<and> ke_operation e = Op_Put)"

definition last_revision :: "'v kv_Entry option \<Rightarrow> u64" where
  "last_revision m = (case m of None \<Rightarrow> 0 | Some e \<Rightarrow> ke_revision e)"

text \<open>The view changes in one key only, to a value.\<close>
definition wrote ::
  "('s \<Rightarrow> 'h \<Rightarrow> string \<Rightarrow> 'v kv_Entry option) \<Rightarrow> 'h \<Rightarrow> string \<Rightarrow> 'v \<Rightarrow> u64 \<Rightarrow> 's \<Rightarrow> 's \<Rightarrow> bool" where
  "wrote cur h k v rv s s' \<longleftrightarrow>
    (\<exists>e. ke_key e = k \<and> ke_value e = v \<and> ke_revision e = rv \<and> ke_operation e = Op_Put
      \<and> cur s' = (cur s)(h := (cur s h)(k \<mapsto> e)))"

locale nats_kv =
  fixes cl :: "('c, 'h, 'v, 's) nats_client"
    and cur :: "'s \<Rightarrow> 'h \<Rightarrow> string \<Rightarrow> 'v kv_Entry option"
    and others :: "'s \<Rightarrow> 's \<Rightarrow> bool"
    and ok :: "'s \<Rightarrow> bool"
  assumes others_refl: "others s s"
    and others_trans: "others s s' \<Longrightarrow> others s' s'' \<Longrightarrow> others s s''"
    and others_ok: "ok s \<Longrightarrow> others s s' \<Longrightarrow> ok s'"
    and revision_pos: "ok s \<Longrightarrow> cur s h k = Some e \<Longrightarrow> ke_revision e \<noteq> 0"
    and revision_fresh: "ok s \<Longrightarrow> others s s' \<Longrightarrow> cur s h k = Some e \<Longrightarrow> cur s' h k = Some e' \<Longrightarrow>
      ke_revision e' = ke_revision e \<Longrightarrow> e' = e"
    and entry_law: "ok s \<Longrightarrow> kv_entry cl h k s = (r, s') \<Longrightarrow>
      others s s' \<and> (\<forall>m. r = Inr m \<longrightarrow> m = cur s' h k)"
    and update_law: "ok s \<Longrightarrow> kv_update cl h k v rv s = (Inr rv', s') \<Longrightarrow>
      \<exists>s1. others s s1 \<and> last_revision (cur s1 h k) = rv \<and> wrote cur h k v rv' s1 s' \<and> ok s'"
    and update_lost: "ok s \<Longrightarrow> kv_update cl h k v rv s = (Inl WrongLastRevision, s') \<Longrightarrow>
      \<exists>s1. others s s1 \<and> last_revision (cur s1 h k) \<noteq> rv \<and> others s1 s'"
    and create_law: "ok s \<Longrightarrow> kv_create cl h k v s = (Inr rv', s') \<Longrightarrow>
      \<exists>s1. others s s1 \<and> \<not> live (cur s1 h k) \<and> wrote cur h k v rv' s1 s' \<and> ok s'"
    and create_lost: "ok s \<Longrightarrow> kv_create cl h k v s = (Inl AlreadyExists, s') \<Longrightarrow>
      \<exists>s1. others s s1 \<and> live (cur s1 h k) \<and> others s1 s'"
begin

text \<open>A conditional update on the revision of an entry acts on that very entry.\<close>
lemma update_on_entry:
  assumes "ok s" "kv_entry cl h k s = (Inr (Some e), s1)" "kv_update cl h k v (ke_revision e) s1 = (Inr rv, s')"
  shows "\<exists>s2. others s s2 \<and> cur s2 h k = Some e \<and> wrote cur h k v rv s2 s' \<and> ok s'"
proof -
  have 1: "others s s1" "cur s1 h k = Some e" using entry_law [OF assms(1,2)] by auto
  then have "ok s1" using others_ok assms(1) by blast
  then obtain s2 where 2: "others s1 s2" "last_revision (cur s2 h k) = ke_revision e"
      "wrote cur h k v rv s2 s'" "ok s'"
    using update_law [OF _ assms(3)] by blast
  have "ke_revision e \<noteq> 0" using revision_pos \<open>ok s1\<close> 1(2) by blast
  then obtain e' where e': "cur s2 h k = Some e'" "ke_revision e' = ke_revision e"
    using 2(2) by (auto simp: last_revision_def split: option.splits)
  then have "e' = e" using revision_fresh [OF \<open>ok s1\<close> 2(1) 1(2)] by blast
  with e' 1(1) 2 others_trans show ?thesis by blast
qed

end

section \<open>Claims are linearizable\<close>

text \<open>The durable record behind a key.\<close>
definition nats_record :: "'v store_codec \<Rightarrow> 'v kv_Entry option \<Rightarrow> PersistentJobRecord option" where
  "nats_record cd m =
    (case m of
       None \<Rightarrow> None
     | Some e \<Rightarrow> if ke_operation e = Op_Put then (case cd_de_job cd (ke_value e) of Inl _ \<Rightarrow> None | Inr r \<Rightarrow> Some r)
         else None)"

lemma nats_record_simps [simp]:
  "nats_record cd None = None"
  "ke_operation e \<noteq> Op_Put \<Longrightarrow> nats_record cd (Some e) = None"
  "ke_operation e = Op_Put \<Longrightarrow> cd_de_job cd (ke_value e) = Inr r \<Longrightarrow> nats_record cd (Some e) = Some r"
  by (simp_all add: nats_record_def)

text \<open>At one instant the store turns from \<open>s\<close> into \<open>s'\<close> as the compare-and-set prescribes, and nothing
  but the record of this key changes.\<close>
definition claim_instant ::
  "('s \<Rightarrow> 'h \<Rightarrow> string \<Rightarrow> 'v kv_Entry option) \<Rightarrow> 'v store_codec \<Rightarrow> 'h \<Rightarrow> string \<Rightarrow> string \<Rightarrow> string \<Rightarrow> ClaimResult
    \<Rightarrow> 's \<Rightarrow> 's \<Rightarrow> bool" where
  "claim_instant cur cd h k expected claimant res s s' \<longleftrightarrow>
    atomic_claim expected claimant (nats_record cd (cur s h k)) = (res, nats_record cd (cur s' h k))
    \<and> (\<forall>h' k'. (h', k') \<noteq> (h, k) \<longrightarrow> cur s' h' k' = cur s h' k')
    \<and> (nats_record cd (cur s h k) = nats_record cd (cur s' h k) \<longrightarrow> s' = s)"

lemma claim_instant_read:
  "atomic_claim expected claimant (nats_record cd (cur s h k)) = (res, nats_record cd (cur s h k)) \<Longrightarrow>
    claim_instant cur cd h k expected claimant res s s"
  by (simp add: claim_instant_def)

text \<open>One attempt, by what it reads.\<close>

definition readable :: "('v \<Rightarrow> string + 'a) \<Rightarrow> 'v kv_Entry option \<Rightarrow> bool" where
  "readable de m \<longleftrightarrow> (\<forall>e. m = Some e \<longrightarrow> ke_operation e = Op_Put \<longrightarrow> (\<exists>x. de (ke_value e) = Inr x))"

lemma nats_record_Some:
  "nats_record cd m = Some r \<longleftrightarrow>
    (\<exists>e. m = Some e \<and> ke_operation e = Op_Put \<and> cd_de_job cd (ke_value e) = Inr r)"
  by (auto simp: nats_record_def split: option.splits sum.splits)

lemma claim_loop_unreadable:
  assumes "kv_entry cl jobs key s = (Inr m, s1)" "\<not> readable (cd_de_job cd) m"
  shows "\<exists>err. nats_claim_loop cl cd jobs key expected claimant n s = (Inl err, s1)"
proof -
  obtain e err where e: "m = Some e" "ke_operation e = Op_Put" "cd_de_job cd (ke_value e) = Inl err"
    using assms(2) by (auto simp: readable_def) (metis sum.exhaust)
  then show ?thesis using assms(1) by (cases n) (simp_all add: db_then_def backend_def db_try_def deserialize_def)
qed

lemma claim_loop_settled:
  assumes "kv_entry cl jobs key s = (Inr m, s1)" "readable (cd_de_job cd) m"
    "snd (atomic_claim expected claimant (nats_record cd m)) = nats_record cd m"
    "n = 0 \<longrightarrow> (\<forall>r. nats_record cd m = Some r \<longrightarrow> pjr_broker_id r = claimant \<or> pjr_broker_id r \<noteq> expected)"
  shows "nats_claim_loop cl cd jobs key expected claimant n s
    = (Inr (fst (atomic_claim expected claimant (nats_record cd m))), s1)"
proof (cases "nats_record cd m")
  case None
  then have "m = None \<or> (\<exists>e. m = Some e \<and> ke_operation e \<noteq> Op_Put)"
    using assms(2) by (auto simp: nats_record_def readable_def split: option.splits if_splits sum.splits)
  then show ?thesis using None assms(1)
    by (cases n) (auto simp: db_then_def backend_def db_return_def atomic_claim_def)
next
  case (Some r)
  then obtain e where e: "m = Some e" "ke_operation e = Op_Put" "cd_de_job cd (ke_value e) = Inr r"
    by (auto simp: nats_record_Some)
  have own: "pjr_broker_id r = claimant \<or> pjr_broker_id r \<noteq> expected"
    using assms(3) Some by (cases r) (auto simp: atomic_claim_def split: if_splits)
  show ?thesis using Some e own assms(1)
    by (cases n) (auto simp: db_then_def backend_def db_return_def db_try_def deserialize_def atomic_claim_def)
qed

lemma claim_loop_contends:
  assumes "kv_entry cl jobs key s = (Inr (Some e), s1)" "ke_operation e = Op_Put" "cd_de_job cd (ke_value e) = Inr r"
    "pjr_broker_id r = expected" "expected \<noteq> claimant" "cd_ser_job cd (r\<lparr> pjr_broker_id := claimant \<rparr>) = Inr v"
  shows "nats_claim_loop cl cd jobs key expected claimant (Suc n) s =
    (case kv_update cl jobs key v (ke_revision e) s1 of
       (Inr _, s) \<Rightarrow> (Inr (CR_Claimed (r\<lparr> pjr_broker_id := claimant \<rparr>)), s)
     | (Inl WrongLastRevision, s) \<Rightarrow> nats_claim_loop cl cd jobs key expected claimant n s
     | (Inl (UpdateFailed e), s) \<Rightarrow> (Inl (Backend (''update job: '' @ e)), s))"
  using assms by (simp add: db_then_def backend_def db_try_def deserialize_def serialize_def Let_def
      split: prod.splits sum.splits UpdateError.splits)

locale nats_kv_codec = nats_kv cl cur others ok + round_trip_codec cd
  for cl :: "('c, 'h, 'v, 's) nats_client" and cur others ok and cd :: "'v store_codec"
begin

lemma claim_instant_write:
  assumes "wrote cur h k v rv s s'" "cur s h k = Some e" "ke_operation e = Op_Put"
    "cd_de_job cd (ke_value e) = Inr r" "pjr_broker_id r = expected" "expected \<noteq> claimant"
    "cd_ser_job cd (r\<lparr> pjr_broker_id := claimant \<rparr>) = Inr v"
  shows "claim_instant cur cd h k expected claimant (CR_Claimed (r\<lparr> pjr_broker_id := claimant \<rparr>)) s s'"
proof -
  obtain e' where e': "ke_value e' = v" "ke_operation e' = Op_Put" "cur s' = (cur s)(h := (cur s h)(k \<mapsto> e'))"
    using assms(1) by (auto simp: wrote_def)
  then have new: "nats_record cd (cur s' h k) = Some (r\<lparr> pjr_broker_id := claimant \<rparr>)"
    using ser_job_de [OF assms(7)] by simp
  have "r \<noteq> r\<lparr> pjr_broker_id := claimant \<rparr>" using assms(5,6) by (cases r) auto
  with new assms e' show ?thesis by (auto simp: claim_instant_def atomic_claim_def)
qed

lemma claim_loop_reads:
  assumes "ok s" "nats_claim_loop cl cd jobs key expected claimant n s = (Inr res, s')"
    "kv_entry cl jobs key s = (Inr m, s1)"
    "\<nexists>r. nats_record cd m = Some r \<and> pjr_broker_id r = expected \<and> expected \<noteq> claimant"
  shows "\<exists>s1. others s s1 \<and> claim_instant cur cd jobs key expected claimant res s1 s'"
proof -
  have same: "snd (atomic_claim expected claimant (nats_record cd m)) = nats_record cd m"
    by (intro atomic_claim_same) (use assms(4) in auto)
  have "readable (cd_de_job cd) m"
    using claim_loop_unreadable [OF assms(3), of cd expected claimant n] assms(2) by fastforce
  from claim_loop_settled [OF assms(3) this same, of n] assms(2,4)
  have "res = fst (atomic_claim expected claimant (nats_record cd m))" "s' = s1" by auto
  moreover have "others s s1" "m = cur s1 jobs key" using entry_law [OF assms(1,3)] by auto
  ultimately show ?thesis using same by (auto intro!: claim_instant_read exI [of _ s1] simp: prod_eq_iff)
qed

lemma claim_loop_linearizable:
  "ok s \<Longrightarrow> nats_claim_loop cl cd jobs key expected claimant n s = (Inr res, s') \<Longrightarrow>
    (\<exists>s1. others s s1 \<and> claim_instant cur cd jobs key expected claimant res s1 s')
    \<or> (others s s' \<and> res = CR_Active expected \<and> expected \<noteq> claimant
        \<and> (\<exists>r. nats_record cd (cur s' jobs key) = Some r \<and> pjr_broker_id r = expected))"
proof (induction n arbitrary: s)
  case 0
  from 0(2) obtain m s1 where read: "kv_entry cl jobs key s = (Inr m, s1)"
    unfolding nats_claim_loop.simps db_then_Inr backend_Inr by blast
  with 0 have s1: "others s s1" "m = cur s1 jobs key" using entry_law by blast+
  show ?case
  proof (cases "\<exists>r. nats_record cd m = Some r \<and> pjr_broker_id r = expected \<and> expected \<noteq> claimant")
    case False
    then show ?thesis using claim_loop_reads [OF 0 read] by blast
  next
    case True
    then obtain e r where e: "m = Some e" "ke_operation e = Op_Put" "cd_de_job cd (ke_value e) = Inr r"
        "pjr_broker_id r = expected" "expected \<noteq> claimant"
      by (auto simp: nats_record_Some)
    then have "nats_claim_loop cl cd jobs key expected claimant 0 s = (Inr (CR_Active expected), s1)"
      using read by (simp add: db_then_def backend_def db_return_def db_try_def deserialize_def)
    with 0(2) have "res = CR_Active expected" "s' = s1" by simp_all
    with s1 True e(5) show ?thesis by blast
  qed
next
  case (Suc n)
  from Suc.prems(2) obtain m s1 where read: "kv_entry cl jobs key s = (Inr m, s1)"
    unfolding nats_claim_loop.simps db_then_Inr backend_Inr by blast
  with Suc have s1: "others s s1" "m = cur s1 jobs key" using entry_law by blast+
  have ok1: "ok s1" using others_ok Suc.prems(1) s1(1) by blast
  show ?case
  proof (cases "\<exists>r. nats_record cd m = Some r \<and> pjr_broker_id r = expected \<and> expected \<noteq> claimant")
    case False
    then show ?thesis using claim_loop_reads [OF Suc.prems read] by blast
  next
    case True
    then obtain e r where e: "m = Some e" "ke_operation e = Op_Put" "cd_de_job cd (ke_value e) = Inr r"
        "pjr_broker_id r = expected" "expected \<noteq> claimant"
      by (auto simp: nats_record_Some)
    obtain v where v: "cd_ser_job cd (r\<lparr> pjr_broker_id := claimant \<rparr>) = Inr v" using job_rt by blast
    note run = claim_loop_contends [OF read [unfolded e(1)] e(2-5) v, of n]
    obtain u s2 where upd: "kv_update cl jobs key v (ke_revision e) s1 = (u, s2)" by (rule prod.exhaust)
    show ?thesis
    proof (cases u)
      case (Inr rv)
      then obtain s3 where s3: "others s s3" "cur s3 jobs key = Some e" "wrote cur jobs key v rv s3 s2"
        using update_on_entry [OF Suc.prems(1), of jobs key e s1 v rv s2] read e(1) upd by auto
      from claim_instant_write [OF s3(3,2) e(2-5) v] s3(1) run Inr upd Suc.prems(2) show ?thesis by auto
    next
      case (Inl err)
      with run upd Suc.prems(2) have lost: "err = WrongLastRevision"
        "nats_claim_loop cl cd jobs key expected claimant n s2 = (Inr res, s')"
        by (cases err; simp)+
      then have "others s1 s2" using update_lost [OF ok1, of jobs key v "ke_revision e" s2] upd Inl others_trans by blast
      then have "others s s2" "ok s2" using s1(1) others_trans others_ok Suc.prems(1) by blast+
      from Suc.IH [OF this(2) lost(2)] this(1) others_trans show ?thesis by blast
    qed
  qed
qed

end

section \<open>Slot allocation\<close>

definition nats_counter :: "'v store_codec \<Rightarrow> 'v kv_Entry option \<Rightarrow> nat" where
  "nats_counter cd m =
    (case m of
       None \<Rightarrow> 0
     | Some e \<Rightarrow> if ke_operation e = Op_Put then (case cd_de_u32 cd (ke_value e) of Inl _ \<Rightarrow> 0 | Inr n \<Rightarrow> unat n) else 0)"

text \<open>At one instant the counter moves from \<open>n\<close> to \<open>n + 1\<close>, and nothing else changes.\<close>
definition slot_instant ::
  "('s \<Rightarrow> 'h \<Rightarrow> string \<Rightarrow> 'v kv_Entry option) \<Rightarrow> 'v store_codec \<Rightarrow> 'h \<Rightarrow> string \<Rightarrow> nat \<Rightarrow> 's \<Rightarrow> 's \<Rightarrow> bool" where
  "slot_instant cur cd h k n s s' \<longleftrightarrow>
    n < 65536 \<and> nats_counter cd (cur s h k) = n \<and> nats_counter cd (cur s' h k) = n + 1
    \<and> (\<forall>h' k'. (h', k') \<noteq> (h, k) \<longrightarrow> cur s' h' k' = cur s h' k')"

lemma slot_attempt_Inr:
  assumes "nats_slot_attempt cl cd jobs site env s = (Inr r, s')"
  obtains m s1 where "kv_entry cl jobs (nats_broker_slot_counter_key site env) s = (Inr m, s1)"
  using assms unfolding nats_slot_attempt_def Let_def db_then_Inr backend_Inr by blast

lemma slot_attempt_create:
  assumes "kv_entry cl jobs (nats_broker_slot_counter_key site env) s = (Inr None, s1)" "cd_ser_u32 cd 1 = Inr v"
  shows "nats_slot_attempt cl cd jobs site env s =
    (case kv_create cl jobs (nats_broker_slot_counter_key site env) v s1 of
       (Inr _, s) \<Rightarrow> (Inr (Some 0), s)
     | (Inl AlreadyExists, s) \<Rightarrow> (Inr None, s)
     | (Inl (CreateFailed e), s) \<Rightarrow> (Inl (Backend (''create broker slot counter: '' @ e)), s))"
  using assms by (simp add: nats_slot_attempt_def db_then_def backend_def db_try_def serialize_def Let_def
      split: prod.splits sum.splits CreateError.splits)

text \<open>With an entry, the next slot and the value to write: a tombstone counts as 0.\<close>
definition next_slot :: "'v store_codec \<Rightarrow> 'v kv_Entry \<Rightarrow> u32" where
  "next_slot cd e = (if ke_operation e = Op_Put then (case cd_de_u32 cd (ke_value e) of Inl _ \<Rightarrow> 0 | Inr n \<Rightarrow> n) else 0)"

lemma nats_counter_Some [simp]: "nats_counter cd (Some e) = unat (next_slot cd e)"
  by (simp add: nats_counter_def next_slot_def split: sum.splits)

lemma slot_attempt_full:
  assumes "kv_entry cl jobs (nats_broker_slot_counter_key site env) s = (Inr (Some e), s1)"
    "readable (cd_de_u32 cd) (Some e)" "next_slot cd e > 65535"
  shows "nats_slot_attempt cl cd jobs site env s = (Inl (SlotExhausted site env 65535), s1)"
proof -
  obtain n where "ke_operation e = Op_Put" "cd_de_u32 cd (ke_value e) = Inr n" "n > 65535"
    using assms(2,3) by (auto simp: next_slot_def readable_def split: if_splits sum.splits)
  with assms(1) show ?thesis
    by (simp add: nats_slot_attempt_def db_then_def backend_def db_try_def deserialize_def Let_def)
qed

lemma slot_attempt_unreadable:
  assumes "kv_entry cl jobs (nats_broker_slot_counter_key site env) s = (Inr m, s1)" "\<not> readable (cd_de_u32 cd) m"
  shows "\<exists>err. nats_slot_attempt cl cd jobs site env s = (Inl err, s1)"
proof -
  obtain e err where e: "m = Some e" "ke_operation e = Op_Put" "cd_de_u32 cd (ke_value e) = Inl err"
    using assms(2) by (auto simp: readable_def) (metis sum.exhaust)
  then show ?thesis using assms(1) by (simp add: nats_slot_attempt_def db_then_def backend_def db_try_def deserialize_def Let_def)
qed

lemma slot_attempt_update:
  assumes "kv_entry cl jobs (nats_broker_slot_counter_key site env) s = (Inr (Some e), s1)"
    "readable (cd_de_u32 cd) (Some e)" "\<not> next_slot cd e > 65535" "cd_ser_u32 cd (next_slot cd e + 1) = Inr v"
  shows "\<exists>what. nats_slot_attempt cl cd jobs site env s =
    (case kv_update cl jobs (nats_broker_slot_counter_key site env) v (ke_revision e) s1 of
       (Inr _, s) \<Rightarrow> (Inr (Some (ucast (next_slot cd e))), s)
     | (Inl WrongLastRevision, s) \<Rightarrow> (Inr None, s)
     | (Inl (UpdateFailed err), s) \<Rightarrow> (Inl (Backend (what @ err)), s))"
proof (cases "ke_operation e = Op_Put")
  case True
  then obtain n where n: "cd_de_u32 cd (ke_value e) = Inr n" using assms(2) by (auto simp: readable_def)
  with True have "next_slot cd e = n" by (simp add: next_slot_def)
  with assms True n show ?thesis
    by (intro exI [of _ "''update broker slot counter: ''"])
      (simp add: nats_slot_attempt_def db_then_def backend_def db_try_def serialize_def deserialize_def Let_def
        split: prod.splits sum.splits UpdateError.splits)
next
  case False
  then have "next_slot cd e = 0" by (simp add: next_slot_def)
  with assms False show ?thesis
    by (intro exI [of _ "''recreate broker slot counter: ''"])
      (simp add: nats_slot_attempt_def db_then_def backend_def db_try_def serialize_def Let_def
        split: prod.splits sum.splits UpdateError.splits)
qed

context nats_kv_codec
begin

lemma counter_written:
  assumes "wrote cur h k v rv s s'" "cd_ser_u32 cd n = Inr v"
  shows "nats_counter cd (cur s' h k) = unat n \<and> (\<forall>h' k'. (h', k') \<noteq> (h, k) \<longrightarrow> cur s' h' k' = cur s h' k')"
  using assms ser_u32_de [OF assms(2)] by (auto simp: wrote_def nats_counter_def)

text \<open>An attempt takes a slot at one instant, or lost a race against somebody who moved the counter.\<close>
definition attempt_result :: "'h \<Rightarrow> string \<Rightarrow> u16 option \<Rightarrow> 's \<Rightarrow> 's \<Rightarrow> bool" where
  "attempt_result jobs key r s s' \<longleftrightarrow>
    (\<exists>slot s1. r = Some slot \<and> others s s1 \<and> slot_instant cur cd jobs key (unat slot) s1 s' \<and> ok s')
    \<or> (r = None \<and> (\<exists>s1 s2. others s s1 \<and> others s1 s2 \<and> others s2 s' \<and> cur s2 jobs key \<noteq> cur s1 jobs key))"

lemma slot_create_result:
  assumes "ok s" "nats_slot_attempt cl cd jobs site env s = (Inr r, s')"
    and read: "kv_entry cl jobs (nats_broker_slot_counter_key site env) s = (Inr None, s1)"
  shows "attempt_result jobs (nats_broker_slot_counter_key site env) r s s'"
proof -
  define key where "key = nats_broker_slot_counter_key site env"
  have s1: "others s s1" "cur s1 jobs key = None" using entry_law [OF assms(1) read] by (auto simp: key_def)
  have ok1: "ok s1" using others_ok assms(1) s1(1) by blast
  obtain v where v: "cd_ser_u32 cd 1 = Inr v" using u32_rt by blast
  obtain c s2 where c: "kv_create cl jobs key v s1 = (c, s2)" by (rule prod.exhaust)
  note at = slot_attempt_create [OF read v, folded key_def, unfolded c]
  show ?thesis
  proof (cases c)
    case (Inr rv)
    then obtain s3 where s3: "others s1 s3" "\<not> live (cur s3 jobs key)" "wrote cur jobs key v rv s3 s2" "ok s2"
      using create_law [OF ok1, of jobs key v rv s2] c by blast
    have "nats_counter cd (cur s3 jobs key) = 0" using s3(2) by (auto simp: nats_counter_def live_def split: option.splits)
    then have "slot_instant cur cd jobs key (unat (0 :: u16)) s3 s2"
      using counter_written [OF s3(3) v] by (auto simp: slot_instant_def)
    then show ?thesis using at Inr assms(2) others_trans [OF s1(1) s3(1)] s3(4) by (auto simp: attempt_result_def key_def)
  next
    case (Inl e)
    with at assms(2) have "e = AlreadyExists" "r = None" "s' = s2" by (cases e; simp)+
    then obtain s3 where "others s1 s3" "live (cur s3 jobs key)" "others s3 s'"
      using create_lost [OF ok1, of jobs key v s2] c Inl by blast
    moreover have "\<not> live (cur s1 jobs key)" using s1(2) by (simp add: live_def)
    ultimately have "cur s3 jobs key \<noteq> cur s1 jobs key" "others s1 s3" "others s3 s'" by auto
    then show ?thesis using \<open>r = None\<close> s1(1) unfolding attempt_result_def key_def by blast
  qed
qed

lemma slot_update_result:
  assumes "ok s" and run: "nats_slot_attempt cl cd jobs site env s = (Inr r, s')"
    and read: "kv_entry cl jobs (nats_broker_slot_counter_key site env) s = (Inr (Some e), s1)"
  shows "attempt_result jobs (nats_broker_slot_counter_key site env) r s s'"
proof -
  define key where "key = nats_broker_slot_counter_key site env"
  have s1: "others s s1" "cur s1 jobs key = Some e" using entry_law [OF assms(1) read] by (auto simp: key_def)
  have rd: "readable (cd_de_u32 cd) (Some e)" using slot_attempt_unreadable [OF read, of cd] run by fastforce
  have small: "\<not> next_slot cd e > 65535" using slot_attempt_full [OF read rd] run by auto
  obtain v where v: "cd_ser_u32 cd (next_slot cd e + 1) = Inr v" using u32_rt by blast
  obtain c s2 where c: "kv_update cl jobs key v (ke_revision e) s1 = (c, s2)" by (rule prod.exhaust)
  obtain what where at: "nats_slot_attempt cl cd jobs site env s =
      (case (c, s2) of (Inr _, s) \<Rightarrow> (Inr (Some (ucast (next_slot cd e))), s)
         | (Inl WrongLastRevision, s) \<Rightarrow> (Inr None, s) | (Inl (UpdateFailed err), s) \<Rightarrow> (Inl (Backend (what @ err)), s))"
    using slot_attempt_update [OF read rd small v] c unfolding key_def by auto
  show ?thesis
  proof (cases c)
    case (Inr rv)
    obtain s3 where s3: "others s s3" "cur s3 jobs key = Some e" "wrote cur jobs key v rv s3 s2" "ok s2"
      using update_on_entry [OF assms(1), of jobs key e s1 v rv s2] read c Inr unfolding key_def by auto
    have lt: "unat (next_slot cd e) < 65536" using small by (simp add: word_less_nat_alt)
    have "unat (ucast (next_slot cd e) :: u16) = unat (next_slot cd e)"
      using lt by (simp add: unsigned_ucast_eq take_bit_nat_eq_self)
    moreover have "unat (next_slot cd e + 1) = Suc (unat (next_slot cd e))"
      using lt by (simp add: unat_word_ariths)
    ultimately have "slot_instant cur cd jobs key (unat (ucast (next_slot cd e) :: u16)) s3 s2"
      using counter_written [OF s3(3) v] s3(2) lt by (simp add: slot_instant_def)
    then show ?thesis using at Inr run s3(1,4) by (auto simp: attempt_result_def key_def)
  next
    case (Inl err)
    with at run have "err = WrongLastRevision" "r = None" "s' = s2" by (cases err; simp)+
    then obtain s3 where "others s1 s3" "last_revision (cur s3 jobs key) \<noteq> ke_revision e" "others s3 s'"
      using update_lost [of s1 jobs key v "ke_revision e" s2] others_ok [OF assms(1) s1(1)] c Inl by blast
    moreover have "last_revision (cur s1 jobs key) = ke_revision e" using s1(2) by (simp add: last_revision_def)
    ultimately have "cur s3 jobs key \<noteq> cur s1 jobs key" "others s1 s3" "others s3 s'" by auto
    then show ?thesis using \<open>r = None\<close> s1(1) unfolding attempt_result_def key_def by blast
  qed
qed

lemma slot_attempt_result:
  assumes "ok s" "nats_slot_attempt cl cd jobs site env s = (Inr r, s')"
  shows "attempt_result jobs (nats_broker_slot_counter_key site env) r s s'"
proof -
  obtain m s1 where "kv_entry cl jobs (nats_broker_slot_counter_key site env) s = (Inr m, s1)"
    using assms(2) by (rule slot_attempt_Inr)
  then show ?thesis using slot_create_result [OF assms] slot_update_result [OF assms] by (cases m) auto
qed

lemma slot_loop_result:
  assumes "retry_loop (nats_slot_attempt cl cd jobs site env) s = Some (Inr slot, s')" "ok s"
  shows "\<exists>s1. others s s1 \<and> slot_instant cur cd jobs (nats_broker_slot_counter_key site env) (unat slot) s1 s' \<and> ok s'"
  using assms
proof (rule retry_loop_result [where I = ok], goal_cases)
  case (1 s slot s')
  then show ?case using slot_attempt_result [OF 1] by (auto simp: attempt_result_def)
next
  case (2 s s1)
  then show ?case using slot_attempt_result [OF 2] others_trans others_ok unfolding attempt_result_def by blast
next
  case (3 s s1 slot s')
  have "others s s1" using slot_attempt_result [OF 3(1,2)] others_trans unfolding attempt_result_def by blast
  then show ?case using 3(3) others_trans by blast
qed

end

section \<open>Slot allocation returns\<close>

text \<open>\<open>pending\<close> bounds the changes that others will still make.\<close>
locale nats_settling = nats_kv_codec cl cur others ok cd
  for cl :: "('c, 'h, 'v, 's) nats_client" and cur others ok and cd :: "'v store_codec" +
  fixes pending :: "'s \<Rightarrow> nat"
  assumes pending_mono: "ok s \<Longrightarrow> others s s' \<Longrightarrow> pending s' \<le> pending s"
    and pending_change: "ok s \<Longrightarrow> others s s' \<Longrightarrow> cur s' h k \<noteq> cur s h k \<Longrightarrow> pending s' < pending s"
begin

lemma slot_loop_returns:
  assumes "ok s"
  shows "\<exists>r s'. retry_loop (nats_slot_attempt cl cd jobs site env) s = Some (r, s')"
proof (rule retry_loop_returns [where I = ok and m = pending, OF assms])
  fix s s' assume ok: "ok s" and run: "nats_slot_attempt cl cd jobs site env s = (Inr None, s')"
  then obtain s1 s2 where o: "others s s1" "others s1 s2" "others s2 s'"
      "cur s2 jobs (nats_broker_slot_counter_key site env) \<noteq> cur s1 jobs (nats_broker_slot_counter_key site env)"
    using slot_attempt_result [OF ok run] by (auto simp: attempt_result_def)
  have ok': "ok s1" "ok s2" "ok s'" using others_ok ok o by blast+
  then show "ok s' \<and> pending s' < pending s"
    using pending_mono [OF ok o(1)] pending_change [OF ok'(1) o(2,4)] pending_mono [OF ok'(2) o(3)] by linarith
qed

end

end
