(* ===== verification/Nats_Keys.thy ===== *)
theory Nats_Keys
  imports Nats_Store
begin

text \<open>
  The keys of the NATS store: they are valid subjects, distinct jobs and distinct admission entries have
  distinct keys, and the keys of one user's entries are those under that user's prefix.
\<close>

section \<open>Subjects\<close>

text \<open>The tokens of a subject, separated by dots.\<close>
fun tokens :: "string \<Rightarrow> string list" where
  "tokens [] = [[]]"
| "tokens (c # cs) =
    (if c = CHR ''.'' then [] # tokens cs
     else (case tokens cs of [] \<Rightarrow> [[c]] | t # ts \<Rightarrow> (c # t) # ts))"

definition kv_char :: "char \<Rightarrow> bool" where
  "kv_char c \<longleftrightarrow> c \<in> set ''-/_='' \<or>
    list_ex (\<lambda>(first, last). first \<le> c \<and> c \<le> last) [(CHR ''0'', CHR ''9''), (CHR ''a'', CHR ''z''), (CHR ''A'', CHR ''Z'')]"

text \<open>The documented form of a key: non-empty tokens of the permitted characters.\<close>
definition valid_kv_key :: "string \<Rightarrow> bool" where
  "valid_kv_key k \<longleftrightarrow> (\<forall>t \<in> set (tokens k). t \<noteq> [] \<and> list_all kv_char t)"

lemma tokens_not_Nil [simp]: "tokens k \<noteq> []"
  by (cases k) (auto split: list.splits)

lemma tokens_append_dot: "tokens (a @ CHR ''.'' # b) = tokens a @ tokens b"
  by (induction a) (auto split: list.splits)

lemma kv_char_dot [simp]: "\<not> kv_char CHR ''.''"
  by (simp add: kv_char_def)

lemma tokens_word: "list_all kv_char a \<Longrightarrow> tokens a = [a]"
  by (induction a) auto

lemma valid_kv_key_dot [simp]: "valid_kv_key (a @ CHR ''.'' # b) \<longleftrightarrow> valid_kv_key a \<and> valid_kv_key b"
  by (auto simp: valid_kv_key_def tokens_append_dot)

lemma valid_kv_key_word: "list_all kv_char a \<Longrightarrow> valid_kv_key a \<longleftrightarrow> a \<noteq> []"
  by (simp add: valid_kv_key_def tokens_word)

section \<open>Hexadecimal tokens\<close>

lemma hex_digit_code: "0 \<le> d \<Longrightarrow> d < 16 \<Longrightarrow> of_char (hex_digit d) = (if d < 10 then nat d + 48 else nat d + 87)"
  by (simp add: hex_digit_def nat_add_distrib)

lemma hex_digit_kv: "0 \<le> d \<Longrightarrow> d < 16 \<Longrightarrow> kv_char (hex_digit d)"
  by (simp add: kv_char_def less_eq_char_def hex_digit_code) linarith

lemma hex_digit_inj: "0 \<le> d \<Longrightarrow> d < 16 \<Longrightarrow> 0 \<le> d' \<Longrightarrow> d' < 16 \<Longrightarrow> hex_digit d = hex_digit d' \<Longrightarrow> d = d'"
proof -
  assume d: "0 \<le> d" "d < 16" "0 \<le> d'" "d' < 16" "hex_digit d = hex_digit d'"
  then have "(if d < 10 then nat d + 48 else nat d + 87) = (if d' < 10 then nat d' + 48 else nat d' + 87)"
    using hex_digit_code [of d] hex_digit_code [of d'] by metis
  with d(1-4) show ?thesis by (simp split: if_splits)
qed

lemma hex_byte_inj: "b < 256 \<Longrightarrow> b' < 256 \<Longrightarrow> hex_byte b = hex_byte b' \<Longrightarrow> b = b'"
proof -
  assume b: "b < 256" "b' < 256" "hex_byte b = hex_byte b'"
  then have "int (b div 16) = int (b' div 16)" "int (b mod 16) = int (b' mod 16)"
    unfolding hex_byte_def by (intro hex_digit_inj; simp)+
  then have "b div 16 = b' div 16" "b mod 16 = b' mod 16" by linarith+
  then show ?thesis by (metis div_mult_mod_eq)
qed

lemma hex_byte_kv: "b < 256 \<Longrightarrow> list_all kv_char (hex_byte b)"
  by (simp add: hex_byte_def hex_digit_kv)

definition utf8 :: "nat \<Rightarrow> nat list" where
  "utf8 n = (if n < 128 then [n] else [192 + n div 64, 128 + n mod 64])"

lemma str_bytes_simps [simp]: "str_bytes [] = []" "str_bytes (c # s) = utf8 (of_char c) @ str_bytes s"
  by (simp_all add: str_bytes_def utf8_def Let_def)

lemma utf8_range: "n < 256 \<Longrightarrow> b \<in> set (utf8 n) \<Longrightarrow> b < 256"
  by (auto simp: utf8_def split: if_splits)

lemma utf8_inj: "utf8 n @ xs = utf8 n' @ ys \<longleftrightarrow> n = n' \<and> xs = ys"
proof -
  have "n = n'" if "n div 64 = n' div 64" "n mod 64 = n' mod 64"
    using div_mult_mod_eq [of n 64] div_mult_mod_eq [of n' 64] unfolding that by (rule trans [OF sym])
  then show ?thesis by (auto simp: utf8_def)
qed

lemma str_bytes_range: "b \<in> set (str_bytes s) \<Longrightarrow> b < 256"
  by (induction s) (auto dest: utf8_range [OF nat_of_char_less_256])

lemma str_bytes_inj: "str_bytes s = str_bytes s' \<Longrightarrow> s = s'"
proof (induction s arbitrary: s')
  case Nil
  then show ?case by (cases s') (auto simp: utf8_def split: if_splits)
next
  case (Cons c s)
  then obtain d t where s': "s' = d # t" by (cases s') (auto simp: utf8_def split: if_splits)
  then have "of_char c = (of_char d :: nat)" "str_bytes s = str_bytes t"
    using Cons.prems utf8_inj by auto
  then show ?case using s' Cons.IH by simp
qed

lemma concat_hex_inj:
  "\<forall>b \<in> set bs. b < 256 \<Longrightarrow> \<forall>b \<in> set bs'. b < 256 \<Longrightarrow>
    concat (map hex_byte bs) = concat (map hex_byte bs') \<Longrightarrow> bs = bs'"
proof (induction bs arbitrary: bs')
  case Nil
  then show ?case by (cases bs') (auto simp: hex_byte_def)
next
  case (Cons b bs)
  then obtain b' bt where bs': "bs' = b' # bt" by (cases bs') (auto simp: hex_byte_def)
  have len: "length (hex_byte b) = length (hex_byte b')" by (simp add: hex_byte_def)
  have "hex_byte b @ concat (map hex_byte bs) = hex_byte b' @ concat (map hex_byte bt)"
    using Cons.prems(3) unfolding bs' list.map concat.simps .
  then have "hex_byte b = hex_byte b'" and rest: "concat (map hex_byte bs) = concat (map hex_byte bt)"
    unfolding append_eq_append_conv [OF disjI1 [OF len]] by blast+
  then have "b = b'" using Cons.prems(1,2) bs' by (intro hex_byte_inj) simp_all
  moreover have "bs = bt" using Cons.prems(1,2) bs' by (intro Cons.IH rest) simp_all
  ultimately show ?case using bs' by simp
qed

lemma hex_token_inj: "hex_token a = hex_token b \<longleftrightarrow> a = b"
  unfolding hex_token_def using concat_hex_inj str_bytes_inj str_bytes_range by blast

lemma hex_token_kv: "list_all kv_char (hex_token s)"
  using hex_byte_kv str_bytes_range by (auto simp: hex_token_def list_all_iff)

lemma hex_token_Nil: "hex_token s = [] \<longleftrightarrow> s = []"
proof -
  have "hex_token [] = []" by (simp add: hex_token_def str_bytes_def)
  then show ?thesis using hex_token_inj [of s "[]"] by simp
qed

section \<open>Keys of admission entries\<close>

lemma user_slot_key_eq:
  "user_slot_key scope user jid = ''ul'' @ CHR ''.'' # (hex_token scope @ CHR ''.'' # (hex_token user @ CHR ''.'' # hex_token jid))"
  by (simp add: user_slot_key_def)

lemma user_slot_key_valid: "valid_kv_key (user_slot_key scope user jid) \<longleftrightarrow> scope \<noteq> [] \<and> user \<noteq> [] \<and> jid \<noteq> []"
proof -
  have "valid_kv_key ''ul''" by code_simp
  then show ?thesis
    unfolding user_slot_key_eq by (simp add: valid_kv_key_word hex_token_kv hex_token_Nil del: append_Cons append_Nil)
qed

lemma word_dot_eq:
  "list_all kv_char a \<Longrightarrow> list_all kv_char b \<Longrightarrow> a @ CHR ''.'' # xs = b @ CHR ''.'' # ys \<longleftrightarrow> a = b \<and> xs = ys"
proof (induction a arbitrary: b)
  case Nil
  then show ?case by (cases b) auto
next
  case (Cons c a)
  then show ?case by (cases b) auto
qed

lemma user_slot_prefix_key: "user_slot_key scope user jid = user_slot_prefix scope user @ hex_token jid"
  by (simp add: user_slot_key_def user_slot_prefix_def)

text \<open>A key under one user's prefix is a key of that user.\<close>
lemma user_slot_prefix_owner:
  "user_slot_key scope user jid = user_slot_prefix scope' user' @ rest \<longleftrightarrow>
    scope' = scope \<and> user' = user \<and> rest = hex_token jid"
  by (auto simp: user_slot_key_def user_slot_prefix_def word_dot_eq hex_token_kv hex_token_inj)

lemma user_slot_key_inj:
  "user_slot_key scope user jid = user_slot_key scope' user' jid' \<longleftrightarrow> scope = scope' \<and> user = user' \<and> jid = jid'"
  by (auto simp: user_slot_key_def word_dot_eq hex_token_kv hex_token_inj)

section \<open>Keys of jobs\<close>

lemma pack_tag_kv: "pack_tag tag = Inr v \<Longrightarrow> list_all kv_char tag \<and> tag \<noteq> []"
  using pack_tag_domain [of tag] by (auto simp: list_all_iff kv_char_def)

lemma crockford_kv: "c \<in> set CROCKFORD_ALPHABET \<Longrightarrow> kv_char c"
proof -
  have "list_all kv_char CROCKFORD_ALPHABET" by code_simp
  then show "c \<in> set CROCKFORD_ALPHABET \<Longrightarrow> kv_char c" by (simp add: list_all_iff)
qed

lemma digit_char_kv: "0 \<le> d \<Longrightarrow> d < 10 \<Longrightarrow> kv_char (digit_char d)"
  by (simp add: digit_char_def kv_char_def less_eq_char_def nat_add_distrib nat_le_iff)

lemma show_uint_kv: "0 \<le> n \<Longrightarrow> list_all kv_char (show_uint n) \<and> show_uint n \<noteq> []"
proof (induction n rule: show_uint.induct)
  case (1 n)
  show ?case
  proof (cases "n < 10")
    case True
    then show ?thesis using 1 by (simp add: show_uint.simps [of n] digit_char_kv)
  next
    case False
    then show ?thesis using 1 by (subst (1 2) show_uint.simps) (auto simp: digit_char_kv)
  qed
qed

lemma encode_crockford_kv: "list_all kv_char (encode_crockford_base32 bs)"
proof -
  have "set (encode_crockford_base32 bs) \<subseteq> set CROCKFORD_ALPHABET"
    by (force simp: encode_crockford_digits intro!: nth_mem dest: digits_be_range [rotated])
  then show ?thesis using crockford_kv by (auto simp: list_all_iff)
qed

lemma nats_job_key_total: "valid_job_id jid \<longleftrightarrow> (\<exists>k. nats_job_key jid = Inr k)"
  by (auto simp: valid_job_id_def nats_job_key_def isl_def split: sum.splits)

lemma nats_job_key_form:
  assumes "nats_job_key jid = Inr k"
  obtains d where "decode jid = Some (Inr d)"
    "k = ''jobs'' @ CHR ''.'' # (di_site d @ CHR ''.'' # (di_env d @ CHR ''.'' #
      (show_uint (uint (di_broker_slot d)) @ CHR ''.'' # jid)))"
proof -
  obtain d where d: "decode_result jid = Inr d" using assms by (cases "decode_result jid") (auto simp: nats_job_key_def)
  then have "decode jid = Some (Inr d)" by (auto simp: decode_result_def split: option.splits)
  moreover have "k = ''jobs'' @ CHR ''.'' # (di_site d @ CHR ''.'' # (di_env d @ CHR ''.'' #
      (show_uint (uint (di_broker_slot d)) @ CHR ''.'' # jid)))"
    using assms d by (simp add: nats_job_key_def)
  ultimately show thesis by (rule that)
qed

lemma nats_job_key_valid:
  assumes "nats_job_key jid = Inr k"
  shows "valid_kv_key k"
proof -
  obtain d where d: "decode jid = Some (Inr d)"
    and k: "k = ''jobs'' @ CHR ''.'' # (di_site d @ CHR ''.'' # (di_env d @ CHR ''.'' #
      (show_uint (uint (di_broker_slot d)) @ CHR ''.'' # jid)))"
    using assms by (rule nats_job_key_form)
  have tags: "list_all kv_char (di_site d) \<and> di_site d \<noteq> []" "list_all kv_char (di_env d) \<and> di_env d \<noteq> []"
    using d pack_tag_kv by (auto simp: decode_Inr)
  have jid: "list_all kv_char jid" "jid \<noteq> []"
    using d encode_crockford_kv valid_job_id_length [of jid] assms nats_job_key_total by (auto simp: decode_Inr)
  have "valid_kv_key ''jobs''" by code_simp
  with tags jid show_uint_kv [of "uint (di_broker_slot d)"] show ?thesis
    unfolding k by (simp add: valid_kv_key_word del: append_Cons append_Nil)
qed

lemma nats_job_key_suffix: "nats_job_key jid = Inr k \<Longrightarrow> \<exists>p. k = p @ jid"
  by (auto simp: nats_job_key_def split: sum.splits)

lemma nats_job_key_inj:
  assumes "nats_job_key a = Inr k" "nats_job_key b = Inr k"
  shows "a = b"
proof -
  have "length a = length b" using assms nats_job_key_total valid_job_id_length by metis
  moreover obtain p q where "k = p @ a" "k = q @ b"
    using nats_job_key_suffix [OF assms(1)] nats_job_key_suffix [OF assms(2)] by blast
  ultimately show ?thesis by (metis append_eq_append_conv)
qed

text \<open>Jobs and slot counters share a bucket; their keys differ in the first token.\<close>
lemma job_key_not_counter: "nats_job_key jid = Inr k \<Longrightarrow> k \<noteq> nats_broker_slot_counter_key site env"
  by (auto simp: nats_broker_slot_counter_key_def nats_job_key_def split: sum.splits)

end
