(* ===== verification/Nats_Contract.thy ===== *)
theory Nats_Contract
  imports Nats_Keys "HOL-Library.Sublist"
begin

text \<open>
  The NATS store fulfils the persistence contracts when the server is healthy and nobody else uses it
  meanwhile (\<open>nats_calm\<close>): it is a \<open>job_store\<close> and a \<open>user_limit_store\<close>, each call being one step of the
  contract.  With other brokers at work the store is judged by the instants of its calls: claims are
  linearizable and slots are handed out once.  The last part is a small key-value server with a script
  of other brokers' actions, which satisfies every law.
\<close>

section \<open>A healthy server without other users\<close>

definition removed ::
  "('s \<Rightarrow> 'h \<Rightarrow> string \<Rightarrow> 'v kv_Entry option) \<Rightarrow> 'h \<Rightarrow> string \<Rightarrow> 's \<Rightarrow> 's \<Rightarrow> bool" where
  "removed cur h k s s' \<longleftrightarrow>
    \<not> live (cur s' h k) \<and> (\<forall>h' k'. (h', k') \<noteq> (h, k) \<longrightarrow> cur s' h' k' = cur s h' k')"

text \<open>The keys that the pattern \<open>p>\<close> matches.\<close>
definition under :: "string \<Rightarrow> string \<Rightarrow> bool" where
  "under p k \<longleftrightarrow> strict_prefix p k"

definition valid_scan_prefix :: "string \<Rightarrow> bool" where
  "valid_scan_prefix p \<longleftrightarrow> p = [] \<or> (last p = CHR ''.'' \<and> valid_kv_key (butlast p))"

definition unmarked :: "'v kv_Entry \<Rightarrow> 'v kv_Entry" where
  "unmarked e = e\<lparr> ke_seen_current := False \<rparr>"

locale nats_calm = nats_kv_codec cl cur others ok cd
  for cl :: "('c, 'h, 'v, 's) nats_client" and cur others ok and cd :: "'v store_codec" +
  fixes calm :: "'s \<Rightarrow> bool"
    and room :: "'s \<Rightarrow> bool"
  assumes calm_ok: "calm s \<Longrightarrow> ok s"
    and calm_key: "calm s \<Longrightarrow> cur s h k = Some e \<Longrightarrow> ke_key e = k \<and> valid_kv_key k \<and> \<not> ke_seen_current e"
    and calm_entry: "calm s \<Longrightarrow> valid_kv_key k \<Longrightarrow> kv_entry cl h k s = (Inr (cur s h k), s)"
    and calm_entry_invalid: "calm s \<Longrightarrow> \<not> valid_kv_key k \<Longrightarrow> \<exists>e. kv_entry cl h k s = (Inl e, s)"
    and calm_put: "calm s \<Longrightarrow> valid_kv_key k \<Longrightarrow>
      \<exists>rv s'. kv_put cl h k v s = (Inr rv, s') \<and> calm s' \<and> wrote cur h k v rv s s'"
    and calm_update: "calm s \<Longrightarrow> valid_kv_key k \<Longrightarrow> cur s h k = Some e \<Longrightarrow>
      \<exists>rv s'. kv_update cl h k v (ke_revision e) s = (Inr rv, s') \<and> calm s' \<and> wrote cur h k v rv s s'"
    and calm_create: "calm s \<Longrightarrow> valid_kv_key k \<Longrightarrow> \<not> live (cur s h k) \<Longrightarrow>
      \<exists>rv s'. kv_create cl h k v s = (Inr rv, s') \<and> calm s' \<and> wrote cur h k v rv s s'
        \<and> (room s \<longrightarrow> (\<forall>k' e. cur s h k' = Some e \<longrightarrow> ke_revision e < rv))"
    and calm_purge: "calm s \<Longrightarrow> valid_kv_key k \<Longrightarrow>
      \<exists>s'. kv_purge cl h k s = (Inr (), s') \<and> calm s' \<and> removed cur h k s s'"
    and calm_purge_with_ttl: "calm s \<Longrightarrow> valid_kv_key k \<Longrightarrow>
      (\<exists>e. kv_purge_with_ttl cl h k ttl s = (Inl e, s))
      \<or> (\<exists>s'. kv_purge_with_ttl cl h k ttl s = (Inr (), s') \<and> calm s' \<and> removed cur h k s s')"
    and calm_purge_invalid: "calm s \<Longrightarrow> \<not> valid_kv_key k \<Longrightarrow>
      (\<exists>e. kv_purge_with_ttl cl h k ttl s = (Inl e, s)) \<and> (\<exists>e. kv_purge cl h k s = (Inl e, s))"
    and calm_delete: "calm s \<Longrightarrow> valid_kv_key k \<Longrightarrow>
      \<exists>s'. kv_delete cl h k s = (Inr (), s') \<and> calm s' \<and> removed cur h k s s'"
    and calm_info: "calm s \<Longrightarrow> \<exists>r. kv_info_with_subjects cl h (kv_prefix cl h @ p @ ''>'') s = (r, s)
      \<and> (case r of Inl _ \<Rightarrow> \<not> valid_scan_prefix p | Inr xs \<Rightarrow> xs = [] \<longleftrightarrow> (\<forall>k. under p k \<longrightarrow> cur s h k = None))"
    and calm_watch: "calm s \<Longrightarrow> \<exists>r. kv_watch_with_history cl h (p @ ''>'') s = (r, s)
      \<and> (case r of Inl _ \<Rightarrow> \<not> valid_scan_prefix p
         | Inr (items, ends) \<Rightarrow> (\<exists>k. under p k \<and> cur s h k \<noteq> None) \<longrightarrow>
             (\<exists>es tail. items = map Inr es @ tail \<and> es \<noteq> [] \<and> ke_seen_current (last es)
               \<and> (\<forall>e \<in> set (butlast es). \<not> ke_seen_current e) \<and> distinct (map ke_key es)
               \<and> unmarked ` set es = {e. \<exists>k. under p k \<and> cur s h k = Some e}))"

section \<open>Scans\<close>

lemma drain_watch_marked:
  assumes "es \<noteq> []" "ke_seen_current (last es)" "\<forall>e \<in> set (butlast es). \<not> ke_seen_current e"
  shows "drain_watch (map Inr es @ tail) ends = Some (Inr es)"
  using assms
proof (induction es)
  case (Cons e es)
  then show ?case by (cases es) auto
qed simp

text \<open>Without a marked entry the scan depends on the end of a stream that never ends: the reason for the
  probe before the watch.\<close>
lemma drain_watch_hangs:
  "(\<forall>x \<in> set items. \<exists>e. x = Inr e \<and> \<not> ke_seen_current e) \<Longrightarrow> drain_watch items False = None"
  by (induction items) auto

context nats_calm
begin

lemma scan_calm:
  assumes "calm s"
  shows "\<exists>r. scan_current_entries cl h (p @ ''>'') s = Some (r, s)
    \<and> (case r of Inl _ \<Rightarrow> \<not> valid_scan_prefix p
       | Inr es \<Rightarrow> distinct (map ke_key es) \<and> unmarked ` set es = {e. \<exists>k. under p k \<and> cur s h k = Some e})"
proof -
  obtain r where r: "kv_info_with_subjects cl h (kv_prefix cl h @ p @ ''>'') s = (r, s)"
    "case r of Inl _ \<Rightarrow> \<not> valid_scan_prefix p | Inr xs \<Rightarrow> xs = [] \<longleftrightarrow> (\<forall>k. under p k \<longrightarrow> cur s h k = None)"
    using calm_info [OF assms] by blast
  obtain w where w: "kv_watch_with_history cl h (p @ ''>'') s = (w, s)"
    "case w of Inl _ \<Rightarrow> \<not> valid_scan_prefix p
         | Inr (items, ends) \<Rightarrow> (\<exists>k. under p k \<and> cur s h k \<noteq> None) \<longrightarrow>
             (\<exists>es tail. items = map Inr es @ tail \<and> es \<noteq> [] \<and> ke_seen_current (last es)
               \<and> (\<forall>e \<in> set (butlast es). \<not> ke_seen_current e) \<and> distinct (map ke_key es)
               \<and> unmarked ` set es = {e. \<exists>k. under p k \<and> cur s h k = Some e})"
    using calm_watch [OF assms, of h p] by blast
  consider (err) e where "r = Inl e" | (empty) "r = Inr []" | (some) x xs where "r = Inr (x # xs)"
    by (cases r) (auto, metis list.exhaust)
  then show ?thesis
  proof cases
    case err
    then show ?thesis using r by (simp add: scan_current_entries_def)
  next
    case empty
    then have "{e. \<exists>k. under p k \<and> cur s h k = Some e} = {}" using r(2) by auto
    with empty show ?thesis using r(1) by (simp add: scan_current_entries_def)
  next
    case some
    then have ex: "\<exists>k. under p k \<and> cur s h k \<noteq> None" using r(2) by auto
    show ?thesis
    proof (cases w)
      case (Inl e)
      then show ?thesis using r some w by (simp add: scan_current_entries_def)
    next
      case (Inr ie)
      obtain items ends where ie: "ie = (items, ends)" by (rule prod.exhaust)
      from w(2) ex Inr ie obtain es tail where es: "items = map Inr es @ tail" "es \<noteq> []" "ke_seen_current (last es)"
          "\<forall>e \<in> set (butlast es). \<not> ke_seen_current e" "distinct (map ke_key es)"
          "unmarked ` set es = {e. \<exists>k. under p k \<and> cur s h k = Some e}"
        by auto
      have "scan_current_entries cl h (p @ ''>'') s = Some (Inr es, s)"
        unfolding scan_current_entries_def r(1) some
        by (simp add: w(1) Inr ie es(1) drain_watch_marked [OF es(2-4)])
      with es(5,6) show ?thesis by simp
    qed
  qed
qed

lemma purge_expiring_calm:
  assumes "calm s" "valid_kv_key k"
  shows "\<exists>s'. purge_expiring cl h k ttl s = (Inr (), s') \<and> calm s' \<and> removed cur h k s s'"
  using calm_purge_with_ttl [OF assms, of h ttl]
proof
  assume "\<exists>e. kv_purge_with_ttl cl h k ttl s = (Inl e, s)"
  moreover obtain s' where "kv_purge cl h k s = (Inr (), s')" "calm s'" "removed cur h k s s'"
    using calm_purge [OF assms] by blast
  ultimately have "purge_expiring cl h k ttl s = (Inr (), s')" by (auto simp: purge_expiring_def backend_def)
  with \<open>calm s'\<close> \<open>removed cur h k s s'\<close> show ?thesis by blast
next
  assume "\<exists>s'. kv_purge_with_ttl cl h k ttl s = (Inr (), s') \<and> calm s' \<and> removed cur h k s s'"
  then obtain s' where s': "kv_purge_with_ttl cl h k ttl s = (Inr (), s')" "calm s'" "removed cur h k s s'" by blast
  then have "purge_expiring cl h k ttl s = (Inr (), s')" by (simp add: purge_expiring_def)
  with s' show ?thesis by blast
qed

lemma purge_expiring_invalid:
  assumes "calm s" "\<not> valid_kv_key k"
  shows "\<exists>e. purge_expiring cl h k ttl s = (Inl e, s)"
proof -
  obtain e e' where "kv_purge_with_ttl cl h k ttl s = (Inl e, s)" "kv_purge cl h k s = (Inl e', s)"
    using calm_purge_invalid [OF assms] by blast
  then show ?thesis by (simp add: purge_expiring_def backend_def)
qed

end

section \<open>The job store contract\<close>

definition nats_lookup ::
  "('s \<Rightarrow> 'h \<Rightarrow> string \<Rightarrow> 'v kv_Entry option) \<Rightarrow> 'v store_codec \<Rightarrow> 'h NatsStore \<times> 's \<Rightarrow> string \<rightharpoonup> PersistentJobRecord" where
  "nats_lookup cur cd st jid =
    (case (ns_stores (fst st), nats_job_key jid) of
       (Some (jobs, leases, user_limits), Inr key) \<Rightarrow> nats_record cd (cur (snd st) jobs key)
     | _ \<Rightarrow> None)"

text \<open>The store is connected and every job record can be read.\<close>
definition nats_jobs_ok ::
  "('s \<Rightarrow> 'h \<Rightarrow> string \<Rightarrow> 'v kv_Entry option) \<Rightarrow> 'v store_codec \<Rightarrow> ('s \<Rightarrow> bool) \<Rightarrow> 'h NatsStore \<times> 's \<Rightarrow> bool" where
  "nats_jobs_ok cur cd calm st \<longleftrightarrow> calm (snd st) \<and>
    (\<exists>jobs leases user_limits. ns_stores (fst st) = Some (jobs, leases, user_limits)
      \<and> (\<forall>jid key. nats_job_key jid = Inr key \<longrightarrow> readable (cd_de_job cd) (cur (snd st) jobs key)))"

lemma connected_handles:
  assumes "ns_stores ns = Some (jobs, leases, user_limits)"
  shows "nats_jobs cl (ns, s) = (Inr jobs, ns, s)" "nats_leases cl (ns, s) = (Inr leases, ns, s)"
    "nats_user_limits cl (ns, s) = (Inr user_limits, ns, s)"
  using assms by (simp_all add: nats_jobs_def nats_leases_def nats_user_limits_def nats_stores_def db_then_def db_return_def)

lemma on_server_run: "m s = (r, s') \<Longrightarrow> on_server m (ns, s) = (r, ns, s')"
  by (simp add: on_server_def)

lemma nats_claim_run:
  assumes "ns_stores ns = Some (jobs, leases, user_limits)" "nats_job_key jid = Inr key"
    "nats_claim_loop cl cd jobs key expected claimant 3 s = (r, s')"
  shows "nats_claim_if_owner cl cd jid expected claimant (ns, s) = (r, ns, s')"
  using assms by (simp add: nats_claim_if_owner_def db_try_def db_then_def connected_handles on_server_run MAX_CAS_ATTEMPTS_def)

lemma nats_upsert_run:
  assumes "ns_stores ns = Some (jobs, leases, user_limits)" "nats_job_key (pjr_job_id r) = Inr key"
    "cd_ser_job cd r = Inr v" "kv_put cl jobs key v s = (Inr rv, s')"
  shows "nats_upsert_job cl cd r (ns, s) = (Inr (), ns, s')"
  using assms by (simp add: nats_upsert_job_def db_try_def db_then_def connected_handles on_server_run
      serialize_def backend_def db_return_def on_server_def)

lemma nats_delete_run:
  assumes "ns_stores ns = Some (jobs, leases, user_limits)" "nats_job_key jid = Inr key"
    "purge_expiring cl jobs key (ns_job_tombstone_ttl ns) s = (r, s')"
  shows "nats_delete_job cl jid (ns, s) = (r, ns, s')"
  using assms by (simp add: nats_delete_job_def db_try_def db_then_def connected_handles on_server_run)

text \<open>A view that changes in one job's key only.\<close>
lemma nats_jobs_change:
  assumes "nats_jobs_ok cur cd calm (ns, s)" "ns_stores ns = Some (jobs, leases, user_limits)" "nats_job_key jid = Inr key"
    "calm s'" "readable (cd_de_job cd) (cur s' jobs key)" "nats_record cd (cur s' jobs key) = r"
    "\<forall>k. k \<noteq> key \<longrightarrow> cur s' jobs k = cur s jobs k"
  shows "nats_jobs_ok cur cd calm (ns, s') \<and> nats_lookup cur cd (ns, s') = (nats_lookup cur cd (ns, s))(jid := r)"
proof
  have "readable (cd_de_job cd) (cur s' jobs k)" if "nats_job_key j = Inr k" for j k
    using assms that by (cases "k = key") (auto simp: nats_jobs_ok_def)
  with assms(2,4) show "nats_jobs_ok cur cd calm (ns, s')" by (auto simp: nats_jobs_ok_def)
  have "nats_lookup cur cd (ns, s') j = ((nats_lookup cur cd (ns, s))(jid := r)) j" for j
  proof (cases "j = jid")
    case False
    then have "k \<noteq> key" if "nats_job_key j = Inr k" for k using that assms(3) nats_job_key_inj by blast
    with False assms(2,7) show ?thesis by (auto simp: nats_lookup_def split: sum.splits)
  qed (use assms(2,3,6) in \<open>simp add: nats_lookup_def\<close>)
  then show "nats_lookup cur cd (ns, s') = (nats_lookup cur cd (ns, s))(jid := r)" by blast
qed

context nats_calm
begin

lemma calm_claim:
  assumes inv: "nats_jobs_ok cur cd calm (ns, s)" and st: "ns_stores ns = Some (jobs, leases, user_limits)"
    and key: "nats_job_key jid = Inr key"
  defines "rec \<equiv> nats_record cd (cur s jobs key)"
  shows "\<exists>s'. nats_claim_if_owner cl cd jid expected claimant (ns, s) = (Inr (fst (atomic_claim expected claimant rec)), ns, s')
    \<and> nats_jobs_ok cur cd calm (ns, s')
    \<and> nats_lookup cur cd (ns, s') = (nats_lookup cur cd (ns, s))(jid := snd (atomic_claim expected claimant rec))
    \<and> (snd (atomic_claim expected claimant rec) = rec \<longrightarrow> s' = s)"
proof -
  have calm: "calm s" and rd: "readable (cd_de_job cd) (cur s jobs key)" using inv st key by (auto simp: nats_jobs_ok_def)
  have read: "kv_entry cl jobs key s = (Inr (cur s jobs key), s)" using calm_entry [OF calm nats_job_key_valid [OF key]] .
  show ?thesis
  proof (cases "\<exists>r. rec = Some r \<and> pjr_broker_id r = expected \<and> expected \<noteq> claimant")
    case False
    then have same: "snd (atomic_claim expected claimant rec) = rec" by (intro atomic_claim_same) auto
    then have "nats_claim_loop cl cd jobs key expected claimant 3 s = (Inr (fst (atomic_claim expected claimant rec)), s)"
      using claim_loop_settled [OF read rd, of expected claimant 3] unfolding rec_def by simp
    from nats_claim_run [OF st key this] same inv
    have "nats_lookup cur cd (ns, s) = (nats_lookup cur cd (ns, s))(jid := snd (atomic_claim expected claimant rec))"
      using st key by (auto simp: nats_lookup_def rec_def)
    with nats_claim_run [OF st key \<open>nats_claim_loop cl cd jobs key expected claimant 3 s = _\<close>] inv show ?thesis by blast
  next
    case True
    then obtain e r where e: "cur s jobs key = Some e" "ke_operation e = Op_Put" "cd_de_job cd (ke_value e) = Inr r"
        "pjr_broker_id r = expected" "expected \<noteq> claimant" and r: "rec = Some r"
      by (auto simp: nats_record_Some rec_def)
    obtain v where v: "cd_ser_job cd (r\<lparr> pjr_broker_id := claimant \<rparr>) = Inr v" using job_rt by blast
    obtain rv s' where u: "kv_update cl jobs key v (ke_revision e) s = (Inr rv, s')" "calm s'" "wrote cur jobs key v rv s s'"
      using calm_update [OF calm nats_job_key_valid [OF key] e(1)] by blast
    have at: "atomic_claim expected claimant rec
        = (CR_Claimed (r\<lparr> pjr_broker_id := claimant \<rparr>), Some (r\<lparr> pjr_broker_id := claimant \<rparr>))"
      using e(4,5) r by (auto simp: atomic_claim_def)
    have ne: "Some (r\<lparr> pjr_broker_id := claimant \<rparr>) \<noteq> rec" using e(4,5) r by (cases r) auto
    have "nats_claim_loop cl cd jobs key expected claimant (Suc 2) s = (Inr (CR_Claimed (r\<lparr> pjr_broker_id := claimant \<rparr>)), s')"
      using claim_loop_contends [OF read [unfolded e(1)] e(2-5) v, of 2] u(1) by simp
    then have run: "nats_claim_loop cl cd jobs key expected claimant 3 s = (Inr (CR_Claimed (r\<lparr> pjr_broker_id := claimant \<rparr>)), s')"
      by (simp only: eval_nat_numeral)
    obtain e' where e': "ke_value e' = v" "ke_operation e' = Op_Put" "cur s' = (cur s)(jobs := (cur s jobs)(key \<mapsto> e'))"
      using u(3) by (auto simp: wrote_def)
    have "nats_jobs_ok cur cd calm (ns, s') \<and> nats_lookup cur cd (ns, s')
        = (nats_lookup cur cd (ns, s))(jid := Some (r\<lparr> pjr_broker_id := claimant \<rparr>))"
      by (rule nats_jobs_change [OF inv st key u(2)]) (use e' ser_job_de [OF v] in \<open>auto simp: readable_def\<close>)
    with nats_claim_run [OF st key run] at ne show ?thesis by simp
  qed
qed

lemma calm_upsert:
  assumes inv: "nats_jobs_ok cur cd calm st" and v: "valid_job_id (pjr_job_id r)"
  shows "fst (nats_upsert_job cl cd r st) = Inr () \<and> nats_jobs_ok cur cd calm (snd (nats_upsert_job cl cd r st))
    \<and> nats_lookup cur cd (snd (nats_upsert_job cl cd r st)) = (nats_lookup cur cd st)(pjr_job_id r \<mapsto> r)"
proof -
  obtain ns s where p: "st = (ns, s)" by (rule prod.exhaust)
  obtain key where key: "nats_job_key (pjr_job_id r) = Inr key" using v nats_job_key_total by blast
  obtain jobs leases ul where st: "ns_stores ns = Some (jobs, leases, ul)" and calm: "calm s"
    using inv p by (auto simp: nats_jobs_ok_def)
  obtain v where v: "cd_ser_job cd r = Inr v" using job_rt by blast
  obtain rv s' where u: "kv_put cl jobs key v s = (Inr rv, s')" "calm s'" "wrote cur jobs key v rv s s'"
    using calm_put [OF calm nats_job_key_valid [OF key]] by blast
  obtain e' where e': "ke_value e' = v" "ke_operation e' = Op_Put" "cur s' = (cur s)(jobs := (cur s jobs)(key \<mapsto> e'))"
    using u(3) by (auto simp: wrote_def)
  have "nats_jobs_ok cur cd calm (ns, s') \<and> nats_lookup cur cd (ns, s') = (nats_lookup cur cd (ns, s))(pjr_job_id r := Some r)"
    by (rule nats_jobs_change [OF inv [unfolded p] st key u(2)]) (use e' ser_job_de [OF v] in \<open>auto simp: readable_def\<close>)
  with nats_upsert_run [OF st key v u(1)] p show ?thesis by simp
qed

lemma calm_delete_job:
  assumes inv: "nats_jobs_ok cur cd calm st" and v: "valid_job_id jid"
  shows "fst (nats_delete_job cl jid st) = Inr () \<and> nats_jobs_ok cur cd calm (snd (nats_delete_job cl jid st))
    \<and> nats_lookup cur cd (snd (nats_delete_job cl jid st)) = (nats_lookup cur cd st)(jid := None)"
proof -
  obtain ns s where p: "st = (ns, s)" by (rule prod.exhaust)
  obtain key where key: "nats_job_key jid = Inr key" using v nats_job_key_total by blast
  obtain jobs leases ul where st: "ns_stores ns = Some (jobs, leases, ul)" and calm: "calm s"
    using inv p by (auto simp: nats_jobs_ok_def)
  obtain s' where u: "purge_expiring cl jobs key (ns_job_tombstone_ttl ns) s = (Inr (), s')" "calm s'" "removed cur jobs key s s'"
    using purge_expiring_calm [OF calm nats_job_key_valid [OF key]] by blast
  have "nats_jobs_ok cur cd calm (ns, s') \<and> nats_lookup cur cd (ns, s') = (nats_lookup cur cd (ns, s))(jid := None)"
    by (rule nats_jobs_change [OF inv [unfolded p] st key u(2)])
      (use u(3) in \<open>auto simp: removed_def live_def readable_def nats_record_def split: option.splits\<close>)
  with nats_delete_run [OF st key u(1)] p show ?thesis by simp
qed

lemma calm_claims_atomically:
  "claims_atomically (nats_claim_if_owner cl cd) (nats_lookup cur cd) (nats_jobs_ok cur cd calm) valid_job_id"
  unfolding claims_atomically_def
proof (intro allI impI, goal_cases)
  case (1 st jid expected claimant)
  obtain ns s where p: "st = (ns, s)" by (rule prod.exhaust)
  obtain key where key: "nats_job_key jid = Inr key" using 1(2) nats_job_key_total by blast
  obtain jobs leases ul where st: "ns_stores ns = Some (jobs, leases, ul)" using 1(1) p by (auto simp: nats_jobs_ok_def)
  have rec: "nats_lookup cur cd (ns, s) jid = nats_record cd (cur s jobs key)" using st key by (simp add: nats_lookup_def)
  show ?case using calm_claim [OF 1(1) [unfolded p] st key, of expected claimant] unfolding p rec by blast
qed

end

sublocale nats_calm \<subseteq> nats_jobs: job_store "nats_upsert_job cl cd" "nats_delete_job cl" "nats_claim_if_owner cl cd"
  "nats_lookup cur cd" valid_job_id "nats_jobs_ok cur cd calm"
  by (rule job_store_atomic) (fact calm_upsert calm_delete_job calm_claims_atomically)+

section \<open>The user-slot contract\<close>

definition nats_slots ::
  "('s \<Rightarrow> 'h \<Rightarrow> string \<Rightarrow> 'v kv_Entry option) \<Rightarrow> 'h NatsStore \<times> 's \<Rightarrow> string \<Rightarrow> string \<Rightarrow> string \<rightharpoonup> u64" where
  "nats_slots cur st scope user jid =
    (case ns_stores (fst st) of
       None \<Rightarrow> None
     | Some (jobs, leases, ul) \<Rightarrow>
         (case cur (snd st) ul (user_slot_key scope user jid) of
            Some e \<Rightarrow> if ke_operation e = Op_Put then Some (ke_revision e) else None
          | None \<Rightarrow> None))"

text \<open>The values of a bucket are admission entries stored under their keys.\<close>
definition holds_entries :: "'v store_codec \<Rightarrow> (string \<Rightarrow> 'v kv_Entry option) \<Rightarrow> bool" where
  "holds_entries cd view \<longleftrightarrow> (\<forall>k e. view k = Some e \<longrightarrow> ke_operation e = Op_Put \<longrightarrow>
    (\<exists>ent. cd_de_user cd (ke_value e) = Inr ent
      \<and> k = user_slot_key (ule_scope ent) (ule_user ent) (ule_job_id ent)))"

definition nats_users_ok ::
  "('s \<Rightarrow> 'h \<Rightarrow> string \<Rightarrow> 'v kv_Entry option) \<Rightarrow> 'v store_codec \<Rightarrow> ('s \<Rightarrow> bool) \<Rightarrow> 'h NatsStore \<times> 's \<Rightarrow> bool" where
  "nats_users_ok cur cd calm st \<longleftrightarrow> calm (snd st) \<and>
    (\<exists>jobs leases ul. ns_stores (fst st) = Some (jobs, leases, ul)
      \<and> holds_entries cd (cur (snd st) ul))"

text \<open>The answer of a list call that returns.\<close>
definition nats_listed ::
  "('c, 'h, 'v, 's) nats_client \<Rightarrow> 'v store_codec \<Rightarrow> string \<Rightarrow> string \<Rightarrow> 'h NatsStore \<times> 's \<Rightarrow> UserLimitEntry list db" where
  "nats_listed cl cd scope user st = fst (the (list_user_slots_nats cl cd scope user st))"

definition slot_value :: "'v kv_Entry option \<Rightarrow> u64 option" where
  "slot_value m = (case m of Some e \<Rightarrow> if ke_operation e = Op_Put then Some (ke_revision e) else None | None \<Rightarrow> None)"

lemma slot_value_None: "slot_value m = None \<longleftrightarrow> \<not> live m"
  by (auto simp: slot_value_def live_def split: option.splits)

lemma slot_value_Some: "slot_value m = Some q \<longleftrightarrow> (\<exists>e. m = Some e \<and> ke_operation e = Op_Put \<and> ke_revision e = q)"
  by (auto simp: slot_value_def split: option.splits)

lemma nats_slots_connected:
  "ns_stores ns = Some (jobs, leases, ul) \<Longrightarrow>
    nats_slots cur (ns, s) scope user jid = slot_value (cur s ul (user_slot_key scope user jid))"
  by (simp add: nats_slots_def slot_value_def)

lemma nats_slots_change:
  assumes "ns_stores ns = Some (jobs, leases, ul)" "\<forall>k. k \<noteq> user_slot_key scope user jid \<longrightarrow> cur s' ul k = cur s ul k"
    "slot_value (cur s' ul (user_slot_key scope user jid)) = q"
  shows "nats_slots cur (ns, s') = (nats_slots cur (ns, s))(scope := (nats_slots cur (ns, s) scope)(user :=
    (nats_slots cur (ns, s) scope user)(jid := q)))"
proof (intro ext)
  fix sc us j
  show "nats_slots cur (ns, s') sc us j = ((nats_slots cur (ns, s))(scope := (nats_slots cur (ns, s) scope)(user :=
    (nats_slots cur (ns, s) scope user)(jid := q)))) sc us j"
    using assms user_slot_key_inj [of sc us j scope user jid]
    by (cases "sc = scope \<and> us = user \<and> j = jid") (auto simp: nats_slots_connected)
qed

lemma nats_reserve_found:
  assumes "ns_stores ns = Some (jobs, leases, ul)" "kv_entry cl ul (user_slot_key scope user jid) s = (Inr (Some e), s)"
    "ke_operation e = Op_Put"
  shows "reserve_user_slot_nats cl cd now scope user jid owner (ns, s) = (Inr (ke_revision e), ns, s)"
  using assms by (simp add: reserve_user_slot_nats_def db_then_def connected_handles on_server_def backend_def db_return_def Let_def)

lemma nats_reserve_create:
  assumes "ns_stores ns = Some (jobs, leases, ul)" "kv_entry cl ul (user_slot_key scope user jid) s = (Inr m, s)"
    "\<not> live m" "cd_ser_user cd \<lparr> ule_scope = scope, ule_user = user, ule_job_id = jid,
          ule_owner_broker_id = owner, ule_seq = 0, ule_created_at = now \<rparr> = Inr v"
    "kv_create cl ul (user_slot_key scope user jid) v s = (Inr rv, s')"
  shows "reserve_user_slot_nats cl cd now scope user jid owner (ns, s) = (Inr rv, ns, s')"
  using assms by (cases m) (auto simp: reserve_user_slot_nats_def db_then_def connected_handles on_server_def backend_def
      db_return_def db_try_def serialize_def live_def Let_def)

lemma nats_reserve_invalid:
  assumes "ns_stores ns = Some (jobs, leases, ul)" "kv_entry cl ul (user_slot_key scope user jid) s = (Inl e, s)"
  shows "isl (fst (reserve_user_slot_nats cl cd now scope user jid owner (ns, s)))"
  using assms by (simp add: reserve_user_slot_nats_def db_then_def connected_handles on_server_def backend_def Let_def)

lemma nats_release_run:
  assumes "ns_stores ns = Some (jobs, leases, ul)"
    "purge_expiring cl ul (user_slot_key scope user jid) (user_limit_tombstone_ttl ns) s = (r, s')"
  shows "release_user_slot_nats cl scope user jid (ns, s) = (r, ns, s')"
  using assms by (simp add: release_user_slot_nats_def db_then_def connected_handles on_server_run)

lemma nats_list_run:
  assumes "ns_stores ns = Some (jobs, leases, ul)"
    "scan_current_entries cl ul (user_slot_prefix scope user @ ''>'') s = Some (r, s)"
  shows "list_user_slots_nats cl cd scope user (ns, s) = Some (bind_result r (collect_slots cd), ns, s)"
  using assms by (simp add: list_user_slots_nats_def connected_handles)

text \<open>Collecting readable entries keeps the live ones in order, each with its revision as ordinal.\<close>
lemma collect_slots_readable:
  "\<forall>e \<in> set es. ke_operation e = Op_Put \<longrightarrow> (\<exists>ent. cd_de_user cd (ke_value e) = Inr ent) \<Longrightarrow>
    collect_slots cd es = Inr (map (\<lambda>e. (projr (cd_de_user cd (ke_value e)))\<lparr> ule_seq := ke_revision e \<rparr>)
      (filter (\<lambda>e. ke_operation e = Op_Put) es))"
  by (induction es) (auto simp: deserialize_def)

context nats_calm
begin

lemma users_connected:
  assumes "nats_users_ok cur cd calm st"
  obtains ns s jobs leases ul where "st = (ns, s)" "calm s" "ns_stores ns = Some (jobs, leases, ul)"
    "holds_entries cd (cur s ul)"
  using assms by (cases st) (auto simp: nats_users_ok_def)

lemma users_reserve_existing:
  assumes "nats_users_ok cur cd calm st" "nats_slots cur st scope user jid = Some q"
  shows "reserve_user_slot_nats cl cd now scope user jid owner st = (Inr q, st)"
proof -
  obtain ns s jobs leases ul where st: "st = (ns, s)" "calm s" "ns_stores ns = Some (jobs, leases, ul)"
    using assms(1) by (rule users_connected) blast
  then obtain e where e: "cur s ul (user_slot_key scope user jid) = Some e" "ke_operation e = Op_Put" "ke_revision e = q"
    using assms(2) by (auto simp: nats_slots_connected slot_value_Some)
  have "kv_entry cl ul (user_slot_key scope user jid) s = (Inr (Some e), s)"
    using calm_entry [OF st(2), of _ ul] calm_key [OF st(2) e(1)] e(1) by metis
  from nats_reserve_found [OF st(3) this e(2)] show ?thesis using st(1) e(3) by simp
qed

lemma users_reserve_new:
  assumes ok: "nats_users_ok cur cd calm st" and none: "nats_slots cur st scope user jid = None"
    and valid: "valid_kv_key (user_slot_key scope user jid)"
  shows "\<exists>q st'. reserve_user_slot_nats cl cd now scope user jid owner st = (Inr q, st') \<and> nats_users_ok cur cd calm st'
    \<and> nats_slots cur st' = (nats_slots cur st)(scope := (nats_slots cur st scope)(user := (nats_slots cur st scope user)(jid \<mapsto> q)))
    \<and> (room (snd st) \<longrightarrow> (\<forall>j q'. nats_slots cur st scope user j = Some q' \<longrightarrow> q' < q))"
proof -
  obtain ns s jobs leases ul where st: "st = (ns, s)" "calm s" "ns_stores ns = Some (jobs, leases, ul)"
    and ents: "holds_entries cd (cur s ul)"
    using ok by (rule users_connected)
  define key where "key = user_slot_key scope user jid"
  define ent where "ent = \<lparr> ule_scope = scope, ule_user = user, ule_job_id = jid,
          ule_owner_broker_id = owner, ule_seq = 0, ule_created_at = now \<rparr>"
  have dead: "\<not> live (cur s ul key)" using none st by (simp add: nats_slots_connected slot_value_None key_def)
  obtain v where v: "cd_ser_user cd ent = Inr v" using user_rt by blast
  obtain rv s' where c: "kv_create cl ul key v s = (Inr rv, s')" "calm s'" "wrote cur ul key v rv s s'"
      "room s \<longrightarrow> (\<forall>k' e. cur s ul k' = Some e \<longrightarrow> ke_revision e < rv)"
    using calm_create [OF st(2) valid [folded key_def] dead] by blast
  have run: "reserve_user_slot_nats cl cd now scope user jid owner (ns, s) = (Inr rv, ns, s')"
    by (rule nats_reserve_create [OF st(3) calm_entry [OF st(2) valid, of ul] dead [unfolded key_def]
        v [unfolded ent_def] c(1) [unfolded key_def]])
  obtain e' where e': "ke_value e' = v" "ke_operation e' = Op_Put" "ke_revision e' = rv"
      "cur s' = (cur s)(ul := (cur s ul)(key \<mapsto> e'))"
    using c(3) by (auto simp: wrote_def)
  have "nats_users_ok cur cd calm (ns, s')"
    using c(2) st(3) ents e' ser_user_de [OF v] by (auto simp: nats_users_ok_def holds_entries_def ent_def key_def)
  moreover have "nats_slots cur (ns, s') = (nats_slots cur (ns, s))(scope := (nats_slots cur (ns, s) scope)(user :=
      (nats_slots cur (ns, s) scope user)(jid := Some rv)))"
    by (rule nats_slots_change [OF st(3)]) (use e' in \<open>auto simp: key_def slot_value_def\<close>)
  moreover have "q' < rv" if "room s" "nats_slots cur (ns, s) scope user j = Some q'" for j q'
    using that c(4) st(3) by (auto simp: nats_slots_connected slot_value_Some)
  ultimately show ?thesis using run st(1) by auto
qed

lemma users_reserve_valid:
  assumes "nats_users_ok cur cd calm st" "reserve_user_slot_nats cl cd now scope user jid owner st = (Inr q, st')"
  shows "valid_kv_key (user_slot_key scope user jid)"
proof (rule ccontr)
  assume bad: "\<not> ?thesis"
  obtain ns s jobs leases ul where st: "st = (ns, s)" "calm s" "ns_stores ns = Some (jobs, leases, ul)"
    using assms(1) by (rule users_connected) blast
  obtain e where "kv_entry cl ul (user_slot_key scope user jid) s = (Inl e, s)"
    using calm_entry_invalid [OF st(2) bad] by blast
  from nats_reserve_invalid [OF st(3) this, of cd now owner] assms(2) st(1) show False by simp
qed

lemma users_release:
  assumes "nats_users_ok cur cd calm st" "release_user_slot_nats cl scope user jid st = (Inr (), st')"
  shows "nats_users_ok cur cd calm st' \<and> nats_slots cur st' = (nats_slots cur st)(scope := (nats_slots cur st scope)(user :=
      (nats_slots cur st scope user)(jid := None)))"
proof -
  obtain ns s jobs leases ul where st: "st = (ns, s)" "calm s" "ns_stores ns = Some (jobs, leases, ul)"
    and ents: "holds_entries cd (cur s ul)"
    using assms(1) by (rule users_connected)
  define key where "key = user_slot_key scope user jid"
  have "valid_kv_key key"
  proof (rule ccontr)
    assume "\<not> valid_kv_key key"
    then obtain e where "purge_expiring cl ul key (user_limit_tombstone_ttl ns) s = (Inl e, s)"
      using purge_expiring_invalid [OF st(2)] by blast
    from nats_release_run [OF st(3) this [unfolded key_def]] assms(2) st(1) show False by simp
  qed
  then obtain s' where p: "purge_expiring cl ul key (user_limit_tombstone_ttl ns) s = (Inr (), s')" "calm s'" "removed cur ul key s s'"
    using purge_expiring_calm [OF st(2)] by blast
  have st': "st' = (ns, s')" using nats_release_run [OF st(3) p(1) [unfolded key_def]] assms(2) st(1) by simp
  have "nats_users_ok cur cd calm (ns, s')"
  proof -
    have "holds_entries cd (cur s' ul)"
      unfolding holds_entries_def
    proof (intro allI impI)
      fix k e assume e: "cur s' ul k = Some e" "ke_operation e = Op_Put"
      then have "k \<noteq> key" using p(3) by (auto simp: removed_def live_def)
      then have "cur s ul k = Some e" using p(3) e(1) by (simp add: removed_def)
      then show "\<exists>ent. cd_de_user cd (ke_value e) = Inr ent \<and> k = user_slot_key (ule_scope ent) (ule_user ent) (ule_job_id ent)"
        using ents e(2) by (simp add: holds_entries_def)
    qed
    then show ?thesis using p(2) st(3) by (simp add: nats_users_ok_def)
  qed
  moreover have "nats_slots cur (ns, s') = (nats_slots cur (ns, s))(scope := (nats_slots cur (ns, s) scope)(user :=
      (nats_slots cur (ns, s) scope user)(jid := None)))"
    by (rule nats_slots_change [OF st(3)]) (use p(3) in \<open>auto simp: removed_def key_def slot_value_None\<close>)
  ultimately show ?thesis using st(1) st' by simp
qed

end

section \<open>Listing a user's slots\<close>

lemma unmarked_simps [simp]:
  "ke_key (unmarked e) = ke_key e" "ke_value (unmarked e) = ke_value e" "ke_revision (unmarked e) = ke_revision e"
  "ke_operation (unmarked e) = ke_operation e"
  by (simp_all add: unmarked_def)

lemma under_user_prefix:
  "under (user_slot_prefix scope user) (user_slot_key scope' user' jid) \<longleftrightarrow> scope' = scope \<and> user' = user \<and> jid \<noteq> []"
proof -
  have "under (user_slot_prefix scope user) (user_slot_key scope' user' jid) \<longleftrightarrow>
      (\<exists>rest. rest \<noteq> [] \<and> user_slot_key scope' user' jid = user_slot_prefix scope user @ rest)"
    by (auto simp: under_def strict_prefix_def prefix_def)
  then show ?thesis unfolding user_slot_prefix_owner using hex_token_Nil [of jid] by blast
qed

text \<open>What a scan of one user's prefix yields, given the entries of the bucket.\<close>
definition user_scan :: "'v store_codec \<Rightarrow> (string \<Rightarrow> 'v kv_Entry option) \<Rightarrow> string \<Rightarrow> string \<Rightarrow> 'v kv_Entry list \<Rightarrow> bool" where
  "user_scan cd view scope user es \<longleftrightarrow> distinct (map ke_key es)
    \<and> unmarked ` set es = {e. \<exists>k. under (user_slot_prefix scope user) k \<and> view k = Some e}"

definition slot_entry :: "'v store_codec \<Rightarrow> 'v kv_Entry \<Rightarrow> UserLimitEntry" where
  "slot_entry cd e = (projr (cd_de_user cd (ke_value e)))\<lparr> ule_seq := ke_revision e \<rparr>"

lemma user_scan_entry:
  assumes "holds_entries cd view" "\<forall>k e. view k = Some e \<longrightarrow> ke_key e = k" "user_scan cd view scope user es"
    "e \<in> set es" "ke_operation e = Op_Put"
  shows "ke_key e = user_slot_key scope user (ule_job_id (slot_entry cd e))" "view (ke_key e) = Some (unmarked e)"
    "\<exists>ent. cd_de_user cd (ke_value e) = Inr ent"
proof -
  have "unmarked e \<in> unmarked ` set es" using assms(4) by simp
  then obtain k where k: "under (user_slot_prefix scope user) k" "view k = Some (unmarked e)"
    using assms(3) unfolding user_scan_def by auto
  have kk: "ke_key e = k" using assms(2) k(2) by fastforce
  obtain ent where ent: "cd_de_user cd (ke_value e) = Inr ent" "k = user_slot_key (ule_scope ent) (ule_user ent) (ule_job_id ent)"
    using assms(1,5) k(2) unfolding holds_entries_def by fastforce
  with k(1) have "ule_scope ent = scope" "ule_user ent = user" by (simp_all add: under_user_prefix)
  with kk ent k(2) show "ke_key e = user_slot_key scope user (ule_job_id (slot_entry cd e))"
    "view (ke_key e) = Some (unmarked e)" "\<exists>ent. cd_de_user cd (ke_value e) = Inr ent"
    by (simp_all add: slot_entry_def)
qed

lemma user_scan_slots:
  assumes "holds_entries cd view" "\<And>k e. view k = Some e \<Longrightarrow> ke_key e = k \<and> valid_kv_key k" "user_scan cd view scope user es"
  defines "ents \<equiv> map (slot_entry cd) (filter (\<lambda>e. ke_operation e = Op_Put) es)"
  shows "collect_slots cd es = Inr ents" "distinct (map ule_job_id ents)"
    "slot_value (view (user_slot_key scope user j)) = Some q \<longleftrightarrow> (\<exists>e \<in> set ents. ule_job_id e = j \<and> ule_seq e = q)"
proof -
  have key: "\<forall>k e. view k = Some e \<longrightarrow> ke_key e = k" using assms(2) by blast
  note entry = user_scan_entry [OF assms(1) key assms(3)]
  have sq: "ule_seq (slot_entry cd e) = ke_revision e" for e by (simp add: slot_entry_def)
  show "collect_slots cd es = Inr ents"
    unfolding ents_def slot_entry_def by (rule collect_slots_readable) (use entry(3) in blast)
  have "map ke_key (filter (\<lambda>e. ke_operation e = Op_Put) es) = map (user_slot_key scope user) (map ule_job_id ents)"
    unfolding ents_def using entry(1) by simp
  moreover have "distinct (map ke_key (filter (\<lambda>e. ke_operation e = Op_Put) es))"
    using assms(3) by (simp add: user_scan_def distinct_map_filter)
  ultimately show "distinct (map ule_job_id ents)" using distinct_map by metis
  show "slot_value (view (user_slot_key scope user j)) = Some q \<longleftrightarrow> (\<exists>e \<in> set ents. ule_job_id e = j \<and> ule_seq e = q)"
  proof
    assume "slot_value (view (user_slot_key scope user j)) = Some q"
    then obtain e0 where e0: "view (user_slot_key scope user j) = Some e0" "ke_operation e0 = Op_Put" "ke_revision e0 = q"
      by (auto simp: slot_value_Some)
    have "j \<noteq> []" using assms(2) [OF e0(1)] by (simp add: user_slot_key_valid)
    then have "under (user_slot_prefix scope user) (user_slot_key scope user j)" by (simp add: under_user_prefix)
    with e0(1) have "e0 \<in> unmarked ` set es" using assms(3) unfolding user_scan_def by blast
    then obtain e where e: "e \<in> set es" "unmarked e = e0" by blast
    then have put: "ke_operation e = Op_Put" and rv: "ke_revision e = q" and "ke_key e = ke_key e0" using e0 by auto
    then have "user_slot_key scope user j = user_slot_key scope user (ule_job_id (slot_entry cd e))"
      using entry(1) [OF e(1) put] assms(2) [OF e0(1)] by simp
    then have "ule_job_id (slot_entry cd e) = j" by (simp add: user_slot_key_inj)
    with e(1) put rv show "\<exists>e \<in> set ents. ule_job_id e = j \<and> ule_seq e = q" unfolding ents_def by (auto simp: sq)
  next
    assume "\<exists>e \<in> set ents. ule_job_id e = j \<and> ule_seq e = q"
    then obtain e where e: "e \<in> set es" "ke_operation e = Op_Put" "ule_job_id (slot_entry cd e) = j" "ke_revision e = q"
      unfolding ents_def by (auto simp: sq)
    with entry(1,2) [OF e(1,2)] show "slot_value (view (user_slot_key scope user j)) = Some q" by (simp add: slot_value_def)
  qed
qed

lemma valid_user_prefix: "scope \<noteq> [] \<Longrightarrow> user \<noteq> [] \<Longrightarrow> valid_scan_prefix (user_slot_prefix scope user)"
proof -
  have "butlast (user_slot_prefix scope user) = ''ul'' @ CHR ''.'' # (hex_token scope @ CHR ''.'' # hex_token user)"
    by (simp add: user_slot_prefix_def butlast_append)
  moreover have "valid_kv_key ''ul''" by code_simp
  ultimately show "scope \<noteq> [] \<Longrightarrow> user \<noteq> [] \<Longrightarrow> ?thesis"
    by (simp add: valid_scan_prefix_def valid_kv_key_word hex_token_kv hex_token_Nil user_slot_prefix_def del: append_Cons append_Nil)
qed

context nats_calm
begin

lemma users_list:
  assumes "nats_users_ok cur cd calm st"
  shows "\<exists>r. list_user_slots_nats cl cd scope user st = Some (r, st)
    \<and> (case r of Inl _ \<Rightarrow> scope = [] \<or> user = []
       | Inr es \<Rightarrow> distinct (map ule_job_id es)
           \<and> (\<forall>j q. nats_slots cur st scope user j = Some q \<longleftrightarrow> (\<exists>e \<in> set es. ule_job_id e = j \<and> ule_seq e = q)))"
proof -
  obtain ns s jobs leases ul where st: "st = (ns, s)" "calm s" "ns_stores ns = Some (jobs, leases, ul)"
    and ents: "holds_entries cd (cur s ul)"
    using assms by (rule users_connected)
  obtain r where r: "scan_current_entries cl ul (user_slot_prefix scope user @ ''>'') s = Some (r, s)"
    "case r of Inl _ \<Rightarrow> \<not> valid_scan_prefix (user_slot_prefix scope user) | Inr es \<Rightarrow> distinct (map ke_key es)
      \<and> unmarked ` set es = {e. \<exists>k. under (user_slot_prefix scope user) k \<and> cur s ul k = Some e}"
    using scan_calm [OF st(2)] by blast
  note run = nats_list_run [OF st(3) r(1), of cd]
  show ?thesis
  proof (cases r)
    case (Inl e)
    then have "scope = [] \<or> user = []" using r(2) valid_user_prefix by auto
    with run Inl st(1) show ?thesis by simp
  next
    case (Inr es)
    then have "user_scan cd (cur s ul) scope user es" using r(2) by (simp add: user_scan_def)
    note slots = user_scan_slots [OF ents _ this]
    have k: "ke_key e = k \<and> valid_kv_key k" if "cur s ul k = Some e" for k e using calm_key [OF st(2) that] by simp
    from run Inr slots [OF k] st show ?thesis by (simp add: nats_slots_connected)
  qed
qed

end

sublocale nats_calm \<subseteq> nats_users: user_limit_store "reserve_user_slot_nats cl cd" "release_user_slot_nats cl"
  "nats_listed cl cd" "nats_slots cur" "nats_users_ok cur cd calm" "\<lambda>st. room (snd st)"
  "\<lambda>scope user jid. scope \<noteq> [] \<and> user \<noteq> [] \<and> jid \<noteq> []"
proof (unfold_locales, goal_cases)
  case (1 st scope user jid q now owner)
  then show ?case by (simp add: users_reserve_existing)
next
  case (2 st scope user jid now owner q st')
  from users_reserve_new [OF 2(1,3) users_reserve_valid [OF 2(1,4)], of now owner] 2 show ?case by auto
next
  case (3 st scope user jid now owner)
  then show ?case
    using users_reserve_existing [of st scope user jid _ now owner] users_reserve_new [of st scope user jid now owner]
    by (cases "nats_slots cur st scope user jid") (auto simp: user_slot_key_valid)
next
  case (4 st scope user jid st')
  then show ?case by (rule users_release)
next
  case (5 st scope user jid)
  obtain ns s jobs leases ul where st: "st = (ns, s)" "calm s" "ns_stores ns = Some (jobs, leases, ul)"
    using 5(1) by (rule users_connected) blast
  obtain s' where "purge_expiring cl ul (user_slot_key scope user jid) (user_limit_tombstone_ttl ns) s = (Inr (), s')"
    using purge_expiring_calm [OF st(2), of "user_slot_key scope user jid"] 5(2) by (auto simp: user_slot_key_valid)
  from nats_release_run [OF st(3) this] st(1) show ?case by simp
next
  case (6 st scope user es)
  obtain r where "list_user_slots_nats cl cd scope user st = Some (r, st)"
    "case r of Inl _ \<Rightarrow> scope = [] \<or> user = []
       | Inr es \<Rightarrow> distinct (map ule_job_id es)
           \<and> (\<forall>j q. nats_slots cur st scope user j = Some q \<longleftrightarrow> (\<exists>e \<in> set es. ule_job_id e = j \<and> ule_seq e = q))"
    using users_list [OF 6(1)] by blast
  with 6(2) show ?case by (simp add: nats_listed_def)
next
  case (7 st scope user jid)
  obtain r where r: "list_user_slots_nats cl cd scope user st = Some (r, st)"
    "case r of Inl _ \<Rightarrow> scope = [] \<or> user = []
       | Inr es \<Rightarrow> distinct (map ule_job_id es)
           \<and> (\<forall>j q. nats_slots cur st scope user j = Some q \<longleftrightarrow> (\<exists>e \<in> set es. ule_job_id e = j \<and> ule_seq e = q))"
    using users_list [OF 7(1)] by blast
  show ?case
  proof (cases r)
    case (Inr es)
    then show ?thesis using r(1) by (simp add: nats_listed_def)
  qed (use r(2) 7(2) in simp)
qed

section \<open>Reclaiming\<close>

text \<open>The entries that the sweep purges, given the live owners.\<close>
definition orphaned :: "'v store_codec \<Rightarrow> string set \<Rightarrow> 'v kv_Entry \<Rightarrow> bool" where
  "orphaned cd owners e \<longleftrightarrow> take 3 (ke_key e) = ''ul.'' \<and> ke_operation e = Op_Put
    \<and> ule_owner_broker_id (projr (cd_de_user cd (ke_value e))) \<notin> owners"

context nats_calm
begin

lemma reclaim_loop_calm:
  assumes "calm s" "\<forall>e \<in> set es. valid_kv_key (ke_key e) \<and> (ke_operation e = Op_Put \<longrightarrow> (\<exists>ent. cd_de_user cd (ke_value e) = Inr ent))"
  shows "\<exists>s'. reclaim_loop cl cd ul ttl owners es n s
      = (Inr (n + of_nat (length (filter (orphaned cd owners) es))), s') \<and> calm s'
    \<and> (\<forall>h k. (h, k) \<notin> Pair ul ` ke_key ` set (filter (orphaned cd owners) es) \<longrightarrow> cur s' h k = cur s h k)
    \<and> (\<forall>e \<in> set (filter (orphaned cd owners) es). \<not> live (cur s' ul (ke_key e)))"
  using assms
proof (induction es arbitrary: s n)
  case Nil
  then show ?case by (auto simp: db_return_def)
next
  case (Cons e es)
  show ?case
  proof (cases "orphaned cd owners e")
    case False
    then have "reclaim_loop cl cd ul ttl owners (e # es) n s = reclaim_loop cl cd ul ttl owners es n s"
      using Cons.prems(2) by (auto simp: orphaned_def deserialize_def db_try_def)
    with Cons.IH [OF Cons.prems(1), of n] Cons.prems(2) False show ?thesis by simp
  next
    case True
    obtain s1 where s1: "purge_expiring cl ul (ke_key e) ttl s = (Inr (), s1)" "calm s1" "removed cur ul (ke_key e) s s1"
      using purge_expiring_calm [OF Cons.prems(1), of "ke_key e" ul ttl] Cons.prems(2) by auto
    have step: "reclaim_loop cl cd ul ttl owners (e # es) n s = reclaim_loop cl cd ul ttl owners es (n + 1) s1"
      using True Cons.prems(2) s1(1) by (auto simp: orphaned_def deserialize_def db_try_def db_then_def)
    obtain s' where s': "reclaim_loop cl cd ul ttl owners es (n + 1) s1
        = (Inr (n + 1 + of_nat (length (filter (orphaned cd owners) es))), s')" "calm s'"
      "\<forall>h k. (h, k) \<notin> Pair ul ` ke_key ` set (filter (orphaned cd owners) es) \<longrightarrow> cur s' h k = cur s1 h k"
      "\<forall>e \<in> set (filter (orphaned cd owners) es). \<not> live (cur s' ul (ke_key e))"
      using Cons.IH [OF s1(2), of "n + 1"] Cons.prems(2) by auto
    have "\<not> live (cur s' ul (ke_key e))"
    proof (cases "(ul, ke_key e) \<in> Pair ul ` ke_key ` set (filter (orphaned cd owners) es)")
      case False
      then show ?thesis using s'(3) s1(3) by (auto simp: removed_def)
    qed (use s'(4) in auto)
    moreover have "cur s' h k = cur s h k"
      if "(h, k) \<notin> Pair ul ` ke_key ` set (filter (orphaned cd owners) (e # es))" for h k
      using that True s'(3) s1(3) by (auto simp: removed_def)
    ultimately show ?thesis using step s' True by (auto simp: add.assoc add.commute)
  qed
qed

end

text \<open>The broker whose unexpired lease an entry is.\<close>
definition lease_holder :: "'v store_codec \<Rightarrow> datetime \<Rightarrow> 'v kv_Entry \<Rightarrow> string option" where
  "lease_holder cd now e =
    (if ke_operation e = Op_Put
     then (case cd_de_lease cd (ke_value e) of
         Inl _ \<Rightarrow> None
       | Inr l \<Rightarrow> if blr_lease_until l > now then Some (blr_broker_id l) else None)
     else None)"

lemma lease_holder_unmarked [simp]: "lease_holder cd now (unmarked e) = lease_holder cd now e"
  by (simp add: lease_holder_def)

lemma live_owners_readable:
  "\<forall>e \<in> set es. readable (cd_de_lease cd) (Some e) \<Longrightarrow>
    live_owners cd now es = Inr {b. \<exists>e \<in> set es. lease_holder cd now e = Some b}"
proof (induction es)
  case (Cons e es)
  show ?case
  proof (cases "ke_operation e = Op_Put")
    case True
    then obtain l where "cd_de_lease cd (ke_value e) = Inr l" using Cons.prems by (auto simp: readable_def)
    with True Cons show ?thesis by (auto simp: deserialize_def lease_holder_def)
  next
    case False
    then have "lease_holder cd now e = None" by (simp add: lease_holder_def)
    with False Cons show ?thesis by simp
  qed
qed simp

text \<open>The store is connected and its buckets hold what the store itself writes.\<close>
definition nats_sweep_ok ::
  "('s \<Rightarrow> 'h \<Rightarrow> string \<Rightarrow> 'v kv_Entry option) \<Rightarrow> 'v store_codec \<Rightarrow> ('s \<Rightarrow> bool) \<Rightarrow> 'h NatsStore \<times> 's \<Rightarrow> bool" where
  "nats_sweep_ok cur cd calm st \<longleftrightarrow> nats_users_ok cur cd calm st \<and>
    (\<forall>jobs leases ul k. ns_stores (fst st) = Some (jobs, leases, ul) \<longrightarrow> readable (cd_de_lease cd) (cur (snd st) leases k))"

text \<open>The owner recorded in a user's live entry.\<close>
definition slot_owner :: "'v store_codec \<Rightarrow> 'v kv_Entry option \<Rightarrow> string option" where
  "slot_owner cd m = (case m of Some e \<Rightarrow>
      if ke_operation e = Op_Put then (case cd_de_user cd (ke_value e) of Inl _ \<Rightarrow> None | Inr ent \<Rightarrow> Some (ule_owner_broker_id ent)) else None
    | None \<Rightarrow> None)"

definition nats_live :: "('s \<Rightarrow> 'h \<Rightarrow> string \<Rightarrow> 'v kv_Entry option) \<Rightarrow> 'v store_codec \<Rightarrow> datetime \<Rightarrow> 'h \<Rightarrow> 's \<Rightarrow> string set" where
  "nats_live cur cd now leases s = {b. \<exists>k e. cur s leases k = Some e \<and> lease_holder cd now e = Some b}"

lemma under_all: "under [] k \<longleftrightarrow> k \<noteq> []"
  by (auto simp: under_def strict_prefix_def)

context nats_calm
begin

lemma scan_all_calm:
  assumes "calm s"
  shows "\<exists>es. scan_current_entries cl h ''>'' s = Some (Inr es, s)
    \<and> distinct (map ke_key es) \<and> unmarked ` set es = {e. \<exists>k. cur s h k = Some e}"
proof -
  have "k \<noteq> []" if "cur s h k = Some e" for k e using calm_key [OF assms that] by (auto simp: valid_kv_key_def)
  then have eq: "{e. \<exists>k. under [] k \<and> cur s h k = Some e} = {e. \<exists>k. cur s h k = Some e}" by (auto simp: under_all)
  have "valid_scan_prefix []" by (simp add: valid_scan_prefix_def)
  moreover obtain r where "scan_current_entries cl h ([] @ ''>'') s = Some (r, s)"
    "case r of Inl _ \<Rightarrow> \<not> valid_scan_prefix []
       | Inr es \<Rightarrow> distinct (map ke_key es) \<and> unmarked ` set es = {e. \<exists>k. cur s h k = Some e}"
    using scan_calm [OF assms, of h "[]"] unfolding eq by blast
  ultimately show ?thesis by (cases r) simp_all
qed

lemma scan_all_entry:
  assumes "calm s" "unmarked ` set es = {e. \<exists>k. cur s h k = Some e}" "e \<in> set es"
  shows "cur s h (ke_key e) = Some (unmarked e) \<and> valid_kv_key (ke_key e)"
proof -
  have "unmarked e \<in> {e. \<exists>k. cur s h k = Some e}" using assms(2,3) by blast
  then obtain k where k: "cur s h k = Some (unmarked e)" by blast
  with calm_key [OF assms(1) k] show ?thesis by simp
qed

lemma live_owners_scan:
  assumes "calm s" "unmarked ` set held = {e. \<exists>k. cur s leases k = Some e}" "\<And>k. readable (cd_de_lease cd) (cur s leases k)"
  shows "live_owners cd now held = Inr (nats_live cur cd now leases s)"
proof -
  have "readable (cd_de_lease cd) (Some e)" if "e \<in> set held" for e
    using assms(3) [of "ke_key e"] scan_all_entry [OF assms(1,2) that] by (auto simp: readable_def)
  moreover have "(\<exists>e \<in> set held. lease_holder cd now e = Some b) \<longleftrightarrow> b \<in> nats_live cur cd now leases s" for b
  proof -
    have "(\<exists>e \<in> set held. lease_holder cd now e = Some b) \<longleftrightarrow> (\<exists>e \<in> unmarked ` set held. lease_holder cd now e = Some b)" by simp
    then show ?thesis unfolding assms(2) by (auto simp: nats_live_def)
  qed
  ultimately show ?thesis by (subst live_owners_readable) auto
qed

text \<open>The keys of the scanned orphans, by the bucket's contents.\<close>
lemma orphaned_keys:
  assumes calm: "calm s" and es: "unmarked ` set es = {e. \<exists>k. cur s ul k = Some e}" and ents: "holds_entries cd (cur s ul)"
  shows "user_slot_key scope user jid \<in> ke_key ` set (filter (orphaned cd owners) es)
    \<longleftrightarrow> (\<exists>b. slot_owner cd (cur s ul (user_slot_key scope user jid)) = Some b \<and> b \<notin> owners)"
proof
  assume "user_slot_key scope user jid \<in> ke_key ` set (filter (orphaned cd owners) es)"
  then obtain e where e: "e \<in> set es" "orphaned cd owners e" "ke_key e = user_slot_key scope user jid" by auto
  then have v: "cur s ul (user_slot_key scope user jid) = Some (unmarked e)" using scan_all_entry [OF calm es e(1)] by simp
  then obtain ent where "cd_de_user cd (ke_value e) = Inr ent"
    using ents e(2) unfolding holds_entries_def orphaned_def by fastforce
  with v e(2) show "\<exists>b. slot_owner cd (cur s ul (user_slot_key scope user jid)) = Some b \<and> b \<notin> owners"
    by (simp add: slot_owner_def orphaned_def)
next
  assume "\<exists>b. slot_owner cd (cur s ul (user_slot_key scope user jid)) = Some b \<and> b \<notin> owners"
  then obtain e0 ent where e0: "cur s ul (user_slot_key scope user jid) = Some e0" "ke_operation e0 = Op_Put"
      "cd_de_user cd (ke_value e0) = Inr ent" "ule_owner_broker_id ent \<notin> owners"
    by (auto simp: slot_owner_def split: option.splits if_splits sum.splits)
  then have "e0 \<in> unmarked ` set es" unfolding es by blast
  then obtain e where e: "e \<in> set es" "unmarked e = e0" by blast
  then have "ke_key e = user_slot_key scope user jid" using scan_all_entry [OF calm es e(1)] calm_key [OF calm e0(1)] by auto
  moreover have "orphaned cd owners e" using e0 e calculation by (auto simp: orphaned_def user_slot_key_def)
  ultimately show "user_slot_key scope user jid \<in> ke_key ` set (filter (orphaned cd owners) es)"
    using e(1) by (auto intro!: image_eqI [of _ _ e])
qed

text \<open>The sweep removes exactly the slots whose owner has no unexpired lease.\<close>
lemma reclaim_calm:
  fixes now :: datetime
  assumes ok: "nats_sweep_ok cur cd calm (ns, s)" and st: "ns_stores ns = Some (jobs, leases, ul)"
  defines "owners \<equiv> nats_live cur cd now leases s"
  shows "\<exists>n s'. reclaim_user_slots_nats cl cd now (ns, s) = Some (Inr n, ns, s') \<and> calm s'
    \<and> (\<forall>scope user jid. nats_slots cur (ns, s') scope user jid =
        (if \<exists>b. slot_owner cd (cur s ul (user_slot_key scope user jid)) = Some b \<and> b \<notin> owners then None
         else nats_slots cur (ns, s) scope user jid))
    \<and> (\<forall>h. h \<noteq> ul \<longrightarrow> cur s' h = cur s h)"
proof -
  have calm: "calm s" and ents: "holds_entries cd (cur s ul)" and ls: "\<And>k. readable (cd_de_lease cd) (cur s leases k)"
    using ok st by (auto simp: nats_sweep_ok_def nats_users_ok_def)
  obtain held where held: "scan_current_entries cl leases ''>'' s = Some (Inr held, s)"
    "unmarked ` set held = {e. \<exists>k. cur s leases k = Some e}" using scan_all_calm [OF calm] by blast
  obtain es where es: "scan_current_entries cl ul ''>'' s = Some (Inr es, s)"
    "unmarked ` set es = {e. \<exists>k. cur s ul k = Some e}" using scan_all_calm [OF calm] by blast
  have "\<forall>e \<in> set es. valid_kv_key (ke_key e) \<and> (ke_operation e = Op_Put \<longrightarrow> (\<exists>ent. cd_de_user cd (ke_value e) = Inr ent))"
    using scan_all_entry [OF calm es(2)] ents unfolding holds_entries_def by fastforce
  from reclaim_loop_calm [OF calm this] obtain s' where s': "reclaim_loop cl cd ul (user_limit_tombstone_ttl ns) owners es 0 s
        = (Inr (0 + of_nat (length (filter (orphaned cd owners) es))), s')" "calm s'"
      "\<forall>h k. (h, k) \<notin> Pair ul ` ke_key ` set (filter (orphaned cd owners) es) \<longrightarrow> cur s' h k = cur s h k"
      "\<forall>e \<in> set (filter (orphaned cd owners) es). \<not> live (cur s' ul (ke_key e))"
    by blast
  have run: "reclaim_user_slots_nats cl cd now (ns, s) = Some (Inr (of_nat (length (filter (orphaned cd owners) es))), ns, s')"
    using connected_handles(2,3) [OF st, of cl s] held(1) live_owners_scan [OF calm held(2) ls, of now] es(1) s'(1)
    by (simp add: reclaim_user_slots_nats_def owners_def)
  have "nats_slots cur (ns, s') scope user jid =
      (if \<exists>b. slot_owner cd (cur s ul (user_slot_key scope user jid)) = Some b \<and> b \<notin> owners then None
       else nats_slots cur (ns, s) scope user jid)" for scope user jid
  proof (cases "user_slot_key scope user jid \<in> ke_key ` set (filter (orphaned cd owners) es)")
    case True
    then have "\<not> live (cur s' ul (user_slot_key scope user jid))" using s'(4) by force
    with True st show ?thesis unfolding orphaned_keys [OF calm es(2) ents] by (simp add: nats_slots_connected slot_value_None)
  next
    case False
    then have "(ul, user_slot_key scope user jid) \<notin> Pair ul ` ke_key ` set (filter (orphaned cd owners) es)" by blast
    then have "cur s' ul (user_slot_key scope user jid) = cur s ul (user_slot_key scope user jid)" using s'(3) by blast
    with False st show ?thesis unfolding orphaned_keys [OF calm es(2) ents] by (auto simp: nats_slots_connected)
  qed
  moreover have "cur s' h = cur s h" if "h \<noteq> ul" for h
  proof
    fix k
    have "(h, k) \<notin> Pair ul ` ke_key ` set (filter (orphaned cd owners) es)" using that by blast
    then show "cur s' h k = cur s h k" using s'(3) by blast
  qed
  ultimately show ?thesis using run s'(2) by blast
qed

end

end
