(* ===== verification/Nats_Server.thy ===== *)
theory Nats_Server
  imports Nats_Contract
begin

text \<open>
  A key-value server for concrete runs of the NATS store: the last message per bucket and key, a message
  counter, and a script of what other brokers will do.  One action of the script takes place before
  each call, so that every interleaving with others is some script.  It satisfies the laws of \<open>nats_kv\<close>
  for every script, those of \<open>nats_settling\<close> with the length of the script as bound, and those of
  \<open>nats_calm\<close> once the script is used up.
\<close>

datatype kv_action = ActPut string string stored | ActPurge string string

record kv_server =
  sv_entries :: "((string \<times> string) \<times> stored kv_Entry) list"
  sv_seq :: nat
  sv_script :: "kv_action list"

definition sim_cur :: "kv_server \<Rightarrow> string \<Rightarrow> string \<Rightarrow> stored kv_Entry option" where
  "sim_cur s h k = map_of (sv_entries s) (h, k)"

text \<open>Revisions start at 1 and are never 0.\<close>
definition sim_rev :: "nat \<Rightarrow> u64" where
  "sim_rev n = (let w = of_nat n + 1 in if w = 0 then 1 else w)"

definition sim_message :: "string \<Rightarrow> string \<Rightarrow> kv_Operation \<Rightarrow> stored \<Rightarrow> kv_server \<Rightarrow> kv_server" where
  "sim_message h k op v s = s\<lparr>
    sv_entries := AList.update (h, k) \<lparr> ke_key = k, ke_value = v, ke_revision = sim_rev (sv_seq s),
      ke_operation = op, ke_seen_current = False \<rparr> (sv_entries s),
    sv_seq := sv_seq s + 1 \<rparr>"

definition sim_act :: "kv_action \<Rightarrow> kv_server \<Rightarrow> kv_server" where
  "sim_act a s =
    (case a of
       ActPut h k v \<Rightarrow> if valid_kv_key k then sim_message h k Op_Put v s else s
     | ActPurge h k \<Rightarrow> if valid_kv_key k then sim_message h k Op_Purge StNone s else s)"

definition sim_tick :: "kv_server \<Rightarrow> kv_server" where
  "sim_tick s = (case sv_script s of [] \<Rightarrow> s | a # as \<Rightarrow> sim_act a (s\<lparr> sv_script := as \<rparr>))"

definition sim_write :: "string \<Rightarrow> string \<Rightarrow> stored \<Rightarrow> kv_server \<Rightarrow> ('e + u64) \<times> kv_server" where
  "sim_write h k v s = (Inr (sim_rev (sv_seq s)), sim_message h k Op_Put v s)"

definition sim_remove :: "string \<Rightarrow> string \<Rightarrow> kv_server \<Rightarrow> (string + unit) \<times> kv_server" where
  "sim_remove h k s =
    (let s = sim_tick s in
     if valid_kv_key k then (Inr (), sim_message h k Op_Purge StNone s) else (Inl ''invalid key'', s))"

primrec mark_last :: "'v kv_Entry list \<Rightarrow> 'v kv_Entry list" where
  "mark_last [] = []"
| "mark_last (e # es) = (if es = [] then [e\<lparr> ke_seen_current := True \<rparr>] else e # mark_last es)"

definition sim_matching :: "string \<Rightarrow> string \<Rightarrow> kv_server \<Rightarrow> stored kv_Entry list" where
  "sim_matching h p s = map snd (filter (\<lambda>((h', k), e). h' = h \<and> p = take (length p) k \<and> length p < length k) (sv_entries s))"

definition sim_prefix :: "string \<Rightarrow> string" where
  "sim_prefix h = ''$KV.'' @ h @ ''.''"

definition sim_client :: "(unit, string, stored, kv_server) nats_client" where
  "sim_client = \<lparr>
    nc_clock = (\<lambda>s. 0),
    nc_secs_f64 = (\<lambda>d. ''5.0''),
    nc_connect = (\<lambda>url capacity s. (Inr (), s)),
    nc_create_key_value = (\<lambda>js config s. (Inr (kc_bucket config), s)),
    nc_update_key_value = (\<lambda>js config s. (Inr (kc_bucket config), s)),
    nc_get_key_value = (\<lambda>js bucket s. (Inr bucket, s)),
    kv_prefix = sim_prefix,
    kv_entry = (\<lambda>h k s. let s = sim_tick s in (if valid_kv_key k then Inr (sim_cur s h k) else Inl ''invalid key'', s)),
    kv_put = (\<lambda>h k v s. let s = sim_tick s in if valid_kv_key k then sim_write h k v s else (Inl ''invalid key'', s)),
    kv_create = (\<lambda>h k v s. let s = sim_tick s in
      if \<not> valid_kv_key k then (Inl (CreateFailed ''invalid key''), s)
      else case sim_cur s h k of
        Some e \<Rightarrow> if ke_operation e = Op_Put then (Inl AlreadyExists, s) else sim_write h k v s
      | None \<Rightarrow> sim_write h k v s),
    kv_update = (\<lambda>h k v rv s. let s = sim_tick s in
      if \<not> valid_kv_key k then (Inl (UpdateFailed ''invalid key''), s)
      else if last_revision (sim_cur s h k) = rv then sim_write h k v s else (Inl WrongLastRevision, s)),
    kv_purge = sim_remove,
    kv_purge_with_ttl = (\<lambda>h k ttl. sim_remove h k),
    kv_delete = sim_remove,
    kv_info_with_subjects = (\<lambda>h subject s. let s = sim_tick s in
      (Inr (map ke_key (sim_matching h (butlast (drop (length (sim_prefix h)) subject)) s)), s)),
    kv_watch_with_history = (\<lambda>h key_pattern s. let s = sim_tick s in
      (Inr (map Inr (mark_last (sim_matching h (butlast key_pattern) s)), False), s)) \<rparr>"

text \<open>What the server keeps: one message per key, stored under its key with a revision below the counter;
  as long as others have something to do, the counter cannot wrap.\<close>

definition sim_entry_ok :: "nat \<Rightarrow> (string \<times> string) \<times> stored kv_Entry \<Rightarrow> bool" where
  "sim_entry_ok n = (\<lambda>((h, k), e). ke_key e = k \<and> valid_kv_key k \<and> \<not> ke_seen_current e \<and> (\<exists>i < n. ke_revision e = sim_rev i))"

definition sim_ok :: "kv_server \<Rightarrow> bool" where
  "sim_ok s \<longleftrightarrow> distinct (map fst (sv_entries s)) \<and> (\<forall>x \<in> set (sv_entries s). sim_entry_ok (sv_seq s) x)
    \<and> (sv_script s = [] \<or> sv_seq s + 2 * length (sv_script s) < 2 ^ 64 - 1)"

definition sim_calm :: "kv_server \<Rightarrow> bool" where
  "sim_calm s \<longleftrightarrow> sim_ok s \<and> sv_script s = []"

definition sim_room :: "kv_server \<Rightarrow> bool" where
  "sim_room s \<longleftrightarrow> sv_seq s < 2 ^ 64 - 1"

definition sim_others :: "kv_server \<Rightarrow> kv_server \<Rightarrow> bool" where
  "sim_others s s' \<longleftrightarrow> (\<exists>n. s' = (sim_tick ^^ n) s)"

section \<open>The server's invariant\<close>

lemma sim_cur_message:
  "sim_cur (sim_message h k op v s) = (sim_cur s)(h := (sim_cur s h)(k \<mapsto> \<lparr> ke_key = k, ke_value = v,
    ke_revision = sim_rev (sv_seq s), ke_operation = op, ke_seen_current = False \<rparr>))"
  by (auto simp: sim_cur_def sim_message_def update_conv' fun_eq_iff)

lemma sim_message_script [simp]: "sv_script (sim_message h k op v s) = sv_script s"
  and sim_message_seq [simp]: "sv_seq (sim_message h k op v s) = Suc (sv_seq s)"
  by (simp_all add: sim_message_def)

lemma sim_entry_ok_Suc: "sim_entry_ok n x \<Longrightarrow> sim_entry_ok (Suc n) x"
  unfolding sim_entry_ok_def by (cases x) (auto, metis less_SucI)

lemma sim_message_entries:
  assumes "distinct (map fst (sv_entries s))" "\<forall>x \<in> set (sv_entries s). sim_entry_ok (sv_seq s) x" "valid_kv_key k"
  shows "distinct (map fst (sv_entries (sim_message h k op v s)))"
    "\<forall>x \<in> set (sv_entries (sim_message h k op v s)). sim_entry_ok (sv_seq (sim_message h k op v s)) x"
proof -
  show "distinct (map fst (sv_entries (sim_message h k op v s)))"
    using assms(1) by (simp add: sim_message_def distinct_update)
  show "\<forall>x \<in> set (sv_entries (sim_message h k op v s)). sim_entry_ok (sv_seq (sim_message h k op v s)) x"
  proof
    fix x assume "x \<in> set (sv_entries (sim_message h k op v s))"
    then have "x = ((h, k), \<lparr> ke_key = k, ke_value = v, ke_revision = sim_rev (sv_seq s),
        ke_operation = op, ke_seen_current = False \<rparr>) \<or> x \<in> set (sv_entries s)"
      unfolding sim_message_def using set_update_subset by fastforce
    then show "sim_entry_ok (sv_seq (sim_message h k op v s)) x"
    proof
      assume "x \<in> set (sv_entries s)"
      then show ?thesis using assms(2) sim_entry_ok_Suc by simp
    qed (use assms(3) in \<open>auto simp: sim_entry_ok_def\<close>)
  qed
qed

lemma sim_message_calm: "sim_calm s \<Longrightarrow> valid_kv_key k \<Longrightarrow> sim_calm (sim_message h k op v s)"
  using sim_message_entries [of s k h op v] by (simp add: sim_calm_def sim_ok_def)

lemma sim_tick_calm [simp]: "sim_calm s \<Longrightarrow> sim_tick s = s"
  by (simp add: sim_calm_def sim_tick_def)

text \<open>After a tick there is room for the message of the call itself.\<close>
lemma sim_tick_ok:
  assumes "sim_ok s"
  shows "sim_ok (sim_tick s)" "valid_kv_key k \<Longrightarrow> sim_ok (sim_message h k op v (sim_tick s))"
    "length (sv_script (sim_tick s)) = length (sv_script s) - 1" "sv_seq s \<le> sv_seq (sim_tick s)"
proof -
  have "sim_ok (sim_tick s) \<and> (valid_kv_key k \<longrightarrow> sim_ok (sim_message h k op v (sim_tick s)))
      \<and> length (sv_script (sim_tick s)) = length (sv_script s) - 1 \<and> sv_seq s \<le> sv_seq (sim_tick s)"
  proof (cases "sv_script s")
    case Nil
    then have "sim_tick s = s" by (simp add: sim_tick_def)
    then show ?thesis using assms Nil sim_message_entries [of s k h op v] by (simp add: sim_ok_def)
  next
    case (Cons a as)
    define t where "t = s\<lparr> sv_script := as \<rparr>"
    have t: "distinct (map fst (sv_entries t))" "\<forall>x \<in> set (sv_entries t). sim_entry_ok (sv_seq t) x"
      "sv_seq t + 2 * length as + 2 < 2 ^ 64 - 1"
      using assms Cons by (simp_all add: sim_ok_def t_def)
    have "sim_tick s = t \<or> (\<exists>h' k' op' v'. valid_kv_key k' \<and> sim_tick s = sim_message h' k' op' v' t)"
      using Cons by (cases a) (auto simp: sim_tick_def sim_act_def t_def)
    then have u: "distinct (map fst (sv_entries (sim_tick s)))"
      "\<forall>x \<in> set (sv_entries (sim_tick s)). sim_entry_ok (sv_seq (sim_tick s)) x"
      "sv_seq (sim_tick s) \<le> Suc (sv_seq t)" "sv_seq t \<le> sv_seq (sim_tick s)" "sv_script (sim_tick s) = as"
      using t sim_message_entries [OF t(1,2)] by (auto simp: t_def)
    then show ?thesis using t(3) Cons sim_message_entries [OF u(1,2), of k h op v] by (simp add: sim_ok_def t_def)
  qed
  then show "sim_ok (sim_tick s)" "valid_kv_key k \<Longrightarrow> sim_ok (sim_message h k op v (sim_tick s))"
    "length (sv_script (sim_tick s)) = length (sv_script s) - 1" "sv_seq s \<le> sv_seq (sim_tick s)" by blast+
qed

lemma sim_others_ok: "sim_ok s \<Longrightarrow> sim_ok ((sim_tick ^^ n) s)"
  by (induction n) (auto intro: sim_tick_ok)

section \<open>Revisions\<close>

lemma sim_rev_pos: "sim_rev n \<noteq> 0"
  by (simp add: sim_rev_def Let_def)

lemma unat_sim_rev: "n < 2 ^ 64 - 1 \<Longrightarrow> unat (sim_rev n) = n + 1"
proof -
  assume "n < 2 ^ 64 - 1"
  then have "unat (of_nat n + 1 :: u64) = n + 1" by (simp add: unat_word_ariths unsigned_of_nat take_bit_nat_eq_self)
  moreover from this have "(of_nat n + 1 :: u64) \<noteq> 0" by auto
  ultimately show ?thesis by (simp add: sim_rev_def Let_def)
qed

lemma sim_rev_mono: "i < n \<Longrightarrow> n < 2 ^ 64 - 1 \<Longrightarrow> sim_rev i < sim_rev n"
  by (simp add: word_less_nat_alt unat_sim_rev)

lemma sim_cur_entry_ok:
  "sim_ok s \<Longrightarrow> sim_cur s h k = Some e \<Longrightarrow> sim_entry_ok (sv_seq s) ((h, k), e)"
  by (auto simp: sim_ok_def sim_cur_def dest!: map_of_SomeD)

lemma sim_tick_fresh:
  assumes "sim_ok s" "sim_cur s h k = Some e" "sim_cur (sim_tick s) h k = Some e'"
  shows "e' = e \<or> ke_revision e < ke_revision e'"
proof (cases "sv_script s")
  case Nil
  then show ?thesis using assms by (simp add: sim_tick_def)
next
  case (Cons a as)
  define t where "t = s\<lparr> sv_script := as \<rparr>"
  have t: "sim_cur t = sim_cur s" "sv_seq t = sv_seq s" by (simp_all add: t_def sim_cur_def fun_eq_iff)
  have small: "sv_seq s < 2 ^ 64 - 1" using assms(1) Cons by (simp add: sim_ok_def)
  have "sim_tick s = t \<or> (\<exists>h' k' op' v'. sim_tick s = sim_message h' k' op' v' t)"
    using Cons by (cases a) (auto simp: sim_tick_def sim_act_def t_def)
  then show ?thesis
  proof
    assume "\<exists>h' k' op' v'. sim_tick s = sim_message h' k' op' v' t"
    then obtain h' k' op' v' where m: "sim_tick s = sim_message h' k' op' v' t" by blast
    show ?thesis
    proof (cases "h' = h \<and> k' = k")
      case True
      obtain i where "i < sv_seq s" "ke_revision e = sim_rev i"
        using sim_cur_entry_ok [OF assms(1,2)] by (auto simp: sim_entry_ok_def)
      with True assms(3) m t small show ?thesis by (auto simp: sim_cur_message sim_rev_mono)
    qed (use assms m t in \<open>auto simp: sim_cur_message split: if_splits\<close>)
  qed (use assms t in auto)
qed

lemma sim_cur_script [simp]: "sim_cur (s\<lparr> sv_script := as \<rparr>) = sim_cur s"
  by (simp add: sim_cur_def fun_eq_iff)

lemma sim_cur_persists:
  "sim_cur s h k = Some e \<Longrightarrow> \<exists>e'. sim_cur (sim_tick s) h k = Some e'"
  by (auto simp: sim_tick_def sim_act_def sim_cur_message split: list.splits kv_action.splits)

lemma sim_wrote: "wrote sim_cur h k v (sim_rev (sv_seq s)) s (sim_message h k Op_Put v s)"
  unfolding wrote_def sim_cur_message by (intro exI conjI; (rule refl)?) simp_all

lemma sim_others_fresh:
  "sim_ok s \<Longrightarrow> sim_cur s h k = Some e \<Longrightarrow> sim_cur ((sim_tick ^^ n) s) h k = Some e' \<Longrightarrow>
    e' = e \<or> ke_revision e < ke_revision e'"
proof (induction n arbitrary: e')
  case (Suc n)
  have ok: "sim_ok ((sim_tick ^^ n) s)" using Suc.prems(1) by (rule sim_others_ok)
  have "\<exists>e1. sim_cur ((sim_tick ^^ n) s) h k = Some e1" using Suc.prems(2)
    by (induction n) (auto dest: sim_cur_persists)
  then obtain e1 where e1: "sim_cur ((sim_tick ^^ n) s) h k = Some e1" by blast
  from Suc.IH [OF Suc.prems(1,2) e1] sim_tick_fresh [OF ok e1, of e'] Suc.prems(3) show ?case by auto
qed simp

lemma sim_others_tick: "sim_others s (sim_tick s)"
  unfolding sim_others_def by (rule exI [of _ 1]) simp

section \<open>The laws hold\<close>

interpretation sim_kv: nats_kv sim_client sim_cur sim_others sim_ok
proof (unfold_locales, goal_cases)
  case (1 s)
  show ?case unfolding sim_others_def by (rule exI [of _ 0]) simp
next
  case (2 s s' s'')
  then obtain n m where "s' = (sim_tick ^^ n) s" "s'' = (sim_tick ^^ m) s'" by (auto simp: sim_others_def)
  then have "s'' = (sim_tick ^^ (m + n)) s" by (simp add: funpow_add)
  then show ?case unfolding sim_others_def by blast
next
  case (3 s s')
  then show ?case using sim_others_ok by (auto simp: sim_others_def)
next
  case (4 s h k e)
  then obtain i where "ke_revision e = sim_rev i" using sim_cur_entry_ok by (fastforce simp: sim_entry_ok_def)
  then show ?case by (simp add: sim_rev_pos)
next
  case (5 s s' h k e e')
  then show ?case using sim_others_fresh [of s h k e _ e'] by (auto simp: sim_others_def)
next
  case (6 s h k r s')
  then show ?case using sim_others_tick by (auto simp: sim_client_def Let_def split: if_splits)
next
  case (7 s h k v rv rv' s')
  then have "valid_kv_key k" "last_revision (sim_cur (sim_tick s) h k) = rv" "rv' = sim_rev (sv_seq (sim_tick s))"
      "s' = sim_message h k Op_Put v (sim_tick s)"
    by (auto simp: sim_client_def sim_write_def Let_def split: if_splits)
  then show ?case using sim_tick_ok(2) [OF 7(1)] sim_others_tick
    by (intro exI [of _ "sim_tick s"]) (auto simp: sim_wrote)
next
  case (8 s h k v rv s')
  then have "s' = sim_tick s" "last_revision (sim_cur (sim_tick s) h k) \<noteq> rv"
    by (auto simp: sim_client_def sim_write_def Let_def split: if_splits)
  then show ?case using sim_others_tick 8 by (intro exI [of _ "sim_tick s"]) (auto simp: sim_others_def intro: exI [of _ 0])
next
  case (9 s h k v rv' s')
  then have "valid_kv_key k" "\<not> live (sim_cur (sim_tick s) h k)" "rv' = sim_rev (sv_seq (sim_tick s))"
      "s' = sim_message h k Op_Put v (sim_tick s)"
    by (auto simp: sim_client_def sim_write_def Let_def live_def split: if_splits option.splits)
  then show ?case using sim_tick_ok(2) [OF 9(1)] sim_others_tick
    by (intro exI [of _ "sim_tick s"]) (auto simp: sim_wrote)
next
  case (10 s h k v s')
  then have "s' = sim_tick s" "live (sim_cur (sim_tick s) h k)"
    by (auto simp: sim_client_def sim_write_def Let_def live_def split: if_splits option.splits)
  then show ?case using sim_others_tick by (intro exI [of _ "sim_tick s"]) (auto simp: sim_others_def intro: exI [of _ 0])
qed

interpretation sim_kv_codec: nats_kv_codec sim_client sim_cur sim_others sim_ok sim_codec
  by unfold_locales

lemma sim_tick_length: "length (sv_script (sim_tick s)) = length (sv_script s) - 1"
  by (auto simp: sim_tick_def sim_act_def split: list.splits kv_action.splits)

lemma sim_others_length: "length (sv_script ((sim_tick ^^ n) s)) = length (sv_script s) - n"
  by (induction n) (auto simp: sim_tick_length)

lemma sim_tick_done: "sv_script s = [] \<Longrightarrow> (sim_tick ^^ n) s = s"
  by (induction n) (auto simp: sim_tick_def)

interpretation sim_settling: nats_settling sim_client sim_cur sim_others sim_ok sim_codec "\<lambda>s. length (sv_script s)"
proof (unfold_locales, goal_cases)
  case (1 s s')
  then show ?case by (auto simp: sim_others_def sim_others_length)
next
  case (2 s s' h k)
  then obtain n where n: "s' = (sim_tick ^^ n) s" by (auto simp: sim_others_def)
  with 2(3) have "sv_script s \<noteq> []" "n \<noteq> 0" using sim_tick_done [of s n] by (auto intro: ccontr)
  then show ?case using n by (simp add: sim_others_length)
qed

section \<open>Scans of the server\<close>

lemma mark_last_props:
  assumes "es \<noteq> []" "\<forall>e \<in> set es. \<not> ke_seen_current e"
  shows "mark_last es \<noteq> [] \<and> ke_seen_current (last (mark_last es)) \<and> (\<forall>e \<in> set (butlast (mark_last es)). \<not> ke_seen_current e)
    \<and> map ke_key (mark_last es) = map ke_key es \<and> unmarked ` set (mark_last es) = set es"
  using assms
proof (induction es)
  case (Cons e es)
  have un: "unmarked e = e" if "\<not> ke_seen_current e" for e :: "'a kv_Entry" using that by (cases e) (simp add: unmarked_def)
  show ?case
  proof (cases "es = []")
    case True
    with Cons.prems show ?thesis by (cases e) (simp add: unmarked_def)
  next
    case False
    then have m: "mark_last es \<noteq> []" by (cases es) auto
    from Cons.IH [OF False] Cons.prems False m un [of e] show ?thesis by simp
  qed
qed simp

lemma sim_matching_keys:
  assumes "sim_ok s"
  shows "distinct (map ke_key (sim_matching h p s))"
    "set (sim_matching h p s) = {e. \<exists>k. under p k \<and> sim_cur s h k = Some e}"
    "\<forall>e \<in> set (sim_matching h p s). \<not> ke_seen_current e"
proof -
  let ?P = "\<lambda>((h', k), e :: stored kv_Entry). h' = h \<and> p = take (length p) k \<and> length p < length k"
  have d: "distinct (map fst (sv_entries s))" and ok: "\<And>x. x \<in> set (sv_entries s) \<Longrightarrow> sim_entry_ok (sv_seq s) x"
    using assms by (auto simp: sim_ok_def)
  have un: "p = take (length p) k \<and> length p < length k \<longleftrightarrow> under p k" for k
    unfolding under_def strict_prefix_def by (metis append_take_drop_id length_take less_not_refl min.absorb4 nat_less_le prefixE prefixI prefix_length_le same_prefix_nil take_all_iff not_le append_eq_conv_conj take_is_prefix)
  have key: "ke_key (snd x) = snd (fst x)" if "x \<in> set (sv_entries s)" for x
    using ok [OF that] by (auto simp: sim_entry_ok_def split: prod.splits)
  have "map ke_key (map snd (filter ?P (sv_entries s))) = map snd (map fst (filter ?P (sv_entries s)))"
    using key by auto
  moreover have "inj_on snd (set (map fst (filter ?P (sv_entries s))))" by (auto simp: inj_on_def)
  moreover have "distinct (map fst (filter ?P (sv_entries s)))" using d by (rule distinct_map_filter)
  ultimately show "distinct (map ke_key (sim_matching h p s))"
    unfolding sim_matching_def by (simp only: distinct_map)
  have "e \<in> set (sim_matching h p s) \<longleftrightarrow> (\<exists>k. under p k \<and> ((h, k), e) \<in> set (sv_entries s))" for e
    unfolding sim_matching_def un [symmetric] by force
  then show "set (sim_matching h p s) = {e. \<exists>k. under p k \<and> sim_cur s h k = Some e}"
    using d by (auto simp: sim_cur_def)
  show "\<forall>e \<in> set (sim_matching h p s). \<not> ke_seen_current e"
    using ok by (fastforce simp: sim_matching_def sim_entry_ok_def)
qed

lemma sim_rev_room:
  assumes "sim_ok s" "sim_room s" "sim_cur s h k = Some e"
  shows "ke_revision e < sim_rev (sv_seq s)"
  using sim_cur_entry_ok [OF assms(1,3)] assms(2) by (auto simp: sim_entry_ok_def sim_room_def sim_rev_mono)

lemma sim_removed: "removed sim_cur h k s (sim_message h k Op_Purge StNone s)"
  by (auto simp: removed_def live_def sim_cur_message)

lemma sim_remove_calm:
  assumes "sim_calm s"
  shows "sim_remove h k s = (if valid_kv_key k then (Inr (), sim_message h k Op_Purge StNone s) else (Inl ''invalid key'', s))"
  using assms by (simp add: sim_remove_def)

interpretation sim_calm: nats_calm sim_client sim_cur sim_others sim_ok sim_codec sim_calm sim_room
proof (unfold_locales, goal_cases)
  case (1 s)
  then show ?case by (simp add: sim_calm_def)
next
  case (2 s h k e)
  then show ?case using sim_cur_entry_ok [of s h k e] by (auto simp: sim_calm_def sim_entry_ok_def)
next
  case (3 s k h)
  then show ?case by (simp add: sim_client_def)
next
  case (4 s k h)
  then show ?case by (simp add: sim_client_def)
next
  case (5 s k h v)
  then show ?case using sim_message_calm sim_wrote by (auto simp: sim_client_def sim_write_def)
next
  case (6 s k h e v)
  then show ?case using sim_message_calm sim_wrote by (auto simp: sim_client_def sim_write_def last_revision_def)
next
  case (7 s k h v)
  then have run: "kv_create sim_client h k v s = sim_write h k v s"
    by (auto simp: sim_client_def live_def split: option.splits)
  have "sim_room s \<longrightarrow> (\<forall>k' e. sim_cur s h k' = Some e \<longrightarrow> ke_revision e < sim_rev (sv_seq s))"
    using 7(1) sim_rev_room by (auto simp: sim_calm_def)
  then show ?case using run sim_message_calm [OF 7(1,2)] sim_wrote by (auto simp: sim_write_def)
next
  case (8 s k h)
  then show ?case using sim_message_calm sim_removed by (auto simp: sim_client_def sim_remove_calm)
next
  case (9 s k h ttl)
  then show ?case using sim_message_calm sim_removed by (auto simp: sim_client_def sim_remove_calm)
next
  case (10 s k h ttl)
  then show ?case by (simp add: sim_client_def sim_remove_calm)
next
  case (11 s k h)
  then show ?case using sim_message_calm sim_removed by (auto simp: sim_client_def sim_remove_calm)
next
  case (12 s h p)
  have ok: "sim_ok s" using 12 by (simp add: sim_calm_def)
  have "(map ke_key (sim_matching h p s) = []) \<longleftrightarrow> (\<forall>k. under p k \<longrightarrow> sim_cur s h k = None)"
    using sim_matching_keys(2) [OF ok, of h p] by (auto simp flip: set_empty2)
  then show ?case using 12 by (auto simp: sim_client_def)
next
  case (13 s h p)
  have ok: "sim_ok s" using 13 by (simp add: sim_calm_def)
  have "kv_watch_with_history sim_client h (p @ ''>'') s = (Inr (map Inr (mark_last (sim_matching h p s)), False), s)"
    using 13 by (simp add: sim_client_def)
  moreover have "\<exists>es tail. map Inr (mark_last (sim_matching h p s)) = map Inr es @ tail \<and> es \<noteq> [] \<and> ke_seen_current (last es)
      \<and> (\<forall>e \<in> set (butlast es). \<not> ke_seen_current e) \<and> distinct (map ke_key es)
      \<and> unmarked ` set es = {e. \<exists>k. under p k \<and> sim_cur s h k = Some e}"
    if "\<exists>k. under p k \<and> sim_cur s h k \<noteq> None"
  proof -
    have "sim_matching h p s \<noteq> []" using that sim_matching_keys(2) [OF ok, of h p] by (auto simp flip: set_empty2)
    from mark_last_props [OF this sim_matching_keys(3) [OF ok]] sim_matching_keys(1,2) [OF ok, of h p]
    show ?thesis by (intro exI [of _ "mark_last (sim_matching h p s)"] exI [of _ "[]"]) simp
  qed
  ultimately show ?case by auto
qed

section \<open>Many brokers\<close>

text \<open>The store as the user limiter calls it; a scan that does not return meets the limiter's timeout.\<close>
definition nats_user_ops ::
  "('c, 'h, 'v, 's) nats_client \<Rightarrow> 'v store_codec \<Rightarrow> datetime \<Rightarrow> ('h NatsStore \<times> 's) user_ops" where
  "nats_user_ops cl cd now = \<lparr> uo_reserve = reserve_user_slot_nats cl cd now, uo_release = release_user_slot_nats cl,
    uo_list = (\<lambda>scope user st. map_option fst (list_user_slots_nats cl cd scope user st)) \<rparr>"

lemma nats_strict_step_timely:
  "strict_step room (nats_user_ops cl cd now) scope user cap st st' \<Longrightarrow>
    strict_step room (timely_ops (reserve_user_slot_nats cl cd now) (release_user_slot_nats cl) (nats_listed cl cd)) scope user cap st st'"
  by (induction rule: strict_step.induct)
    (auto intro: strict_step.intros simp: nats_user_ops_def timely_ops_def nats_listed_def)

lemma nats_strict_run_timely:
  "(strict_step room (nats_user_ops cl cd now) scope user cap)\<^sup>*\<^sup>* st st' \<Longrightarrow>
    (strict_step room (timely_ops (reserve_user_slot_nats cl cd now) (release_user_slot_nats cl) (nats_listed cl cd)) scope user cap)\<^sup>*\<^sup>* st st'"
  by (erule rtranclp_mono [THEN predicate2D, rotated]) (blast intro: nats_strict_step_timely)

text \<open>An allocation by some broker connected to the bucket.\<close>
definition nats_alloc ::
  "('c, 'h, 'v, 's) nats_client \<Rightarrow> 'v store_codec \<Rightarrow> 'h \<Rightarrow> string \<Rightarrow> string \<Rightarrow> 's \<Rightarrow> u16 \<Rightarrow> 's \<Rightarrow> bool" where
  "nats_alloc cl cd jobs site env s slot s' \<longleftrightarrow> (\<exists>ns leases ul ns'. ns_stores ns = Some (jobs, leases, ul)
    \<and> allocate_nats_broker_slot cl cd site env (ns, s) = Some (Inr slot, ns', s'))"

lemma allocate_run:
  assumes "ns_stores ns = Some (jobs, leases, ul)"
  shows "allocate_nats_broker_slot cl cd site env (ns, s) = map_option (\<lambda>(r, s). (r, ns, s)) (retry_loop (nats_slot_attempt cl cd jobs site env) s)"
  using assms by (simp add: allocate_nats_broker_slot_def connected_handles)

context nats_kv_codec
begin

lemma nats_slot_counter:
  assumes mono: "\<forall>s s'. ok s \<longrightarrow> others s s' \<longrightarrow>
      nats_counter cd (cur s jobs (nats_broker_slot_counter_key site env)) \<le> nats_counter cd (cur s' jobs (nats_broker_slot_counter_key site env))"
  shows "slot_counter (nats_alloc cl cd jobs site env) others
    (\<lambda>s. nats_counter cd (cur s jobs (nats_broker_slot_counter_key site env))) ok"
proof (unfold_locales, goal_cases)
  case (1 s slot s')
  then have "retry_loop (nats_slot_attempt cl cd jobs site env) s = Some (Inr slot, s')"
    by (auto simp: nats_alloc_def allocate_run)
  from slot_loop_result [OF this 1(1)] show ?case by (auto simp: slot_instant_def)
next
  case (2 s s')
  then show ?case using mono others_ok by blast
qed

end

context nats_calm
begin

lemma users_strict_bound:
  assumes "nats_users_ok cur cd calm st0" "nats_slots cur st0 scope user = Map.empty"
    "(strict_step (\<lambda>st. room (snd st)) (nats_user_ops cl cd now) scope user cap)\<^sup>*\<^sup>* (st0, \<lambda>_. Out) (st, ph)"
  shows "finite (admitted ph) \<and> card (admitted ph) \<le> cap \<and> nats_slots cur st scope user = seqs ph"
proof -
  have "rank_inv cap (\<lambda>_. Out)" "seqs (\<lambda>_. Out) = Map.empty" by (auto simp: rank_inv_def seqs_def fun_eq_iff dom_def)
  then show ?thesis
    using nats_users.strict_run_inv [OF nats_strict_run_timely [OF assms(3)]] assms(1,2) rank_inv_bound [of cap ph] by simp
qed

end

section \<open>Concrete runs\<close>

definition demo_key :: string where
  "demo_key = ''jobs.bol.dev.42.017sg4fag005yaa01a04hmasw9''"

definition demo_ns :: "string NatsStore" where
  "demo_ns = \<lparr> ns_url = ''nats://nats:4222'', ns_jobs_bucket = ''bits-jobs'', ns_leases_bucket = ''bits-leases'',
    ns_user_limits_bucket = ''bits-leases-userlimits'', ns_lease_ttl = 30, ns_num_replicas = 1, ns_connect_timeout = 5,
    ns_subscription_capacity = None, ns_user_limit_tombstone_ttl = Some 6, ns_user_limit_delete_marker_ttl = None,
    ns_job_tombstone_ttl = 24, ns_job_delete_marker_ttl = None,
    ns_stores = Some (''bits-jobs'', ''bits-leases'', ''bits-leases-userlimits'') \<rparr>"

definition empty_server :: "kv_action list \<Rightarrow> kv_server" where
  "empty_server script = \<lparr> sv_entries = [], sv_seq = 0, sv_script = script \<rparr>"

definition job_server :: "kv_action list \<Rightarrow> kv_server" where
  "job_server script = sim_message ''bits-jobs'' demo_key Op_Put (StJob demo_record) (empty_server script)"

text \<open>Another broker rewrites the record that the claim is about.\<close>
definition touch :: kv_action where
  "touch = ActPut ''bits-jobs'' demo_key (StJob demo_record)"

lemma demo_ns_connected: "ns_stores demo_ns = Some (''bits-jobs'', ''bits-leases'', ''bits-leases-userlimits'')"
  by (simp add: demo_ns_def)

lemma demo_key: "nats_job_key (pjr_job_id demo_record) = Inr demo_key"
  by code_simp

lemma demo_key_valid: "valid_kv_key demo_key"
  using nats_job_key_valid [OF demo_key] .

text \<open>Scripts whose actions all satisfy \<open>Q\<close> are closed under ticks, so the laws hold for them alone.\<close>
definition sim_ok_for :: "(kv_action \<Rightarrow> bool) \<Rightarrow> kv_server \<Rightarrow> bool" where
  "sim_ok_for Q s \<longleftrightarrow> sim_ok s \<and> list_all Q (sv_script s)"

lemma sim_tick_script: "sv_script (sim_tick s) = tl (sv_script s)"
  by (auto simp: sim_tick_def sim_act_def split: list.splits kv_action.splits)

lemma list_all_tl: "list_all Q xs \<Longrightarrow> list_all Q (tl xs)"
  by (cases xs) auto

lemma sim_others_script: "list_all Q (sv_script s) \<Longrightarrow> list_all Q (sv_script ((sim_tick ^^ n) s))"
  by (induction n) (auto simp: sim_tick_script list_all_tl)

lemma sim_write_script:
  "kv_update sim_client h k v rv s = (Inr rv', s') \<Longrightarrow> sv_script s' = tl (sv_script s)"
  "kv_create sim_client h k v s = (Inr rv', s') \<Longrightarrow> sv_script s' = tl (sv_script s)"
  by (auto simp: sim_client_def sim_write_def sim_tick_script Let_def split: if_splits option.splits)

lemma sim_kv_for: "nats_kv sim_client sim_cur sim_others (sim_ok_for Q)"
proof (unfold_locales, goal_cases)
  case (3 s s')
  then show ?case using sim_kv.others_ok sim_others_script by (auto simp: sim_ok_for_def sim_others_def)
next
  case (7 s h k v rv rv' s')
  then show ?case using sim_kv.update_law [of s h k v rv rv' s'] sim_write_script(1) [OF 7(2)] list_all_tl
    by (auto simp: sim_ok_for_def)
next
  case (9 s h k v rv' s')
  then show ?case using sim_kv.create_law [of s h k v rv' s'] sim_write_script(2) [OF 9(2)] list_all_tl
    by (auto simp: sim_ok_for_def)
qed (use sim_kv.others_refl sim_kv.others_trans sim_kv.revision_pos sim_kv.revision_fresh sim_kv.entry_law
  sim_kv.update_lost sim_kv.create_lost in \<open>auto simp: sim_ok_for_def\<close>)

lemma sim_kv_codec_for: "nats_kv_codec sim_client sim_cur sim_others (sim_ok_for Q) sim_codec"
  using sim_kv_for sim_codec.round_trip_codec_axioms by (rule nats_kv_codec.intro)

definition spares :: "string \<Rightarrow> string \<Rightarrow> kv_action \<Rightarrow> bool" where
  "spares h k a \<longleftrightarrow> (case a of ActPut h' k' _ \<Rightarrow> (h', k') \<noteq> (h, k) | ActPurge h' k' \<Rightarrow> (h', k') \<noteq> (h, k))"

lemma sim_others_spare: "list_all (spares h k) (sv_script s) \<Longrightarrow> sim_cur ((sim_tick ^^ n) s) h k = sim_cur s h k"
proof (induction n)
  case (Suc n)
  have "list_all (spares h k) (sv_script ((sim_tick ^^ n) s))" using Suc.prems by (rule sim_others_script)
  then have "sim_cur (sim_tick ((sim_tick ^^ n) s)) h k = sim_cur ((sim_tick ^^ n) s) h k"
    by (auto simp: sim_tick_def sim_act_def spares_def sim_cur_message split: list.splits kv_action.splits)
  then show ?case using Suc by simp
qed simp

lemma job_server_ok: "n < 100 \<Longrightarrow> sim_ok (job_server (replicate n touch))"
  using demo_key_valid by (auto simp: job_server_def empty_server_def sim_message_def sim_ok_def sim_entry_ok_def)

lemma demo_server_ok: "sim_ok (job_server [touch, touch])"
  using job_server_ok [of 2] by (simp add: eval_nat_numeral)

definition user_entry :: "string \<Rightarrow> string \<Rightarrow> UserLimitEntry" where
  "user_entry jid owner = \<lparr> ule_scope = ''p'', ule_user = ''u'', ule_job_id = jid, ule_owner_broker_id = owner, ule_seq = 0, ule_created_at = 0 \<rparr>"

text \<open>Job \<open>i\<close> holds a slot; while this broker reserves for job \<open>j\<close>, another one reserves and releases it.\<close>
definition race_state :: "UserLimiter \<times> string NatsStore \<times> kv_server" where
  "race_state = (limiter_new \<lparr> ulc_default = Some 1, ulc_realms = [] \<rparr> ''p'' ''b'', demo_ns,
    sim_message ''bits-leases-userlimits'' (user_slot_key ''p'' ''u'' ''i'') Op_Put (StUser (user_entry ''i'' ''a''))
     (empty_server [ActPurge ''bits-jobs'' ''x'',
       ActPut ''bits-leases-userlimits'' (user_slot_key ''p'' ''u'' ''j'') (StUser (user_entry ''j'' ''a'')),
       ActPurge ''bits-leases-userlimits'' (user_slot_key ''p'' ''u'' ''j'')]))"

lemma allocate_first:
  assumes "ns_stores ns = Some (jobs, leases, ul)" "fst (nats_slot_attempt cl cd jobs site env s) = Inr (Some slot)"
  shows "\<exists>s'. allocate_nats_broker_slot cl cd site env (ns, s) = Some (Inr slot, ns, s')
    \<and> s' = snd (nats_slot_attempt cl cd jobs site env s)"
proof -
  obtain s' where "nats_slot_attempt cl cd jobs site env s = (Inr (Some slot), s')" using assms(2) by (metis prod.collapse)
  then show ?thesis unfolding allocate_run [OF assms(1)] by (simp add: retry_loop.simps [of "nats_slot_attempt cl cd jobs site env" s])
qed

lemma demo_slot_0: "fst (nats_slot_attempt sim_client sim_codec ''bits-jobs'' ''bol'' ''dev'' (job_server [touch, touch])) = Inr (Some 0)"
  by code_simp

lemma demo_slot_1: "fst (nats_slot_attempt sim_client sim_codec ''bits-jobs'' ''bol'' ''dev''
    (snd (nats_slot_attempt sim_client sim_codec ''bits-jobs'' ''bol'' ''dev'' (job_server [touch, touch])))) = Inr (Some 1)"
  by code_simp

section \<open>Properties\<close>

text \<open>C23 Claims on NATS are linearizable: a \<open>claim_if_owner\<close> that returns behaves like the atomic
  compare-and-set of the contract at one instant of the call, whatever other brokers write in between
  its reads and conditional updates, and touches no other key.  The one exception is a claim that
  lost all its races: it changes nothing and reports the expected owner as active.\<close>
theorem nats_claim_linearizable:
  assumes "nats_kv_codec cl cur others ok cd" "ns_stores ns = Some (jobs, leases, ul)" "ok s"
    "nats_claim_if_owner cl cd jid expected claimant (ns, s) = (Inr res, ns', s')"
  shows "ns' = ns \<and> (\<exists>key. nats_job_key jid = Inr key
    \<and> ((\<exists>s1. others s s1 \<and> claim_instant cur cd jobs key expected claimant res s1 s')
       \<or> (others s s' \<and> res = CR_Active expected \<and> expected \<noteq> claimant
          \<and> (\<exists>r. nats_record cd (cur s' jobs key) = Some r \<and> pjr_broker_id r = expected))))"
proof -
  obtain key where key: "nats_job_key jid = Inr key"
    using assms(4) by (auto simp: nats_claim_if_owner_def db_Inr)
  obtain r t where loop: "nats_claim_loop cl cd jobs key expected claimant 3 s = (r, t)" by (rule prod.exhaust)
  with nats_claim_run [OF assms(2) key loop] assms(4) have "r = Inr res" "t = s'" "ns' = ns" by simp_all
  with nats_kv_codec.claim_loop_linearizable [OF assms(1,3), of jobs key expected claimant 3 res s'] loop key
  show ?thesis by simp
qed

theorem nats_claim_linearizable_witness:
  "\<exists>s'. nats_claim_if_owner sim_client sim_codec (pjr_job_id demo_record) ''b'' ''x'' (demo_ns, job_server [touch, touch])
      = (Inr (CR_Claimed (demo_record\<lparr> pjr_broker_id := ''x'' \<rparr>)), demo_ns, s')
    \<and> (\<exists>s1. sim_others (job_server [touch, touch]) s1 \<and> claim_instant sim_cur sim_codec ''bits-jobs'' demo_key ''b'' ''x''
         (CR_Claimed (demo_record\<lparr> pjr_broker_id := ''x'' \<rparr>)) s1 s')"
proof -
  have "fst (nats_claim_if_owner sim_client sim_codec (pjr_job_id demo_record) ''b'' ''x'' (demo_ns, job_server [touch, touch]))
      = Inr (CR_Claimed (demo_record\<lparr> pjr_broker_id := ''x'' \<rparr>))" by code_simp
  then obtain ns' s' where run: "nats_claim_if_owner sim_client sim_codec (pjr_job_id demo_record) ''b'' ''x'' (demo_ns, job_server [touch, touch])
      = (Inr (CR_Claimed (demo_record\<lparr> pjr_broker_id := ''x'' \<rparr>)), ns', s')" by (metis prod.collapse)
  from nats_claim_linearizable [OF sim_kv_codec.nats_kv_codec_axioms demo_ns_connected demo_server_ok run] demo_key run show ?thesis
    by auto
qed

text \<open>Broker slots on NATS are never handed out twice: the slots that any number of brokers obtain
  from one bucket, others acting in between, are strictly increasing, as long as nobody resets the
  counter.\<close>
lemma nats_slots_never_shared:
  assumes "nats_kv_codec cl cur others ok cd" "ok s"
    "\<forall>s s'. ok s \<longrightarrow> others s s' \<longrightarrow>
      nats_counter cd (cur s jobs (nats_broker_slot_counter_key site env)) \<le> nats_counter cd (cur s' jobs (nats_broker_slot_counter_key site env))"
    "slot_history (nats_alloc cl cd jobs site env) others s slots s'"
  shows "sorted_wrt (<) slots \<and> distinct slots"
  by (rule slot_counter.history_distinct [OF nats_kv_codec.nats_slot_counter [OF assms(1,3)] assms(4,2)])

text \<open>C27 Slot allocation on NATS returns: the unbounded retry loop ends, with a slot or an error, when
  other brokers change the store only finitely often.\<close>
theorem nats_slot_allocation_returns:
  assumes "nats_settling cl cur others ok cd pending" "ns_stores ns = Some (jobs, leases, ul)" "ok s"
  shows "\<exists>r s'. allocate_nats_broker_slot cl cd site env (ns, s) = Some (r, ns, s')"
  using nats_settling.slot_loop_returns [OF assms(1,3), of jobs site env] allocate_run [OF assms(2), of cl cd site env s] by auto

theorem nats_slot_allocation_returns_witness:
  "\<exists>r s'. allocate_nats_broker_slot sim_client sim_codec ''bol'' ''dev'' (demo_ns, job_server [touch, touch]) = Some (r, demo_ns, s')"
  using nats_slot_allocation_returns [OF sim_settling.nats_settling_axioms demo_ns_connected demo_server_ok] .





text \<open>A claim on NATS that loses its three races answers that the expected owner is active, although the
  contract reserves that answer for an owner that no longer matches: the record is still there, owned
  by the expected, dead broker, and nobody has taken it over.\<close>
lemma nats_claim_spurious_active:
  "fst (nats_claim_if_owner sim_client sim_codec (pjr_job_id demo_record) ''b'' ''x'' (demo_ns, job_server (replicate 6 touch)))
    = Inr (CR_Active ''b'')"
  by code_simp


end
