(* ===== verification/Tikv_Store.thy ===== *)
theory Tikv_Store
  imports Shared_Store
begin

text \<open>
  The TiKV store (\<open>bits/src/db/tikv.rs\<close>).

  \<open>tikv_client\<close> is third-party code, the record \<open>tikv_client\<close> of operations on the state \<open>'s\<close> of the
  cluster and of everybody who uses it; \<open>'c\<close> is a \<open>TransactionClient\<close>, \<open>'t\<close> a \<open>Transaction\<close>, \<open>'v\<close> a
  value's bytes.  A transaction is mutable, so its operations return it.  A method works on the pair of
  the \<open>TiKvStore\<close> (its once-cell included) and the cluster.

  \<open>tikv_txn\<close> states what the code relies on, the documented behaviour of optimistic transactions: reads
  see one snapshot, a commit applies all writes at one instant, and only if no written key has changed
  since the snapshot.
\<close>

section \<open>The client\<close>

text \<open>\<open>tikv_client::Error\<close>; a key error carries whether it has a conflict.\<close>
datatype tikv_error =
    KeyError bool string
  | MultipleKeyErrors "tikv_error list"
  | ExtractedErrors "tikv_error list"
  | OtherTikvError string

fun is_write_conflict :: "tikv_error \<Rightarrow> bool" where
  "is_write_conflict (KeyError conflict _) = conflict"
| "is_write_conflict (MultipleKeyErrors errs) = list_ex is_write_conflict errs"
| "is_write_conflict (ExtractedErrors errs) = list_ex is_write_conflict errs"
| "is_write_conflict (OtherTikvError _) = False"

record ('c, 't, 'v, 's) tikv_client =
  tc_clock :: "'s \<Rightarrow> instant"
  tc_secs_f64 :: "duration \<Rightarrow> string"
  tc_display :: "tikv_error \<Rightarrow> string"
  tc_new :: "string list \<Rightarrow> 's \<Rightarrow> (tikv_error + 'c) \<times> 's"
  tc_begin_optimistic :: "'c \<Rightarrow> 's \<Rightarrow> (tikv_error + 't) \<times> 's"
  tc_get :: "'t \<Rightarrow> string \<Rightarrow> 's \<Rightarrow> (tikv_error + 'v option) \<times> 't \<times> 's"
  tc_put :: "'t \<Rightarrow> string \<Rightarrow> 'v \<Rightarrow> 's \<Rightarrow> (tikv_error + unit) \<times> 't \<times> 's"
  tc_delete :: "'t \<Rightarrow> string \<Rightarrow> 's \<Rightarrow> (tikv_error + unit) \<times> 't \<times> 's"
  tc_commit :: "'t \<Rightarrow> 's \<Rightarrow> (tikv_error + unit) \<times> 's"
  tc_rollback :: "'t \<Rightarrow> 's \<Rightarrow> (tikv_error + unit) \<times> 's"

text \<open>\<open>.await.map_err(|err| DbError::Backend(format!("<what>: {err}")))\<close>; \<open>txn_call\<close> also hands the
  transaction on.\<close>
definition tikv_call :: "('c, 't, 'v, 's) tikv_client \<Rightarrow> string \<Rightarrow> ('s \<Rightarrow> (tikv_error + 'a) \<times> 's) \<Rightarrow> 's \<Rightarrow> 'a db \<times> 's" where
  "tikv_call tc what m = backend what (\<lambda>s. apfst (map_sum (tc_display tc) id) (m s))"

definition txn_call ::
  "('c, 't, 'v, 's) tikv_client \<Rightarrow> string \<Rightarrow> ('s \<Rightarrow> (tikv_error + 'a) \<times> 't \<times> 's) \<Rightarrow> 's \<Rightarrow> ('a \<times> 't) db \<times> 's" where
  "txn_call tc what m = tikv_call tc what (\<lambda>s. case m s of (r, t, s) \<Rightarrow> (map_sum id (\<lambda>x. (x, t)) r, s))"

section \<open>The store\<close>

definition JOB_PREFIX :: string where "JOB_PREFIX = ''jobs/''"
definition BROKER_PREFIX :: string where "BROKER_PREFIX = ''brokers/''"
definition BROKER_SLOT_COUNTER_PREFIX :: string where "BROKER_SLOT_COUNTER_PREFIX = ''counters/broker_slot/''"

record 'c TiKvStore =
  tk_endpoints :: "string list"
  tk_connect_timeout :: duration
  tk_client :: "'c option"

definition tikv_new :: "string list \<Rightarrow> duration \<Rightarrow> 'c TiKvStore" where
  "tikv_new endpoints connect_timeout = \<lparr> tk_endpoints = endpoints, tk_connect_timeout = connect_timeout, tk_client = None \<rparr>"

text \<open>\<open>get_or_try_init\<close> around \<open>tokio::time::timeout\<close>: the cell is filled only by a connection in time.\<close>
definition tikv_get_client ::
  "('c, 't, 'v, 's) tikv_client \<Rightarrow> 'c TiKvStore \<times> 's \<Rightarrow> 'c db \<times> 'c TiKvStore \<times> 's" where
  "tikv_get_client tc st =
    (case st of (tk, s) \<Rightarrow>
     case tk_client tk of
       Some client \<Rightarrow> (Inr client, st)
     | None \<Rightarrow>
         (case tc_new tc (tk_endpoints tk) s of (r, s') \<Rightarrow>
            if tc_clock tc s' > tc_clock tc s + tk_connect_timeout tk
            then (Inl (Backend (''TiKV connection timed out after '' @ tc_secs_f64 tc (tk_connect_timeout tk) @ ''s'')), tk, s')
            else case r of
              Inl err \<Rightarrow> (Inl (Backend (''failed to connect to TiKV: '' @ tc_display tc err)), tk, s')
            | Inr client \<Rightarrow> (Inr client, tk\<lparr> tk_client := Some client \<rparr>, s')))"

definition on_cluster :: "('s \<Rightarrow> 'r \<times> 's) \<Rightarrow> 'n \<times> 's \<Rightarrow> 'r \<times> 'n \<times> 's" where
  "on_cluster m st = (case st of (tk, s) \<Rightarrow> case m s of (r, s) \<Rightarrow> (r, tk, s))"

definition tikv_job_key :: "string \<Rightarrow> string db" where
  "tikv_job_key jid =
    (case decode_result jid of
       Inl err \<Rightarrow> Inl (Backend (''invalid public job ID '' @ debug_str jid @ '': '' @ decode_error_display err))
     | Inr decoded \<Rightarrow> Inr (JOB_PREFIX @ di_site decoded @ ''/'' @ di_env decoded @ ''/''
         @ show_uint (uint (di_broker_slot decoded)) @ ''/'' @ jid))"

definition tikv_broker_key :: "string \<Rightarrow> string" where
  "tikv_broker_key broker_id = BROKER_PREFIX @ broker_id"

definition tikv_broker_slot_counter_key :: "string \<Rightarrow> string \<Rightarrow> string" where
  "tikv_broker_slot_counter_key site_tag env_tag = BROKER_SLOT_COUNTER_PREFIX @ site_tag @ ''/'' @ env_tag"

section \<open>Claims\<close>

text \<open>A failed rollback is only logged.\<close>
definition rolled_back :: "('c, 't, 'v, 's) tikv_client \<Rightarrow> 't \<Rightarrow> 'a \<Rightarrow> 's \<Rightarrow> 'a db \<times> 's" where
  "rolled_back tc txn x s = (case tc_rollback tc txn s of (_, s) \<Rightarrow> (Inr x, s))"

text \<open>What an attempt does with the record it read; \<open>again\<close> is \<open>continue\<close>.\<close>
definition claim_decide ::
  "('c, 't, 'v, 's) tikv_client \<Rightarrow> 'v store_codec \<Rightarrow> string \<Rightarrow> string \<Rightarrow> string \<Rightarrow> ('s \<Rightarrow> ClaimResult db \<times> 's)
    \<Rightarrow> 'v option \<times> 't \<Rightarrow> 's \<Rightarrow> ClaimResult db \<times> 's" where
  "claim_decide tc cd key expected claimant again = (\<lambda>(current, txn).
    case current of
      None \<Rightarrow> rolled_back tc txn CR_NotFound
    | Some current \<Rightarrow>
        db_try (deserialize (cd_de_job cd) current) (\<lambda>record.
        if pjr_broker_id record = claimant then rolled_back tc txn (CR_Claimed record)
        else if pjr_broker_id record \<noteq> expected then rolled_back tc txn (CR_Active (pjr_broker_id record))
        else let record = record\<lparr> pjr_broker_id := claimant \<rparr> in
          db_try (serialize (cd_ser_job cd) record) (\<lambda>val.
          db_then (txn_call tc ''put failed'' (tc_put tc txn key val)) (\<lambda>(_, txn) s.
            case tc_commit tc txn s of
              (Inr _, s) \<Rightarrow> (Inr (CR_Claimed record), s)
            | (Inl err, s) \<Rightarrow>
                if is_write_conflict err then again s
                else (Inl (Backend (''commit failed: '' @ tc_display tc err)), s)))))"

primrec claim_attempts ::
  "('c, 't, 'v, 's) tikv_client \<Rightarrow> 'v store_codec \<Rightarrow> 'c \<Rightarrow> string \<Rightarrow> string \<Rightarrow> string \<Rightarrow> string \<Rightarrow> nat \<Rightarrow> 's
    \<Rightarrow> ClaimResult db \<times> 's" where
  "claim_attempts tc cd client key jid expected claimant 0 =
    (\<lambda>s. (Inl (Conflict (''claim conflict for job '' @ [CHR 0x27] @ jid @ [CHR 0x27])), s))"
| "claim_attempts tc cd client key jid expected claimant (Suc n) =
    db_then (tikv_call tc ''begin txn failed'' (tc_begin_optimistic tc client)) (\<lambda>txn.
    db_then (txn_call tc ''get failed'' (tc_get tc txn key))
      (claim_decide tc cd key expected claimant (claim_attempts tc cd client key jid expected claimant n)))"

definition claim_with_owner ::
  "('c, 't, 'v, 's) tikv_client \<Rightarrow> 'v store_codec \<Rightarrow> string \<Rightarrow> string \<Rightarrow> string \<Rightarrow> 'c TiKvStore \<times> 's
    \<Rightarrow> ClaimResult db \<times> 'c TiKvStore \<times> 's" where
  "claim_with_owner tc cd jid expected_owner_broker_id claimant_broker_id =
    db_try (tikv_job_key jid) (\<lambda>key.
    db_then (tikv_get_client tc) (\<lambda>client.
    on_cluster (claim_attempts tc cd client key jid expected_owner_broker_id claimant_broker_id 2)))"

definition tikv_claim_if_owner ::
  "('c, 't, 'v, 's) tikv_client \<Rightarrow> 'v store_codec \<Rightarrow> string \<Rightarrow> string \<Rightarrow> string \<Rightarrow> 'c TiKvStore \<times> 's
    \<Rightarrow> ClaimResult db \<times> 'c TiKvStore \<times> 's" where
  "tikv_claim_if_owner tc cd jid expected_owner_broker_id claimant_broker_id =
    claim_with_owner tc cd jid expected_owner_broker_id claimant_broker_id"

section \<open>Writes\<close>

text \<open>One transaction that does one write.\<close>

definition tikv_commit :: "('c, 't, 'v, 's) tikv_client \<Rightarrow> 't \<Rightarrow> 's \<Rightarrow> unit db \<times> 's" where
  "tikv_commit tc txn = tikv_call tc ''commit failed'' (tc_commit tc txn)"

definition tikv_upsert_job ::
  "('c, 't, 'v, 's) tikv_client \<Rightarrow> 'v store_codec \<Rightarrow> PersistentJobRecord \<Rightarrow> 'c TiKvStore \<times> 's \<Rightarrow> unit db \<times> 'c TiKvStore \<times> 's" where
  "tikv_upsert_job tc cd record =
    db_try (tikv_job_key (pjr_job_id record)) (\<lambda>key.
    db_then (tikv_get_client tc) (\<lambda>client.
    on_cluster (
      db_then (tikv_call tc ''begin txn failed'' (tc_begin_optimistic tc client)) (\<lambda>txn.
      db_try (serialize (cd_ser_job cd) record) (\<lambda>val.
      db_then (txn_call tc ''put failed'' (tc_put tc txn key val)) (\<lambda>(_, txn).
      tikv_commit tc txn))))))"

definition tikv_delete_job ::
  "('c, 't, 'v, 's) tikv_client \<Rightarrow> string \<Rightarrow> 'c TiKvStore \<times> 's \<Rightarrow> unit db \<times> 'c TiKvStore \<times> 's" where
  "tikv_delete_job tc jid =
    db_try (tikv_job_key jid) (\<lambda>key.
    db_then (tikv_get_client tc) (\<lambda>client.
    on_cluster (
      db_then (tikv_call tc ''begin txn failed'' (tc_begin_optimistic tc client)) (\<lambda>txn.
      db_then (txn_call tc ''delete failed'' (tc_delete tc txn key)) (\<lambda>(_, txn).
      tikv_commit tc txn)))))"

definition tikv_upsert_broker_lease ::
  "('c, 't, 'v, 's) tikv_client \<Rightarrow> 'v store_codec \<Rightarrow> datetime \<Rightarrow> string \<Rightarrow> string \<Rightarrow> duration \<Rightarrow> 'c TiKvStore \<times> 's
    \<Rightarrow> unit db \<times> 'c TiKvStore \<times> 's" where
  "tikv_upsert_broker_lease tc cd now broker_id internal_poll_base_url ttl =
    db_then (tikv_get_client tc) (\<lambda>client.
    on_cluster (
      db_then (tikv_call tc ''begin txn failed'' (tc_begin_optimistic tc client)) (\<lambda>txn.
      let record = \<lparr> blr_broker_id = broker_id, blr_internal_poll_base_url = internal_poll_base_url,
        blr_lease_until = now + unwrap_or (chrono_from_std ttl) (60 * nanos_per_sec), blr_updated_at = now \<rparr> in
      db_try (serialize (cd_ser_lease cd) record) (\<lambda>val.
      db_then (txn_call tc ''put failed'' (tc_put tc txn (tikv_broker_key broker_id) val)) (\<lambda>(_, txn).
      tikv_commit tc txn)))))"

definition tikv_get_broker_lease ::
  "('c, 't, 'v, 's) tikv_client \<Rightarrow> 'v store_codec \<Rightarrow> string \<Rightarrow> 'c TiKvStore \<times> 's
    \<Rightarrow> BrokerLeaseRecord option db \<times> 'c TiKvStore \<times> 's" where
  "tikv_get_broker_lease tc cd broker_id =
    db_then (tikv_get_client tc) (\<lambda>client.
    on_cluster (
      db_then (tikv_call tc ''begin txn failed'' (tc_begin_optimistic tc client)) (\<lambda>txn.
      db_then (txn_call tc ''get failed'' (tc_get tc txn (tikv_broker_key broker_id))) (\<lambda>(val, txn).
      db_then (rolled_back tc txn ()) (\<lambda>_.
      case val of
        None \<Rightarrow> db_return None
      | Some v \<Rightarrow> db_try (deserialize (cd_de_lease cd) v) (\<lambda>record. db_return (Some record)))))))"

definition tikv_delete_broker_lease ::
  "('c, 't, 'v, 's) tikv_client \<Rightarrow> string \<Rightarrow> 'c TiKvStore \<times> 's \<Rightarrow> unit db \<times> 'c TiKvStore \<times> 's" where
  "tikv_delete_broker_lease tc broker_id =
    db_then (tikv_get_client tc) (\<lambda>client.
    on_cluster (
      db_then (tikv_call tc ''begin txn failed'' (tc_begin_optimistic tc client)) (\<lambda>txn.
      db_then (txn_call tc ''delete failed'' (tc_delete tc txn (tikv_broker_key broker_id))) (\<lambda>(_, txn).
      tikv_commit tc txn))))"

section \<open>Broker slots\<close>

text \<open>One pass of the loop: \<open>None\<close> after a write conflict.\<close>
definition tikv_slot_decide ::
  "('c, 't, 'v, 's) tikv_client \<Rightarrow> 'v store_codec \<Rightarrow> string \<Rightarrow> string \<Rightarrow> 'v option \<times> 't \<Rightarrow> 's \<Rightarrow> u16 option db \<times> 's" where
  "tikv_slot_decide tc cd site_tag env_tag = (\<lambda>(current, txn).
     db_try (case current of None \<Rightarrow> Inr 0 | Some v \<Rightarrow> deserialize (cd_de_u32 cd) v) (\<lambda>next_slot.
     if next_slot > 65535 then (\<lambda>s. case tc_rollback tc txn s of (_, s) \<Rightarrow> (Inl (SlotExhausted site_tag env_tag 65535), s))
     else db_try (serialize (cd_ser_u32 cd) (next_slot + 1)) (\<lambda>val.
       db_then (txn_call tc ''put broker slot counter failed''
           (tc_put tc txn (tikv_broker_slot_counter_key site_tag env_tag) val)) (\<lambda>(_, txn) s.
         case tc_commit tc txn s of
           (Inr _, s) \<Rightarrow> (Inr (Some (ucast next_slot)), s)
         | (Inl err, s) \<Rightarrow>
             if is_write_conflict err then (Inr None, s)
             else (Inl (Backend (''commit broker slot counter failed: '' @ tc_display tc err)), s)))))"

definition tikv_slot_attempt ::
  "('c, 't, 'v, 's) tikv_client \<Rightarrow> 'v store_codec \<Rightarrow> 'c \<Rightarrow> string \<Rightarrow> string \<Rightarrow> 's \<Rightarrow> u16 option db \<times> 's" where
  "tikv_slot_attempt tc cd client site_tag env_tag =
     db_then (tikv_call tc ''begin txn failed'' (tc_begin_optimistic tc client)) (\<lambda>txn.
     db_then (txn_call tc ''get broker slot counter failed''
       (tc_get tc txn (tikv_broker_slot_counter_key site_tag env_tag))) (tikv_slot_decide tc cd site_tag env_tag))"

definition allocate_tikv_broker_slot ::
  "('c, 't, 'v, 's) tikv_client \<Rightarrow> 'v store_codec \<Rightarrow> string \<Rightarrow> string \<Rightarrow> 'c TiKvStore \<times> 's
    \<Rightarrow> (u16 db \<times> 'c TiKvStore \<times> 's) option" where
  "allocate_tikv_broker_slot tc cd site_tag env_tag st =
    (case tikv_get_client tc st of
       (Inl e, st) \<Rightarrow> Some (Inl e, st)
     | (Inr client, tk, s) \<Rightarrow> map_option (\<lambda>(r, s). (r, tk, s)) (retry_loop (tikv_slot_attempt tc cd client site_tag env_tag) s))"

section \<open>What the store relies on\<close>

text \<open>\<open>cur s k\<close> is the committed value of a key; \<open>start t\<close> the state a transaction reads, \<open>writes t\<close> what it
  will write (\<open>None\<close> deletes).\<close>

locale tikv_txn =
  fixes tc :: "('c, 't, 'v, 's) tikv_client"
    and cur :: "'s \<Rightarrow> string \<Rightarrow> 'v option"
    and others :: "'s \<Rightarrow> 's \<Rightarrow> bool"
    and ok :: "'s \<Rightarrow> bool"
    and start :: "'t \<Rightarrow> 's"
    and writes :: "'t \<Rightarrow> string \<Rightarrow> 'v option option"
  assumes others_refl: "others s s"
    and others_trans: "others s s' \<Longrightarrow> others s' s'' \<Longrightarrow> others s s''"
    and others_ok: "ok s \<Longrightarrow> others s s' \<Longrightarrow> ok s'"
    and begin_law: "ok s \<Longrightarrow> tc_begin_optimistic tc c s = (Inr t, s') \<Longrightarrow>
      others s (start t) \<and> others (start t) s' \<and> writes t = Map.empty"
    and get_law: "ok s \<Longrightarrow> tc_get tc t k s = (Inr m, t', s') \<Longrightarrow> others s s' \<and> start t' = start t \<and> writes t' = writes t
      \<and> m = (case writes t k of Some w \<Rightarrow> w | None \<Rightarrow> cur (start t) k)"
    and put_law: "ok s \<Longrightarrow> tc_put tc t k v s = (Inr u, t', s') \<Longrightarrow>
      others s s' \<and> start t' = start t \<and> writes t' = (writes t)(k \<mapsto> Some v)"
    and delete_law: "ok s \<Longrightarrow> tc_delete tc t k s = (Inr u, t', s') \<Longrightarrow>
      others s s' \<and> start t' = start t \<and> writes t' = (writes t)(k \<mapsto> None)"
    and commit_law: "ok s \<Longrightarrow> others (start t) s \<Longrightarrow> tc_commit tc t s = (Inr u, s') \<Longrightarrow>
      \<exists>s1. others s s1 \<and> (\<forall>k \<in> dom (writes t). cur s1 k = cur (start t) k)
        \<and> cur s' = (\<lambda>k. case writes t k of Some w \<Rightarrow> w | None \<Rightarrow> cur s1 k) \<and> ok s'"
    and commit_conflict: "ok s \<Longrightarrow> tc_commit tc t s = (Inl e, s') \<Longrightarrow> is_write_conflict e \<Longrightarrow> others s s'"
    and rollback_law: "ok s \<Longrightarrow> tc_rollback tc t s = (r, s') \<Longrightarrow> others s s'"

section \<open>Claims are linearizable\<close>

definition tikv_record :: "'v store_codec \<Rightarrow> 'v option \<Rightarrow> PersistentJobRecord option" where
  "tikv_record cd m = Option.bind m (\<lambda>v. case cd_de_job cd v of Inl _ \<Rightarrow> None | Inr r \<Rightarrow> Some r)"

definition tikv_claim_instant ::
  "('s \<Rightarrow> string \<Rightarrow> 'v option) \<Rightarrow> 'v store_codec \<Rightarrow> string \<Rightarrow> string \<Rightarrow> string \<Rightarrow> ClaimResult \<Rightarrow> 's \<Rightarrow> 's \<Rightarrow> bool" where
  "tikv_claim_instant cur cd k expected claimant res s s' \<longleftrightarrow>
    atomic_claim expected claimant (tikv_record cd (cur s k)) = (res, tikv_record cd (cur s' k))
    \<and> (\<forall>k'. k' \<noteq> k \<longrightarrow> cur s' k' = cur s k')
    \<and> (tikv_record cd (cur s k) = tikv_record cd (cur s' k) \<longrightarrow> s' = s)"

lemma tikv_call_run:
  "m s = (Inr x, s') \<Longrightarrow> tikv_call tc what m s = (Inr x, s')"
  "m s = (Inl e, s') \<Longrightarrow> tikv_call tc what m s = (Inl (Backend (what @ '': '' @ tc_display tc e)), s')"
  by (simp_all add: tikv_call_def backend_def)

lemma txn_call_run:
  "m s = (Inr x, t, s') \<Longrightarrow> txn_call tc what m s = (Inr (x, t), s')"
  "m s = (Inl e, t, s') \<Longrightarrow> txn_call tc what m s = (Inl (Backend (what @ '': '' @ tc_display tc e)), s')"
  by (simp_all add: txn_call_def tikv_call_run)

text \<open>Opening a transaction and reading one key: a backend error, or the rest of the method goes on.\<close>
lemma txn_read_cases:
  fixes tc :: "('c, 't, 'v, 's) tikv_client"
  obtains (fails) msg s' where "db_then (tikv_call tc b (tc_begin_optimistic tc client)) (\<lambda>txn.
      db_then (txn_call tc g (tc_get tc txn key)) f) s = (Inl (Backend msg), s')"
  | (reads) t s1 m t1 s2 where "tc_begin_optimistic tc client s = (Inr t, s1)" "tc_get tc t key s1 = (Inr m, t1, s2)"
      "db_then (tikv_call tc b (tc_begin_optimistic tc client)) (\<lambda>txn. db_then (txn_call tc g (tc_get tc txn key)) f) s = f (m, t1) s2"
proof -
  obtain r0 s1 where b: "tc_begin_optimistic tc client s = (r0, s1)" by (rule prod.exhaust)
  show thesis
  proof (cases r0)
    case (Inl e)
    then show thesis using b by (intro fails) (simp add: db_then_def tikv_call_run)
  next
    case (Inr t)
    obtain r1 t1 s2 where g: "tc_get tc t key s1 = (r1, t1, s2)" by (metis prod.exhaust)
    show thesis
    proof (cases r1)
      case e: (Inl e)
      then show thesis using b Inr g by (intro fails) (simp add: db_then_def tikv_call_run txn_call_run)
    next
      case m: (Inr m)
      show thesis by (rule reads [OF b [unfolded Inr] g [unfolded m]]) (use b Inr g m in \<open>simp add: db_then_def tikv_call_run txn_call_run\<close>)
    qed
  qed
qed

text \<open>Then the attempt fails with a backend error, rolls back, or contends for the record.\<close>
lemma claim_decide_cases:
  fixes tc :: "('c, 't, 'v, 's) tikv_client"
  obtains (fails) msg s' where "claim_decide tc cd key expected claimant again (m, t1) s2 = (Inl (Backend msg), s')"
  | (settles) x s3 where "tc_rollback tc t1 s2 = (x, s3)" "snd (atomic_claim expected claimant (tikv_record cd m)) = tikv_record cd m"
      "claim_decide tc cd key expected claimant again (m, t1) s2 = (Inr (fst (atomic_claim expected claimant (tikv_record cd m))), s3)"
  | (contends) v r val u t2 s3 where "m = Some v" "cd_de_job cd v = Inr r" "pjr_broker_id r = expected" "expected \<noteq> claimant"
      "cd_ser_job cd (r\<lparr> pjr_broker_id := claimant \<rparr>) = Inr val" "tc_put tc t1 key val s2 = (Inr u, t2, s3)"
      "claim_decide tc cd key expected claimant again (m, t1) s2 = (case tc_commit tc t2 s3 of
         (Inr _, s) \<Rightarrow> (Inr (CR_Claimed (r\<lparr> pjr_broker_id := claimant \<rparr>)), s)
       | (Inl err, s) \<Rightarrow> if is_write_conflict err then again s
           else (Inl (Backend (''commit failed: '' @ tc_display tc err)), s))"
proof -
  obtain x s3 where rb: "tc_rollback tc t1 s2 = (x, s3)" by (rule prod.exhaust)
  consider (none) "m = None" | (bad) v e where "m = Some v" "cd_de_job cd v = Inl e"
    | (kept) v r where "m = Some v" "cd_de_job cd v = Inr r" "\<not> (pjr_broker_id r = expected \<and> expected \<noteq> claimant)"
    | (take) v r where "m = Some v" "cd_de_job cd v = Inr r" "pjr_broker_id r = expected" "expected \<noteq> claimant"
    by (metis option.exhaust sum.exhaust)
  then show thesis
  proof cases
    case none
    show thesis by (rule settles [OF rb]) (simp_all add: claim_decide_def none rolled_back_def rb atomic_claim_def tikv_record_def)
  next
    case bad
    show thesis by (rule fails) (simp add: claim_decide_def bad db_try_def deserialize_def)
  next
    case kept
    show thesis by (rule settles [OF rb])
        (use kept(3) in \<open>auto simp: claim_decide_def kept(1,2) db_try_def deserialize_def rolled_back_def rb atomic_claim_def tikv_record_def\<close>)
  next
    case take
    show thesis
    proof (cases "cd_ser_job cd (r\<lparr> pjr_broker_id := claimant \<rparr>)")
      case (Inl e)
      then show thesis using take by (intro fails) (simp add: claim_decide_def db_try_def deserialize_def serialize_def Let_def)
    next
      case sj: (Inr val)
      obtain r2 t2 s4 where p: "tc_put tc t1 key val s2 = (r2, t2, s4)" by (metis prod.exhaust)
      show thesis
      proof (cases r2)
        case (Inl e)
        then show thesis using sj p take
          by (intro fails) (simp add: claim_decide_def db_try_def deserialize_def serialize_def Let_def db_then_def txn_call_run)
      next
        case (Inr u)
        show thesis by (rule contends [OF take(1-4) sj p [unfolded Inr]])
            (use sj p Inr take in \<open>simp add: claim_decide_def db_try_def deserialize_def serialize_def Let_def db_then_def txn_call_run\<close>)
      qed
    qed
  qed
qed

locale tikv_txn_codec = tikv_txn tc cur others ok start writes + round_trip_codec cd
  for tc :: "('c, 't, 'v, 's) tikv_client" and cur others ok start writes and cd :: "'v store_codec"
begin

lemma read_snapshot:
  assumes "ok s" "tc_begin_optimistic tc client s = (Inr t, s1)" "tc_get tc t key s1 = (Inr m, t1, s2)"
  shows "others s (start t1)" "others (start t1) s2" "writes t1 = Map.empty" "m = cur (start t1) key" "ok (start t1)" "ok s2"
proof -
  have b: "others s (start t)" "others (start t) s1" "writes t = Map.empty" using begin_law [OF assms(1,2)] by auto
  have ok: "ok (start t)" "ok s1" using others_ok assms(1) b by blast+
  have g: "others s1 s2" "start t1 = start t" "writes t1 = writes t" "m = cur (start t) key"
    using get_law [OF ok(2) assms(3)] b(3) by auto
  show "others s (start t1)" "others (start t1) s2" "writes t1 = Map.empty" "m = cur (start t1) key" "ok (start t1)" "ok s2"
    using b ok g others_trans [OF b(2) g(1)] others_ok [OF ok(2) g(1)] by simp_all
qed

text \<open>Writing one key and committing it: the key still has the value of the snapshot.\<close>
lemma write_commit:
  assumes "ok s2" "others (start t1) s2" "writes t1 = Map.empty" "tc_put tc t1 key val s2 = (Inr u, t2, s3)" "tc_commit tc t2 s3 = (Inr w, s')"
  shows "\<exists>s4. others s2 s4 \<and> cur s4 key = cur (start t1) key \<and> cur s' = (cur s4)(key \<mapsto> val) \<and> ok s'"
proof -
  have p: "others s2 s3" "start t2 = start t1" "writes t2 = [key \<mapsto> Some val]" using put_law [OF assms(1,4)] assms(3) by auto
  have "ok s3" "others (start t2) s3" using others_ok [OF assms(1) p(1)] others_trans [OF assms(2) p(1)] p(2) by simp_all
  from commit_law [OF this assms(5)] obtain s4 where s4: "others s3 s4" "\<forall>k \<in> dom (writes t2). cur s4 k = cur (start t2) k"
    "cur s' = (\<lambda>k. case writes t2 k of Some w \<Rightarrow> w | None \<Rightarrow> cur s4 k)" "ok s'" by blast
  have "cur s' = (cur s4)(key \<mapsto> val)" using s4(3) p(3) by (auto simp: fun_eq_iff)
  then show ?thesis using s4 p(2,3) others_trans [OF p(1) s4(1)] by auto
qed

lemma claim_attempts_linearizable:
  "ok s \<Longrightarrow> claim_attempts tc cd client key jid expected claimant n s = (r, s') \<Longrightarrow>
    case r of
      Inr res \<Rightarrow> \<exists>s1 s2. others s s1 \<and> tikv_claim_instant cur cd key expected claimant res s1 s2 \<and> others s2 s'
    | Inl (Conflict _) \<Rightarrow> others s s'
    | Inl _ \<Rightarrow> True"
proof (induction n arbitrary: s)
  case 0
  then show ?case using others_refl by auto
next
  case (Suc n)
  let ?again = "claim_attempts tc cd client key jid expected claimant n"
  show ?case
  proof (cases rule: txn_read_cases [of tc "''begin txn failed''" client "''get failed''" key
        "claim_decide tc cd key expected claimant ?again" s])
    case (fails msg s'')
    then show ?thesis using Suc.prems(2) by auto
  next
    case (reads t s1 m t1 s2)
    note snap = read_snapshot [OF Suc.prems(1) reads(1,2)]
    have run: "(r, s') = claim_decide tc cd key expected claimant ?again (m, t1) s2"
      using Suc.prems(2) reads(3) by simp
    show ?thesis
    proof (cases rule: claim_decide_cases [of tc cd key expected claimant ?again m t1 s2])
      case (fails msg s'')
      then show ?thesis using run by auto
    next
      case (settles x s3)
      have "tikv_claim_instant cur cd key expected claimant (fst (atomic_claim expected claimant (tikv_record cd m))) (start t1) (start t1)"
        using settles(2) snap(4) by (auto simp: tikv_claim_instant_def prod_eq_iff)
      moreover have "others (start t1) s3" using rollback_law [OF snap(6) settles(1)] snap(2) others_trans by blast
      ultimately show ?thesis using run settles(3) snap(1) by auto
    next
      case (contends v rc val u t2 s3)
      obtain c s4 where c: "tc_commit tc t2 s3 = (c, s4)" by (rule prod.exhaust)
      show ?thesis
      proof (cases c)
        case (Inr w)
        obtain s5 where s5: "others s2 s5" "cur s5 key = cur (start t1) key" "cur s4 = (cur s5)(key \<mapsto> val)"
          using write_commit [OF snap(6,2,3) contends(6) c [unfolded Inr]] by blast
        have "rc\<lparr> pjr_broker_id := claimant \<rparr> \<noteq> rc" using contends(3,4) by (cases rc) auto
        moreover have "cur s5 key = Some v" using s5(2) snap(4) contends(1) by simp
        then have "tikv_record cd (cur s5 key) = Some rc" "tikv_record cd (cur s4 key) = Some (rc\<lparr> pjr_broker_id := claimant \<rparr>)"
          using s5(3) contends(2) ser_job_de [OF contends(5)] by (simp_all add: tikv_record_def)
        ultimately have "tikv_claim_instant cur cd key expected claimant (CR_Claimed (rc\<lparr> pjr_broker_id := claimant \<rparr>)) s5 s4"
          using s5(3) contends(3,4) by (simp add: tikv_claim_instant_def atomic_claim_def)
        moreover have "others s s5" using snap(1,2) s5(1) others_trans by blast
        ultimately show ?thesis using run contends(7) c Inr others_refl by auto
      next
        case (Inl e)
        have "others s s3" "ok s3" using put_law [OF snap(6) contends(6)] snap(1,2,6) others_trans others_ok by blast+
        show ?thesis
        proof (cases "is_write_conflict e")
          case True
          then have "others s s4" "ok s4" using commit_conflict [OF \<open>ok s3\<close>] c Inl \<open>others s s3\<close> \<open>ok s3\<close> others_trans others_ok by blast+
          moreover have "?again s4 = (r, s')" using run contends(7) c Inl True by simp
          ultimately show ?thesis using Suc.IH [of s4] others_trans by (fastforce split: sum.splits DbError.splits)
        qed (use run contends(7) c Inl in simp)
      qed
    qed
  qed
qed

end

section \<open>Slot allocation\<close>

definition tikv_next_slot :: "'v store_codec \<Rightarrow> 'v option \<Rightarrow> u32" where
  "tikv_next_slot cd m = (case m of None \<Rightarrow> 0 | Some v \<Rightarrow> (case cd_de_u32 cd v of Inl _ \<Rightarrow> 0 | Inr n \<Rightarrow> n))"

lemma tikv_slot_decide_cases:
  fixes tc :: "('c, 't, 'v, 's) tikv_client"
  obtains (fails) err s' where "tikv_slot_decide tc cd site env (m, t1) s2 = (Inl err, s')"
  | (takes) val u t2 s3 where "\<not> tikv_next_slot cd m > 65535" "cd_ser_u32 cd (tikv_next_slot cd m + 1) = Inr val"
      "tc_put tc t1 (tikv_broker_slot_counter_key site env) val s2 = (Inr u, t2, s3)"
      "tikv_slot_decide tc cd site env (m, t1) s2 = (case tc_commit tc t2 s3 of
         (Inr _, s) \<Rightarrow> (Inr (Some (ucast (tikv_next_slot cd m))), s)
       | (Inl err, s) \<Rightarrow> if is_write_conflict err then (Inr None, s)
           else (Inl (Backend (''commit broker slot counter failed: '' @ tc_display tc err)), s))"
proof -
  define n where "n = (case m of None \<Rightarrow> Inr 0 | Some v \<Rightarrow> deserialize (cd_de_u32 cd) v)"
  have run: "tikv_slot_decide tc cd site env (m, t1) s2 = db_try n (\<lambda>next_slot.
     if next_slot > 65535 then (\<lambda>s. case tc_rollback tc t1 s of (_, s) \<Rightarrow> (Inl (SlotExhausted site env 65535), s))
     else db_try (serialize (cd_ser_u32 cd) (next_slot + 1)) (\<lambda>val.
       db_then (txn_call tc ''put broker slot counter failed''
           (tc_put tc t1 (tikv_broker_slot_counter_key site env) val)) (\<lambda>(_, txn) s.
         case tc_commit tc txn s of
           (Inr _, s) \<Rightarrow> (Inr (Some (ucast next_slot)), s)
         | (Inl err, s) \<Rightarrow>
             if is_write_conflict err then (Inr None, s)
             else (Inl (Backend (''commit broker slot counter failed: '' @ tc_display tc err)), s)))) s2"
    by (simp add: tikv_slot_decide_def n_def)
  show thesis
  proof (cases n)
    case (Inl e)
    then show thesis by (intro fails) (simp add: run db_try_def)
  next
    case (Inr w)
    then have w: "tikv_next_slot cd m = w" by (auto simp: n_def tikv_next_slot_def split: option.splits)
    consider (full) "w > 65535" | (bad) e where "\<not> w > 65535" "cd_ser_u32 cd (w + 1) = Inl e"
      | (go) val where "\<not> w > 65535" "cd_ser_u32 cd (w + 1) = Inr val" by (cases "cd_ser_u32 cd (w + 1)") auto
    then show thesis
    proof cases
      case full
      obtain x s' where "tc_rollback tc t1 s2 = (x, s')" by (rule prod.exhaust)
      then show thesis using full by (intro fails) (simp add: run Inr db_try_def)
    next
      case bad
      then show thesis by (intro fails) (simp add: run Inr db_try_def serialize_def)
    next
      case go
      obtain r2 t2 s3 where p: "tc_put tc t1 (tikv_broker_slot_counter_key site env) val s2 = (r2, t2, s3)" by (metis prod.exhaust)
      show thesis
      proof (cases r2)
        case e: (Inl e)
        then show thesis using go p by (intro fails) (simp add: run Inr db_try_def serialize_def db_then_def txn_call_run)
      next
        case u: (Inr u)
        show thesis by (rule takes [of val u t2 s3, unfolded w])
            (use go p u in \<open>simp_all add: run Inr db_try_def serialize_def db_then_def txn_call_run\<close>)
      qed
    qed
  qed
qed

definition tikv_slot_instant ::
  "('s \<Rightarrow> string \<Rightarrow> 'v option) \<Rightarrow> 'v store_codec \<Rightarrow> string \<Rightarrow> nat \<Rightarrow> 's \<Rightarrow> 's \<Rightarrow> bool" where
  "tikv_slot_instant cur cd k n s s' \<longleftrightarrow>
    n < 65536 \<and> unat (tikv_next_slot cd (cur s k)) = n \<and> unat (tikv_next_slot cd (cur s' k)) = n + 1
    \<and> (\<forall>k'. k' \<noteq> k \<longrightarrow> cur s' k' = cur s k')"

context tikv_txn_codec
begin

lemma tikv_slot_attempt_result:
  assumes "ok s" "tikv_slot_attempt tc cd client site env s = (Inr r, s')"
  shows "(\<exists>slot s1. r = Some slot \<and> others s s1 \<and> ok s'
      \<and> tikv_slot_instant cur cd (tikv_broker_slot_counter_key site env) (unat slot) s1 s')
    \<or> (r = None \<and> others s s')"
proof -
  let ?key = "tikv_broker_slot_counter_key site env"
  show ?thesis
  proof (cases rule: txn_read_cases [of tc "''begin txn failed''" client "''get broker slot counter failed''" ?key
        "tikv_slot_decide tc cd site env" s])
    case (fails msg s'')
    then show ?thesis using assms(2) by (simp add: tikv_slot_attempt_def)
  next
    case (reads t s1 m t1 s2)
    note snap = read_snapshot [OF assms(1) reads(1,2)]
    have run: "(Inr r, s') = tikv_slot_decide tc cd site env (m, t1) s2"
      using assms(2) reads(3) by (simp add: tikv_slot_attempt_def)
    show ?thesis
    proof (cases rule: tikv_slot_decide_cases [of tc cd site env m t1 s2])
      case (fails err s'')
      then show ?thesis using run by simp
    next
      case (takes val u t2 s3)
      obtain c s4 where c: "tc_commit tc t2 s3 = (c, s4)" by (rule prod.exhaust)
      show ?thesis
      proof (cases c)
        case (Inr w)
        obtain s5 where s5: "others s2 s5" "cur s5 ?key = cur (start t1) ?key" "cur s4 = (cur s5)(?key \<mapsto> val)" "ok s4"
          using write_commit [OF snap(6,2,3) takes(3) c [unfolded Inr]] by blast
        let ?n = "tikv_next_slot cd m"
        have lt: "unat ?n < 65536" using takes(1) by (simp add: word_less_nat_alt)
        have "unat (ucast ?n :: u16) = unat ?n" using lt by (simp add: unsigned_ucast_eq take_bit_nat_eq_self)
        moreover have "unat (?n + 1) = Suc (unat ?n)" using lt by (simp add: unat_word_ariths)
        moreover have "tikv_next_slot cd (cur s4 ?key) = ?n + 1"
          using s5(3) ser_u32_de [OF takes(2)] by (simp add: tikv_next_slot_def)
        moreover have "tikv_next_slot cd (cur s5 ?key) = ?n" using s5(2) snap(4) by simp
        ultimately have "tikv_slot_instant cur cd ?key (unat (ucast ?n :: u16)) s5 s4"
          using lt s5(3) by (simp add: tikv_slot_instant_def)
        moreover have "others s s5" using snap(1,2) s5(1) others_trans by blast
        ultimately show ?thesis using run takes(4) c Inr s5(4) by auto
      next
        case (Inl e)
        have s3: "others s s3" "ok s3" using put_law [OF snap(6) takes(3)] snap(1,2,6) others_trans others_ok by blast+
        have "is_write_conflict e" "r = None" "s' = s4" using run takes(4) c Inl by (auto split: if_splits)
        then show ?thesis using commit_conflict [OF s3(2)] c Inl s3(1) others_trans by blast
      qed
    qed
  qed
qed

lemma tikv_slot_loop_result:
  assumes "retry_loop (tikv_slot_attempt tc cd client site env) s = Some (Inr slot, s')" "ok s"
  shows "\<exists>s1. others s s1 \<and> ok s' \<and> tikv_slot_instant cur cd (tikv_broker_slot_counter_key site env) (unat slot) s1 s'"
  using assms
proof (rule retry_loop_result [where I = ok], goal_cases)
  case (1 s slot s')
  then show ?case using tikv_slot_attempt_result [OF 1] by blast
next
  case (2 s s1)
  then show ?case using tikv_slot_attempt_result [OF 2] others_ok by blast
next
  case (3 s s1 slot s')
  then show ?case using tikv_slot_attempt_result [OF 3(1,2)] others_trans by blast
qed

end

end
