(* ===== verification/Tikv_Contract.thy ===== *)
theory Tikv_Contract
  imports Tikv_Store
begin

text \<open>
  The TiKV store fulfils the job contract when the cluster is healthy and nobody else uses it meanwhile
  (\<open>tikv_calm\<close>), and its allocation loop ends when others stop interfering (\<open>tikv_settling\<close>).
\<close>

section \<open>A healthy cluster\<close>

locale tikv_settling = tikv_txn_codec tc cur others ok start writes cd
  for tc :: "('c, 't, 'v, 's) tikv_client" and cur others ok start writes and cd :: "'v store_codec" +
  fixes pending :: "'s \<Rightarrow> nat"
  assumes pending_mono: "ok s \<Longrightarrow> others s s' \<Longrightarrow> pending s' \<le> pending s"
    and pending_conflict: "ok (start t) \<Longrightarrow> others (start t) s \<Longrightarrow> tc_commit tc t s = (Inl e, s') \<Longrightarrow> is_write_conflict e \<Longrightarrow>
      pending s' < pending (start t)"

locale tikv_calm = tikv_txn_codec tc cur others ok start writes cd
  for tc :: "('c, 't, 'v, 's) tikv_client" and cur others ok start writes and cd :: "'v store_codec" +
  fixes calm :: "'s \<Rightarrow> bool"
  assumes calm_ok: "calm s \<Longrightarrow> ok s"
    and calm_alone: "calm s \<Longrightarrow> others s s' \<Longrightarrow> cur s' = cur s"
    and calm_begin: "calm s \<Longrightarrow> \<exists>t. tc_begin_optimistic tc c s = (Inr t, s) \<and> start t = s"
    and calm_get: "calm s \<Longrightarrow> \<exists>m t'. tc_get tc t k s = (Inr m, t', s)"
    and calm_put: "calm s \<Longrightarrow> \<exists>u t'. tc_put tc t k v s = (Inr u, t', s)"
    and calm_delete: "calm s \<Longrightarrow> \<exists>u t'. tc_delete tc t k s = (Inr u, t', s)"
    and calm_commit: "calm s \<Longrightarrow> start t = s \<Longrightarrow> \<exists>u s'. tc_commit tc t s = (Inr u, s') \<and> calm s'"
    and calm_rollback: "calm s \<Longrightarrow> \<exists>r. tc_rollback tc t s = (r, s)"

section \<open>Allocation returns\<close>

context tikv_settling
begin

lemma tikv_slot_attempt_pending:
  assumes "ok s" "tikv_slot_attempt tc cd client site env s = (Inr None, s')"
  shows "pending s' < pending s"
proof (cases rule: txn_read_cases [of tc "''begin txn failed''" client "''get broker slot counter failed''"
      "tikv_broker_slot_counter_key site env" "tikv_slot_decide tc cd site env" s])
  case (fails msg s'')
  then show ?thesis using assms(2) by (simp add: tikv_slot_attempt_def)
next
  case (reads t s1 m t1 s2)
  note snap = read_snapshot [OF assms(1) reads(1,2)]
  have run: "(Inr None, s') = tikv_slot_decide tc cd site env (m, t1) s2"
    using assms(2) reads(3) by (simp add: tikv_slot_attempt_def)
  show ?thesis
  proof (cases rule: tikv_slot_decide_cases [of tc cd site env m t1 s2])
    case (fails err s'')
    then show ?thesis using run by simp
  next
    case (takes val u t2 s3)
    have p: "others s2 s3" "start t2 = start t1" using put_law [OF snap(6) takes(3)] by auto
    obtain c s4 where c: "tc_commit tc t2 s3 = (c, s4)" by (rule prod.exhaust)
    then obtain e where e: "c = Inl e" "is_write_conflict e" "s' = s4"
      using run takes(4) by (cases c) (auto split: if_splits)
    have "others (start t2) s3" using others_trans [OF snap(2) p(1)] p(2) by simp
    then have "pending s4 < pending (start t2)"
      using pending_conflict [of t2 s3 e s4] c e snap(5) p(2) by simp
    then show ?thesis using pending_mono [OF assms(1) snap(1)] p(2) e(3) by simp
  qed
qed

lemma tikv_slot_loop_returns:
  "ok s \<Longrightarrow> \<exists>r s'. retry_loop (tikv_slot_attempt tc cd client site env) s = Some (r, s')"
proof (rule retry_loop_returns [where I = ok and m = pending])
  fix s s1 assume "ok s" "tikv_slot_attempt tc cd client site env s = (Inr None, s1)"
  then show "ok s1 \<and> pending s1 < pending s"
    using tikv_slot_attempt_pending tikv_slot_attempt_result [of s client site env None s1] others_ok by blast
qed

end

section \<open>The job store contract\<close>

definition tikv_lookup ::
  "('s \<Rightarrow> string \<Rightarrow> 'v option) \<Rightarrow> 'v store_codec \<Rightarrow> 'c TiKvStore \<times> 's \<Rightarrow> string \<rightharpoonup> PersistentJobRecord" where
  "tikv_lookup cur cd st jid = (case tikv_job_key jid of Inl _ \<Rightarrow> None | Inr key \<Rightarrow> tikv_record cd (cur (snd st) key))"

text \<open>The store is connected and every job record can be read.\<close>
definition tikv_jobs_ok ::
  "('s \<Rightarrow> string \<Rightarrow> 'v option) \<Rightarrow> 'v store_codec \<Rightarrow> ('s \<Rightarrow> bool) \<Rightarrow> 'c TiKvStore \<times> 's \<Rightarrow> bool" where
  "tikv_jobs_ok cur cd calm st \<longleftrightarrow> calm (snd st) \<and> (\<exists>client. tk_client (fst st) = Some client)
    \<and> (\<forall>jid key v. tikv_job_key jid = Inr key \<longrightarrow> cur (snd st) key = Some v \<longrightarrow> (\<exists>r. cd_de_job cd v = Inr r))"

lemma tikv_job_key_total: "valid_job_id jid \<longleftrightarrow> (\<exists>k. tikv_job_key jid = Inr k)"
  by (auto simp: valid_job_id_def tikv_job_key_def isl_def split: sum.splits)

lemma tikv_job_key_suffix: "tikv_job_key jid = Inr k \<Longrightarrow> \<exists>p. k = p @ jid"
  by (auto simp: tikv_job_key_def split: sum.splits)

lemma tikv_job_key_inj:
  assumes "tikv_job_key a = Inr k" "tikv_job_key b = Inr k"
  shows "a = b"
proof -
  have "length a = length b" using assms tikv_job_key_total valid_job_id_length by metis
  moreover obtain p q where "k = p @ a" "k = q @ b" using tikv_job_key_suffix [OF assms(1)] tikv_job_key_suffix [OF assms(2)] by blast
  ultimately show ?thesis by (metis append_eq_append_conv)
qed

lemma tikv_connected:
  "tk_client tk = Some client \<Longrightarrow> db_then (tikv_get_client tc) (\<lambda>client. on_cluster (f client)) (tk, s)
    = (case f client s of (r, s) \<Rightarrow> (r, tk, s))"
  by (simp add: tikv_get_client_def db_then_def on_cluster_def)

lemma tikv_jobs_change:
  assumes "tikv_jobs_ok cur cd calm (tk, s)" "tikv_job_key jid = Inr key" "calm s'" "cur s' = (cur s)(key := m)"
    "\<And>v. m = Some v \<Longrightarrow> \<exists>r. cd_de_job cd v = Inr r"
  shows "tikv_jobs_ok cur cd calm (tk, s') \<and> tikv_lookup cur cd (tk, s') = (tikv_lookup cur cd (tk, s))(jid := tikv_record cd m)"
proof
  show "tikv_jobs_ok cur cd calm (tk, s')" using assms by (auto simp: tikv_jobs_ok_def)
  have "tikv_lookup cur cd (tk, s') j = ((tikv_lookup cur cd (tk, s))(jid := tikv_record cd m)) j" for j
  proof (cases "j = jid")
    case False
    then have "k \<noteq> key" if "tikv_job_key j = Inr k" for k using that assms(2) tikv_job_key_inj by blast
    with False assms(4) show ?thesis by (auto simp: tikv_lookup_def split: sum.splits)
  qed (use assms(2,4) in \<open>simp add: tikv_lookup_def\<close>)
  then show "tikv_lookup cur cd (tk, s') = (tikv_lookup cur cd (tk, s))(jid := tikv_record cd m)" by blast
qed

context tikv_calm
begin

text \<open>A transaction with one write, alone.\<close>
lemma calm_write:
  assumes "calm s" "start t1 = s" "writes t1 = [k \<mapsto> w]"
  shows "\<exists>u s'. tc_commit tc t1 s = (Inr u, s') \<and> calm s' \<and> cur s' = (cur s)(k := w)"
proof -
  obtain u s' where c: "tc_commit tc t1 s = (Inr u, s')" "calm s'" using calm_commit [OF assms(1,2)] by blast
  obtain s1 where s1: "others s s1" "cur s' = (\<lambda>k. case writes t1 k of Some w \<Rightarrow> w | None \<Rightarrow> cur s1 k)"
    using commit_law [OF calm_ok [OF assms(1)] _ c(1)] others_refl assms(2) by auto
  have "cur s' = (cur s)(k := w)" using s1(2) calm_alone [OF assms(1) s1(1)] assms(3) by (auto simp: fun_eq_iff)
  with c show ?thesis by blast
qed

lemma calm_begin_write:
  assumes "calm s"
  obtains t where "tc_begin_optimistic tc c s = (Inr t, s)" "start t = s" "writes t = Map.empty"
proof -
  obtain t where "tc_begin_optimistic tc c s = (Inr t, s)" "start t = s" using calm_begin [OF assms] by blast
  with begin_law [OF calm_ok [OF assms]] that show thesis by blast
qed

lemma calm_put_commit:
  assumes "calm s" "start t = s" "writes t = Map.empty"
  shows "\<exists>u t1 w s'. tc_put tc t k v s = (Inr u, t1, s) \<and> tc_commit tc t1 s = (Inr w, s') \<and> calm s' \<and> cur s' = (cur s)(k \<mapsto> v)"
proof -
  obtain u t1 where p: "tc_put tc t k v s = (Inr u, t1, s)" using calm_put [OF assms(1)] by blast
  have "start t1 = s" "writes t1 = [k \<mapsto> Some v]" using put_law [OF calm_ok [OF assms(1)] p] assms(2,3) by auto
  from calm_write [OF assms(1) this] p show ?thesis by blast
qed

lemma calm_delete_commit:
  assumes "calm s" "start t = s" "writes t = Map.empty"
  shows "\<exists>u t1 w s'. tc_delete tc t k s = (Inr u, t1, s) \<and> tc_commit tc t1 s = (Inr w, s') \<and> calm s' \<and> cur s' = (cur s)(k := None)"
proof -
  obtain u t1 where p: "tc_delete tc t k s = (Inr u, t1, s)" using calm_delete [OF assms(1)] by blast
  have "start t1 = s" "writes t1 = [k \<mapsto> None]" using delete_law [OF calm_ok [OF assms(1)] p] assms(2,3) by auto
  from calm_write [OF assms(1) this] p show ?thesis by blast
qed

lemma calm_upsert_job:
  assumes ok: "tikv_jobs_ok cur cd calm st" and valid: "valid_job_id (pjr_job_id r)"
  shows "fst (tikv_upsert_job tc cd r st) = Inr () \<and> tikv_jobs_ok cur cd calm (snd (tikv_upsert_job tc cd r st))
    \<and> tikv_lookup cur cd (snd (tikv_upsert_job tc cd r st)) = (tikv_lookup cur cd st)(pjr_job_id r \<mapsto> r)"
proof -
  obtain tk s where st: "st = (tk, s)" by (rule prod.exhaust)
  obtain client where c: "calm s" "tk_client tk = Some client" using ok st by (auto simp: tikv_jobs_ok_def)
  obtain key where key: "tikv_job_key (pjr_job_id r) = Inr key" using valid tikv_job_key_total by blast
  obtain val where val: "cd_ser_job cd r = Inr val" using job_rt by blast
  obtain t where t: "tc_begin_optimistic tc client s = (Inr t, s)" "start t = s" "writes t = Map.empty" using c(1) by (rule calm_begin_write)
  obtain u t1 w s' where p: "tc_put tc t key val s = (Inr u, t1, s)" "tc_commit tc t1 s = (Inr w, s')" "calm s'" "cur s' = (cur s)(key \<mapsto> val)"
    using calm_put_commit [OF c(1) t(2,3)] by blast
  have "tikv_upsert_job tc cd r (tk, s) = (Inr (), tk, s')"
    using key val t(1) p(1,2)
    by (simp add: tikv_upsert_job_def db_try_def tikv_connected [OF c(2)])
      (simp add: db_then_def db_try_def tikv_call_run txn_call_run serialize_def tikv_commit_def)
  moreover have "tikv_jobs_ok cur cd calm (tk, s') \<and> tikv_lookup cur cd (tk, s') = (tikv_lookup cur cd (tk, s))(pjr_job_id r := tikv_record cd (Some val))"
    by (rule tikv_jobs_change [OF ok [unfolded st] key p(3,4)]) (use ser_job_de [OF val] in auto)
  ultimately show ?thesis using st ser_job_de [OF val] by (simp add: tikv_record_def)
qed

lemma calm_delete_job:
  assumes ok: "tikv_jobs_ok cur cd calm st" and valid: "valid_job_id jid"
  shows "fst (tikv_delete_job tc jid st) = Inr () \<and> tikv_jobs_ok cur cd calm (snd (tikv_delete_job tc jid st))
    \<and> tikv_lookup cur cd (snd (tikv_delete_job tc jid st)) = (tikv_lookup cur cd st)(jid := None)"
proof -
  obtain tk s where st: "st = (tk, s)" by (rule prod.exhaust)
  obtain client where c: "calm s" "tk_client tk = Some client" using ok st by (auto simp: tikv_jobs_ok_def)
  obtain key where key: "tikv_job_key jid = Inr key" using valid tikv_job_key_total by blast
  obtain t where t: "tc_begin_optimistic tc client s = (Inr t, s)" "start t = s" "writes t = Map.empty" using c(1) by (rule calm_begin_write)
  obtain u t1 w s' where p: "tc_delete tc t key s = (Inr u, t1, s)" "tc_commit tc t1 s = (Inr w, s')" "calm s'" "cur s' = (cur s)(key := None)"
    using calm_delete_commit [OF c(1) t(2,3)] by blast
  have "tikv_delete_job tc jid (tk, s) = (Inr (), tk, s')"
    using key t(1) p(1,2)
    by (simp add: tikv_delete_job_def db_try_def tikv_connected [OF c(2)])
      (simp add: db_then_def tikv_call_run txn_call_run tikv_commit_def)
  moreover have "tikv_jobs_ok cur cd calm (tk, s') \<and> tikv_lookup cur cd (tk, s') = (tikv_lookup cur cd (tk, s))(jid := tikv_record cd None)"
    by (rule tikv_jobs_change [OF ok [unfolded st] key p(3,4)]) simp
  ultimately show ?thesis using st by (simp add: tikv_record_def)
qed

lemma calm_claim_decide:
  assumes c: "calm s" and t: "start t = s" "writes t = Map.empty" and rd: "\<And>v. cur s key = Some v \<Longrightarrow> \<exists>r. cd_de_job cd v = Inr r"
  defines "rec \<equiv> tikv_record cd (cur s key)"
  shows "\<exists>s'. claim_decide tc cd key expected claimant again (cur s key, t) s = (Inr (fst (atomic_claim expected claimant rec)), s')
    \<and> calm s' \<and> (\<exists>m. cur s' = (cur s)(key := m) \<and> tikv_record cd m = snd (atomic_claim expected claimant rec)
        \<and> (\<forall>v. m = Some v \<longrightarrow> (\<exists>r. cd_de_job cd v = Inr r)))
    \<and> (snd (atomic_claim expected claimant rec) = rec \<longrightarrow> s' = s)"
proof -
  obtain x where rb: "tc_rollback tc t s = (x, s)" using calm_rollback [OF c] by blast
  consider (none) "cur s key = None"
    | (kept) v r where "cur s key = Some v" "cd_de_job cd v = Inr r" "\<not> (pjr_broker_id r = expected \<and> expected \<noteq> claimant)"
    | (take) v r where "cur s key = Some v" "cd_de_job cd v = Inr r" "pjr_broker_id r = expected" "expected \<noteq> claimant"
    using rd by (metis option.exhaust)
  then show ?thesis
  proof cases
    case none
    then have "(cur s)(key := None) = cur s" by auto
    with none c rb show ?thesis
      by (intro exI [of _ s]) (auto simp: claim_decide_def rolled_back_def atomic_claim_def tikv_record_def rec_def intro!: exI [of _ None])
  next
    case kept
    have k: "rec = Some r" using kept by (simp add: rec_def tikv_record_def)
    have a: "atomic_claim expected claimant rec = (fst (atomic_claim expected claimant rec), rec)"
      using kept(3) k by (auto simp: atomic_claim_def)
    have "claim_decide tc cd key expected claimant again (cur s key, t) s = (Inr (fst (atomic_claim expected claimant rec)), s)"
      using kept(3) by (auto simp: claim_decide_def kept(1,2) k db_try_def deserialize_def rolled_back_def rb atomic_claim_def)
    moreover have "cur s = (cur s)(key := Some v)" using kept(1) by auto
    moreover have "tikv_record cd (Some v) = rec" using kept k by (simp add: tikv_record_def)
    ultimately show ?thesis using c a kept(2) by (metis option.inject snd_conv)
  next
    case take
    obtain val where val: "cd_ser_job cd (r\<lparr> pjr_broker_id := claimant \<rparr>) = Inr val" using job_rt by blast
    obtain u t1 w s' where p: "tc_put tc t key val s = (Inr u, t1, s)" "tc_commit tc t1 s = (Inr w, s')" "calm s'" "cur s' = (cur s)(key \<mapsto> val)"
      using calm_put_commit [OF c t] by blast
    have "rec = Some r" using take by (simp add: rec_def tikv_record_def)
    then have a: "atomic_claim expected claimant rec = (CR_Claimed (r\<lparr> pjr_broker_id := claimant \<rparr>), Some (r\<lparr> pjr_broker_id := claimant \<rparr>))"
      using take(3,4) by (auto simp: atomic_claim_def)
    have "claim_decide tc cd key expected claimant again (cur s key, t) s = (Inr (CR_Claimed (r\<lparr> pjr_broker_id := claimant \<rparr>)), s')"
      using take val p(1,2) by (simp add: claim_decide_def db_try_def deserialize_def serialize_def Let_def db_then_def txn_call_run)
    moreover have "tikv_record cd (Some val) = Some (r\<lparr> pjr_broker_id := claimant \<rparr>)" using ser_job_de [OF val] by (simp add: tikv_record_def)
    moreover have "Some (r\<lparr> pjr_broker_id := claimant \<rparr>) \<noteq> rec" using \<open>rec = Some r\<close> take(3,4) by (cases r) auto
    ultimately show ?thesis using p(3,4) a ser_job_de [OF val] by auto
  qed
qed

lemma calm_claims_atomically:
  "claims_atomically (tikv_claim_if_owner tc cd) (tikv_lookup cur cd) (tikv_jobs_ok cur cd calm) valid_job_id"
  unfolding claims_atomically_def
proof (intro allI impI, goal_cases)
  case (1 st jid expected claimant)
  obtain tk s where st: "st = (tk, s)" by (rule prod.exhaust)
  obtain client where c: "calm s" "tk_client tk = Some client" using 1(1) st by (auto simp: tikv_jobs_ok_def)
  obtain key where key: "tikv_job_key jid = Inr key" using 1(2) tikv_job_key_total by blast
  have rd: "\<exists>r. cd_de_job cd v = Inr r" if "cur s key = Some v" for v using 1(1) st key that by (auto simp: tikv_jobs_ok_def)
  have look: "tikv_lookup cur cd (tk, s) jid = tikv_record cd (cur s key)" using key by (simp add: tikv_lookup_def)
  obtain t where t: "tc_begin_optimistic tc client s = (Inr t, s)" "start t = s" "writes t = Map.empty" using c(1) by (rule calm_begin_write)
  obtain m t1 where g: "tc_get tc t key s = (Inr m, t1, s)" using calm_get [OF c(1)] by blast
  have g': "start t1 = s" "writes t1 = Map.empty" "m = cur s key" using get_law [OF calm_ok [OF c(1)] g] t by auto
  obtain s' m' where d: "claim_decide tc cd key expected claimant (claim_attempts tc cd client key jid expected claimant 1) (cur s key, t1) s
        = (Inr (fst (atomic_claim expected claimant (tikv_record cd (cur s key)))), s')"
      "calm s'" "cur s' = (cur s)(key := m')" "tikv_record cd m' = snd (atomic_claim expected claimant (tikv_record cd (cur s key)))"
      "\<forall>v. m' = Some v \<longrightarrow> (\<exists>r. cd_de_job cd v = Inr r)"
      "snd (atomic_claim expected claimant (tikv_record cd (cur s key))) = tikv_record cd (cur s key) \<longrightarrow> s' = s"
    using calm_claim_decide [OF c(1) g'(1,2) rd] by blast
  have "claim_attempts tc cd client key jid expected claimant (Suc 1) s = (Inr (fst (atomic_claim expected claimant (tikv_record cd (cur s key)))), s')"
    unfolding claim_attempts.simps(2) using t(1) g g'(3) d(1) by (simp add: db_then_def tikv_call_run txn_call_run)
  then have "tikv_claim_if_owner tc cd jid expected claimant (tk, s) = (Inr (fst (atomic_claim expected claimant (tikv_record cd (cur s key)))), tk, s')"
    using key by (simp add: tikv_claim_if_owner_def claim_with_owner_def db_try_def tikv_connected [OF c(2)] numeral_2_eq_2)
  moreover have "tikv_jobs_ok cur cd calm (tk, s') \<and> tikv_lookup cur cd (tk, s') = (tikv_lookup cur cd (tk, s))(jid := tikv_record cd m')"
    by (rule tikv_jobs_change [OF 1(1) [unfolded st] key d(2,3)]) (use d(5) in blast)
  ultimately show ?case unfolding st look using d(4,6) by (intro exI [of _ "(tk, s')"]) auto
qed

end

sublocale tikv_calm \<subseteq> tikv_jobs: job_store "tikv_upsert_job tc cd" "tikv_delete_job tc" "tikv_claim_if_owner tc cd"
  "tikv_lookup cur cd" valid_job_id "tikv_jobs_ok cur cd calm"
  by (rule job_store_atomic) (fact calm_upsert_job calm_delete_job calm_claims_atomically)+

end
