(* ===== verification/Tikv_Cluster.thy ===== *)
theory Tikv_Cluster
  imports Tikv_Contract
begin

text \<open>
  A cluster for the TiKV store: versioned keys, optimistic transactions, and a script of other clients'
  writes, one of which happens at every call.  It satisfies every law of \<open>Tikv_Store\<close> and \<open>Tikv_Contract\<close>,
  so the properties of the store, stated at the end, are not vacuous.
\<close>

section \<open>A cluster with a script\<close>

record cluster =
  ct_data :: "(string \<times> stored) list"
  ct_written :: "(string \<times> nat) list"
  ct_clock :: nat
  ct_script :: "(string \<times> stored option) list"

record sim_txn =
  tx_start :: cluster
  tx_writes :: "(string \<times> stored option) list"

definition ct_cur :: "cluster \<Rightarrow> string \<Rightarrow> stored option" where
  "ct_cur s k = map_of (ct_data s) k"

definition ct_version :: "cluster \<Rightarrow> string \<Rightarrow> nat" where
  "ct_version s k = unwrap_or (map_of (ct_written s) k) 0"

definition ct_write :: "string \<Rightarrow> stored option \<Rightarrow> cluster \<Rightarrow> cluster" where
  "ct_write k w s = s\<lparr>
    ct_data := (case w of None \<Rightarrow> AList.delete k (ct_data s) | Some v \<Rightarrow> AList.update k v (ct_data s)),
    ct_written := AList.update k (Suc (ct_clock s)) (ct_written s), ct_clock := Suc (ct_clock s) \<rparr>"

definition ct_tick :: "cluster \<Rightarrow> cluster" where
  "ct_tick s = (case ct_script s of [] \<Rightarrow> s | (k, w) # as \<Rightarrow> ct_write k w (s\<lparr> ct_script := as \<rparr>))"

primrec ct_apply :: "(string \<times> stored option) list \<Rightarrow> cluster \<Rightarrow> cluster" where
  "ct_apply [] s = s"
| "ct_apply (kw # kws) s = ct_write (fst kw) (snd kw) (ct_apply kws s)"

definition ct_others :: "cluster \<Rightarrow> cluster \<Rightarrow> bool" where
  "ct_others s s' \<longleftrightarrow> (\<exists>n. s' = (ct_tick ^^ n) s)"

definition ct_ok :: "cluster \<Rightarrow> bool" where
  "ct_ok s \<longleftrightarrow> (\<forall>k. ct_version s k \<le> ct_clock s)"

definition ct_calm :: "cluster \<Rightarrow> bool" where
  "ct_calm s \<longleftrightarrow> ct_ok s \<and> ct_script s = []"

definition ct_writes :: "sim_txn \<Rightarrow> string \<Rightarrow> stored option option" where
  "ct_writes t = map_of (tx_writes t)"

definition ct_buffer :: "sim_txn \<Rightarrow> string \<Rightarrow> stored option \<Rightarrow> cluster \<Rightarrow> (tikv_error + unit) \<times> sim_txn \<times> cluster" where
  "ct_buffer t k w s = (Inr (), t\<lparr> tx_writes := (k, w) # tx_writes t \<rparr>, ct_tick s)"

definition ct_client :: "(unit, sim_txn, stored, cluster) tikv_client" where
  "ct_client = \<lparr>
    tc_clock = (\<lambda>s. 0), tc_secs_f64 = (\<lambda>d. ''5.0''), tc_display = (\<lambda>e. ''write conflict''),
    tc_new = (\<lambda>endpoints s. (Inr (), s)),
    tc_begin_optimistic = (\<lambda>c s. let s = ct_tick s in (Inr \<lparr> tx_start = s, tx_writes = [] \<rparr>, s)),
    tc_get = (\<lambda>t k s. (Inr (case map_of (tx_writes t) k of Some w \<Rightarrow> w | None \<Rightarrow> ct_cur (tx_start t) k), t, ct_tick s)),
    tc_put = (\<lambda>t k v. ct_buffer t k (Some v)),
    tc_delete = (\<lambda>t k. ct_buffer t k None),
    tc_commit = (\<lambda>t s. let s = ct_tick s in
      if \<exists>k \<in> set (map fst (tx_writes t)). ct_version s k > ct_clock (tx_start t)
      then (Inl (KeyError True ''write conflict''), s) else (Inr (), ct_apply (tx_writes t) s)),
    tc_rollback = (\<lambda>t s. (Inr (), ct_tick s)) \<rparr>"

lemma ct_write_cur: "ct_cur (ct_write k w s) = (ct_cur s)(k := w)"
  by (auto simp: ct_cur_def ct_write_def update_conv' delete_conv' fun_eq_iff split: option.splits)

lemma ct_write_version: "ct_version (ct_write k w s) = (ct_version s)(k := Suc (ct_clock s))"
  by (auto simp: ct_version_def ct_write_def update_conv' fun_eq_iff)

lemma ct_write_simps [simp]: "ct_clock (ct_write k w s) = Suc (ct_clock s)" "ct_script (ct_write k w s) = ct_script s"
  by (simp_all add: ct_write_def)

lemma ct_script_upd [simp]: "ct_cur (s\<lparr> ct_script := as \<rparr>) = ct_cur s" "ct_version (s\<lparr> ct_script := as \<rparr>) = ct_version s"
  by (simp_all add: ct_cur_def ct_version_def fun_eq_iff)

lemma ct_ok_write: "ct_ok s \<Longrightarrow> ct_ok (ct_write k w s)"
  by (auto simp: ct_ok_def ct_write_version le_SucI)

lemma ct_tick_ok: "ct_ok s \<Longrightarrow> ct_ok (ct_tick s)"
  by (auto simp: ct_tick_def ct_ok_write split: list.splits intro!: ct_ok_write) (simp_all add: ct_ok_def)

lemma ct_others_ok: "ct_ok s \<Longrightarrow> ct_ok ((ct_tick ^^ n) s)"
  by (induction n) (auto intro: ct_tick_ok)

lemma ct_tick_clock: "ct_clock s \<le> ct_clock (ct_tick s)"
  by (auto simp: ct_tick_def split: list.splits)

text \<open>Since a snapshot, a key was written or has its value.\<close>
lemma ct_others_version:
  "ct_clock s \<le> ct_clock ((ct_tick ^^ n) s) \<and>
    (ct_version ((ct_tick ^^ n) s) k > ct_clock s
     \<or> ct_cur ((ct_tick ^^ n) s) k = ct_cur s k \<and> ct_version ((ct_tick ^^ n) s) k = ct_version s k)"
proof (induction n)
  case (Suc n)
  let ?t = "(ct_tick ^^ n) s"
  have "ct_version (ct_tick ?t) k > ct_clock ?t \<or> ct_cur (ct_tick ?t) k = ct_cur ?t k \<and> ct_version (ct_tick ?t) k = ct_version ?t k"
    by (auto simp: ct_tick_def ct_write_cur ct_write_version split: list.splits)
  with Suc ct_tick_clock [of ?t] show ?case by auto
qed simp

lemma ct_apply_cur: "ct_cur (ct_apply ws s) = (\<lambda>k. case map_of ws k of Some w \<Rightarrow> w | None \<Rightarrow> ct_cur s k)"
  by (induction ws) (auto simp: ct_write_cur fun_eq_iff)

lemma ct_apply_ok: "ct_ok s \<Longrightarrow> ct_ok (ct_apply ws s)"
  by (induction ws) (auto intro: ct_ok_write)

lemma ct_apply_script [simp]: "ct_script (ct_apply ws s) = ct_script s"
  by (induction ws) auto

lemma ct_tick_length: "length (ct_script (ct_tick s)) = length (ct_script s) - 1"
  by (auto simp: ct_tick_def split: list.splits)

lemma ct_others_length: "length (ct_script ((ct_tick ^^ n) s)) = length (ct_script s) - n"
  by (induction n) (auto simp: ct_tick_length)

lemma ct_tick_done: "ct_script s = [] \<Longrightarrow> (ct_tick ^^ n) s = s"
  by (induction n) (auto simp: ct_tick_def)

lemma ct_others_tick: "ct_others s (ct_tick s)"
  unfolding ct_others_def by (rule exI [of _ 1]) simp

lemma ct_others_trans: "ct_others s s' \<Longrightarrow> ct_others s' s'' \<Longrightarrow> ct_others s s''"
proof -
  assume "ct_others s s'" "ct_others s' s''"
  then obtain n m where "s' = (ct_tick ^^ n) s" "s'' = (ct_tick ^^ m) s'" by (auto simp: ct_others_def)
  then have "s'' = (ct_tick ^^ (m + n)) s" by (simp add: funpow_add)
  then show ?thesis unfolding ct_others_def by blast
qed

interpretation ct_txn: tikv_txn_codec ct_client ct_cur ct_others ct_ok tx_start ct_writes sim_codec
proof (unfold_locales, goal_cases)
  case (1 s)
  show ?case unfolding ct_others_def by (rule exI [of _ 0]) simp
next
  case (2 s s' s'')
  then show ?case by (rule ct_others_trans)
next
  case (3 s s')
  then show ?case using ct_others_ok by (auto simp: ct_others_def)
next
  case (4 s c t s')
  then have "t = \<lparr> tx_start = ct_tick s, tx_writes = [] \<rparr>" "s' = ct_tick s" by (auto simp: ct_client_def Let_def)
  moreover have "ct_others s' s'" unfolding ct_others_def by (rule exI [of _ 0]) simp
  ultimately show ?case using ct_others_tick by (simp add: ct_writes_def fun_eq_iff)
next
  case (5 s t k m t' s')
  then show ?case using ct_others_tick by (auto simp: ct_client_def ct_writes_def)
next
  case (6 s t k v u t' s')
  then show ?case using ct_others_tick by (auto simp: ct_client_def ct_buffer_def ct_writes_def)
next
  case (7 s t k u t' s')
  then show ?case using ct_others_tick by (auto simp: ct_client_def ct_buffer_def ct_writes_def)
next
  case (8 s t u s')
  then have c: "\<forall>k \<in> set (map fst (tx_writes t)). \<not> ct_version (ct_tick s) k > ct_clock (tx_start t)"
    "s' = ct_apply (tx_writes t) (ct_tick s)"
    by (auto simp: ct_client_def Let_def split: if_splits)
  obtain n where n: "ct_tick s = (ct_tick ^^ n) (tx_start t)"
    using ct_others_trans [OF 8(2) ct_others_tick] by (auto simp: ct_others_def)
  have "ct_cur (ct_tick s) k = ct_cur (tx_start t) k" if "k \<in> dom (ct_writes t)" for k
    using c(1) that ct_others_version [of "tx_start t" n k] n by (auto simp: ct_writes_def dom_map_of_conv_image_fst)
  then show ?case using c(2) ct_others_tick ct_apply_ok [OF ct_tick_ok [OF 8(1)]]
    by (intro exI [of _ "ct_tick s"]) (auto simp: ct_apply_cur ct_writes_def)
next
  case (9 s t e s')
  then show ?case using ct_others_tick by (auto simp: ct_client_def Let_def split: if_splits)
next
  case (10 s t r s')
  then show ?case using ct_others_tick by (auto simp: ct_client_def)
qed

interpretation ct_settling: tikv_settling ct_client ct_cur ct_others ct_ok tx_start ct_writes sim_codec "\<lambda>s. length (ct_script s)"
proof (unfold_locales, goal_cases)
  case (1 s s')
  then show ?case by (auto simp: ct_others_def ct_others_length)
next
  case (2 t s e s')
  have "(\<exists>k. ct_version (ct_tick s) k > ct_clock (tx_start t)) \<and> s' = ct_tick s"
    using 2(3) by (auto simp: ct_client_def Let_def split: if_splits)
  then obtain k where k: "ct_version (ct_tick s) k > ct_clock (tx_start t)" "s' = ct_tick s" by blast
  obtain n where n: "s' = (ct_tick ^^ n) (tx_start t)"
    using ct_others_trans [OF 2(2) ct_others_tick] k(2) by (auto simp: ct_others_def)
  have "ct_version (tx_start t) k \<le> ct_clock (tx_start t)" using 2(1) by (simp add: ct_ok_def)
  with k n have "s' \<noteq> tx_start t" by auto
  then have "n \<noteq> 0" "ct_script (tx_start t) \<noteq> []" using n ct_tick_done [of "tx_start t" n] by (cases n, simp_all, metis)
  with n show ?case by (simp add: ct_others_length)
qed

lemma ct_calm_tick: "ct_calm s \<Longrightarrow> ct_tick s = s"
  by (simp add: ct_calm_def ct_tick_def)

interpretation ct_calm: tikv_calm ct_client ct_cur ct_others ct_ok tx_start ct_writes sim_codec ct_calm
proof (unfold_locales, goal_cases)
  case (1 s)
  then show ?case by (simp add: ct_calm_def)
next
  case (2 s s')
  then obtain n where "s' = (ct_tick ^^ n) s" by (auto simp: ct_others_def)
  then show ?case using 2(1) by (simp add: ct_calm_def ct_tick_done)
next
  case (3 s c)
  then show ?case by (simp add: ct_client_def ct_calm_tick Let_def)
next
  case (4 s t k)
  then show ?case by (simp add: ct_client_def ct_calm_tick)
next
  case (5 s t k v)
  then show ?case by (simp add: ct_client_def ct_calm_tick ct_buffer_def)
next
  case (6 s t k)
  then show ?case by (simp add: ct_client_def ct_calm_tick ct_buffer_def)
next
  case (7 s t)
  then have "\<not> (\<exists>k \<in> set (map fst (tx_writes t)). ct_version s k > ct_clock (tx_start t))"
    by (auto simp: ct_calm_def ct_ok_def not_less)
  moreover have "ct_calm (ct_apply (tx_writes t) s)" using 7(1) ct_apply_ok by (simp add: ct_calm_def)
  ultimately show ?case using ct_calm_tick [OF 7(1)] by (simp add: ct_client_def Let_def)
next
  case (8 s t)
  then show ?case by (simp add: ct_client_def ct_calm_tick)
qed

section \<open>Properties\<close>

text \<open>States in which nobody else is going to write the key \<open>k\<close>.\<close>
definition ct_ok_for :: "string \<Rightarrow> cluster \<Rightarrow> bool" where
  "ct_ok_for k s \<longleftrightarrow> ct_ok s \<and> k \<notin> fst ` set (ct_script s)"

lemma ct_script_tick: "ct_script (ct_tick s) = tl (ct_script s)"
  by (auto simp: ct_tick_def split: list.splits)

lemma ct_script_others: "ct_script ((ct_tick ^^ n) s) = drop n (ct_script s)"
  by (induction n) (simp_all add: ct_script_tick drop_Suc tl_drop)

lemma spared_drop: "k \<notin> fst ` set as \<Longrightarrow> k \<notin> fst ` set (drop n as)"
  using set_drop_subset [of n as] by blast

lemma ct_ok_for_others:
  assumes "ct_ok_for k s" "ct_others s s'"
  shows "ct_ok_for k s'"
proof -
  obtain n where "s' = (ct_tick ^^ n) s" using assms(2) by (auto simp: ct_others_def)
  then show ?thesis using assms(1) ct_others_ok [of s n] by (simp add: ct_ok_for_def ct_script_others spared_drop)
qed

lemma ct_cur_tick_spared: "k \<notin> fst ` set (ct_script s) \<Longrightarrow> ct_cur (ct_tick s) k = ct_cur s k"
  by (auto simp: ct_tick_def ct_write_cur split: list.splits)

lemma ct_cur_spared: "k \<notin> fst ` set (ct_script s) \<Longrightarrow> ct_cur ((ct_tick ^^ n) s) k = ct_cur s k"
proof (induction n)
  case (Suc n)
  have "k \<notin> fst ` set (ct_script ((ct_tick ^^ n) s))" using Suc.prems by (simp add: ct_script_others spared_drop)
  from ct_cur_tick_spared [OF this] Suc show ?case by simp
qed simp

lemma ct_commit_script: "tc_commit ct_client t s = (r, s') \<Longrightarrow> ct_script s' = tl (ct_script s)"
  by (auto simp: ct_client_def Let_def ct_script_tick split: if_splits)

lemma ct_ok_forD: "ct_ok_for k s \<Longrightarrow> ct_ok s"
  by (simp add: ct_ok_for_def)

lemma ct_txn_for: "tikv_txn_codec ct_client ct_cur ct_others (ct_ok_for k) tx_start ct_writes sim_codec"
proof (unfold_locales, goal_cases)
  case (1 s)
  show ?case by (rule ct_txn.others_refl)
next
  case (2 s s' s'')
  then show ?case by (rule ct_others_trans)
next
  case (3 s s')
  then show ?case by (rule ct_ok_for_others)
next
  case (4 s c t s')
  then show ?case using ct_txn.begin_law [OF ct_ok_forD] by blast
next
  case (5 s t k m t' s')
  then show ?case using ct_txn.get_law [OF ct_ok_forD] by blast
next
  case (6 s t k v u t' s')
  then show ?case using ct_txn.put_law [OF ct_ok_forD] by blast
next
  case (7 s t k u t' s')
  then show ?case using ct_txn.delete_law [OF ct_ok_forD] by blast
next
  case (8 s t u s')
  have "k \<notin> fst ` set (ct_script s')"
    using 8(1) ct_commit_script [OF 8(3)] spared_drop [of k "ct_script s" 1] by (simp add: ct_ok_for_def drop_Suc)
  then show ?case using ct_txn.commit_law [OF ct_ok_forD [OF 8(1)] 8(2,3)] by (auto simp: ct_ok_for_def)
next
  case (9 s t e s')
  then show ?case using ct_txn.commit_conflict [OF ct_ok_forD] by blast
next
  case (10 s t r s')
  then show ?case using ct_txn.rollback_law [OF ct_ok_forD] by blast
qed

definition demo_tk :: "unit TiKvStore" where
  "demo_tk = \<lparr> tk_endpoints = [''pd:2379''], tk_connect_timeout = 5, tk_client = Some () \<rparr>"

definition demo_job_key :: string where
  "demo_job_key = ''jobs/bol/dev/42/017sg4fag005yaa01a04hmasw9''"

text \<open>The demo record is stored; another broker rewrites it \<open>n\<close> times.\<close>
definition job_cluster :: "nat \<Rightarrow> cluster" where
  "job_cluster n = \<lparr> ct_data = [(demo_job_key, StJob demo_record)], ct_written = [(demo_job_key, 1)], ct_clock = 1,
    ct_script = replicate n (demo_job_key, Some (StJob demo_record)) \<rparr>"

lemma demo_job_key: "tikv_job_key (pjr_job_id demo_record) = Inr demo_job_key"
  by code_simp

lemma demo_tk_connected: "tk_client demo_tk = Some ()"
  by (simp add: demo_tk_def)

lemma job_cluster_ok: "ct_ok (job_cluster n)"
  by (simp add: ct_ok_def ct_version_def job_cluster_def)

text \<open>C24 Claims on TiKV are linearizable: a \<open>claim_if_owner\<close> that returns a result behaves like the atomic
  compare-and-set of the contract at one instant of the call, whatever other clients commit meanwhile, and
  touches no other key; one that gives up after two write conflicts says so and has changed nothing.\<close>
theorem tikv_claim_linearizable:
  assumes "tikv_txn_codec tc cur others ok start writes cd" "tk_client tk = Some client" "ok s"
    "tikv_claim_if_owner tc cd jid expected claimant (tk, s) = (r, tk', s')" "tikv_job_key jid = Inr key"
  shows "tk' = tk \<and> (case r of
      Inr res \<Rightarrow> \<exists>s1 s2. others s s1 \<and> tikv_claim_instant cur cd key expected claimant res s1 s2 \<and> others s2 s'
    | Inl (Conflict _) \<Rightarrow> others s s'
    | Inl _ \<Rightarrow> True)"
proof -
  have run: "claim_attempts tc cd client key jid expected claimant 2 s = (r, s')" "tk' = tk"
    using assms(4) by (auto simp: tikv_claim_if_owner_def claim_with_owner_def db_try_def assms(5)
        tikv_connected [OF assms(2), where f = "\<lambda>client. claim_attempts tc cd client key jid expected claimant 2"] split: prod.splits)
  from tikv_txn_codec.claim_attempts_linearizable [OF assms(1,3) run(1)] run(2) show ?thesis by simp
qed

theorem tikv_claim_linearizable_witness:
  "\<exists>s' s1 s2. tikv_claim_if_owner ct_client sim_codec (pjr_job_id demo_record) ''b'' ''x'' (demo_tk, job_cluster 3)
      = (Inr (CR_Claimed (demo_record\<lparr> pjr_broker_id := ''x'' \<rparr>)), demo_tk, s')
    \<and> tikv_claim_instant ct_cur sim_codec demo_job_key ''b'' ''x'' (CR_Claimed (demo_record\<lparr> pjr_broker_id := ''x'' \<rparr>)) s1 s2"
proof -
  have "fst (tikv_claim_if_owner ct_client sim_codec (pjr_job_id demo_record) ''b'' ''x'' (demo_tk, job_cluster 3))
      = Inr (CR_Claimed (demo_record\<lparr> pjr_broker_id := ''x'' \<rparr>))" by code_simp
  then obtain tk' s' where run: "tikv_claim_if_owner ct_client sim_codec (pjr_job_id demo_record) ''b'' ''x'' (demo_tk, job_cluster 3)
      = (Inr (CR_Claimed (demo_record\<lparr> pjr_broker_id := ''x'' \<rparr>)), tk', s')" by (metis prod.collapse)
  from tikv_claim_linearizable [OF ct_txn.tikv_txn_codec_axioms demo_tk_connected job_cluster_ok run demo_job_key] run
  show ?thesis by auto
qed

text \<open>An allocation by some connected broker.\<close>
definition tikv_alloc ::
  "('c, 't, 'v, 's) tikv_client \<Rightarrow> 'v store_codec \<Rightarrow> string \<Rightarrow> string \<Rightarrow> 's \<Rightarrow> u16 \<Rightarrow> 's \<Rightarrow> bool" where
  "tikv_alloc tc cd site env s slot s' \<longleftrightarrow> (\<exists>tk client tk'. tk_client tk = Some client
    \<and> allocate_tikv_broker_slot tc cd site env (tk, s) = Some (Inr slot, tk', s'))"

lemma allocate_tikv_run:
  "tk_client tk = Some client \<Longrightarrow> allocate_tikv_broker_slot tc cd site env (tk, s)
    = map_option (\<lambda>(r, s). (r, tk, s)) (retry_loop (tikv_slot_attempt tc cd client site env) s)"
  by (simp add: allocate_tikv_broker_slot_def tikv_get_client_def)

lemma allocate_tikv_first:
  assumes "tk_client tk = Some client" "fst (tikv_slot_attempt tc cd client site env s) = Inr (Some slot)"
  shows "allocate_tikv_broker_slot tc cd site env (tk, s) = Some (Inr slot, tk, snd (tikv_slot_attempt tc cd client site env s))"
  using assms by (cases "tikv_slot_attempt tc cd client site env s") (simp add: allocate_tikv_run retry_loop.simps)

context tikv_txn_codec
begin

lemma tikv_slot_counter:
  assumes mono: "\<forall>s s'. ok s \<longrightarrow> others s s' \<longrightarrow>
      unat (tikv_next_slot cd (cur s (tikv_broker_slot_counter_key site env))) \<le> unat (tikv_next_slot cd (cur s' (tikv_broker_slot_counter_key site env)))"
  shows "slot_counter (tikv_alloc tc cd site env) others
    (\<lambda>s. unat (tikv_next_slot cd (cur s (tikv_broker_slot_counter_key site env)))) ok"
proof (unfold_locales, goal_cases)
  case (1 s slot s')
  then obtain client where "retry_loop (tikv_slot_attempt tc cd client site env) s = Some (Inr slot, s')"
    by (auto simp: tikv_alloc_def allocate_tikv_run)
  from tikv_slot_loop_result [OF this 1(1)] show ?case by (auto simp: tikv_slot_instant_def)
next
  case (2 s s')
  then show ?case using mono others_ok by blast
qed

end

lemma demo_slots:
  "fst (tikv_slot_attempt ct_client sim_codec () ''bol'' ''dev'' (job_cluster 3)) = Inr (Some 0)"
  "fst (tikv_slot_attempt ct_client sim_codec () ''bol'' ''dev''
      (snd (tikv_slot_attempt ct_client sim_codec () ''bol'' ''dev'' (job_cluster 3)))) = Inr (Some 1)"
  by code_simp+

text \<open>C26 Broker slots on TiKV are never handed out twice: the slots that any number of brokers obtain from one
  cluster, others committing in between, are strictly increasing, as long as nobody resets the counter.\<close>
theorem tikv_slots_never_shared:
  assumes "tikv_txn_codec tc cur others ok start writes cd" "ok s"
    "\<forall>s s'. ok s \<longrightarrow> others s s' \<longrightarrow>
      unat (tikv_next_slot cd (cur s (tikv_broker_slot_counter_key site env))) \<le> unat (tikv_next_slot cd (cur s' (tikv_broker_slot_counter_key site env)))"
    "slot_history (tikv_alloc tc cd site env) others s slots s'"
  shows "sorted_wrt (<) slots \<and> distinct slots"
  by (rule slot_counter.history_distinct [OF tikv_txn_codec.tikv_slot_counter [OF assms(1,3)] assms(4,2)])

theorem tikv_slots_never_shared_witness:
  "\<exists>s'. slot_history (tikv_alloc ct_client sim_codec ''bol'' ''dev'') ct_others (job_cluster 3) [0, 1] s' \<and> distinct [0 :: u16, 1]"
proof -
  let ?k = "tikv_broker_slot_counter_key ''bol'' ''dev''" and ?attempt = "tikv_slot_attempt ct_client sim_codec () ''bol'' ''dev''"
  have ok: "ct_ok_for ?k (job_cluster 3)"
    using job_cluster_ok [of 3] by (simp add: ct_ok_for_def) (simp add: job_cluster_def demo_job_key_def
        tikv_broker_slot_counter_key_def BROKER_SLOT_COUNTER_PREFIX_def image_iff)
  have mono: "\<forall>s s'. ct_ok_for ?k s \<longrightarrow> ct_others s s' \<longrightarrow>
      unat (tikv_next_slot sim_codec (ct_cur s ?k)) \<le> unat (tikv_next_slot sim_codec (ct_cur s' ?k))"
    using ct_cur_spared by (auto simp: ct_ok_for_def ct_others_def)
  define s1 s2 where "s1 = snd (?attempt (job_cluster 3))" and "s2 = snd (?attempt s1)"
  have 1: "tikv_alloc ct_client sim_codec ''bol'' ''dev'' (job_cluster 3) 0 s1"
    using allocate_tikv_first [OF demo_tk_connected demo_slots(1)] demo_tk_connected unfolding tikv_alloc_def s1_def by blast
  have 2: "tikv_alloc ct_client sim_codec ''bol'' ''dev'' s1 1 s2"
    using allocate_tikv_first [OF demo_tk_connected demo_slots(2)] demo_tk_connected unfolding tikv_alloc_def s1_def s2_def by blast
  have "slot_history (tikv_alloc ct_client sim_codec ''bol'' ''dev'') ct_others (job_cluster 3) (([] @ [0]) @ [1]) s2"
    by (rule slot_history.allocate, rule slot_history.allocate, rule slot_history.none, rule 1, rule 2)
  then have run: "slot_history (tikv_alloc ct_client sim_codec ''bol'' ''dev'') ct_others (job_cluster 3) [0, 1] s2" by simp
  from tikv_slots_never_shared [OF ct_txn_for ok mono run] run show ?thesis by blast
qed

text \<open>Slot allocation on TiKV returns: the unbounded retry loop ends, with a slot or an error, when other
  clients commit only finitely often.\<close>
lemma tikv_slot_allocation_returns:
  assumes "tikv_settling tc cur others ok start writes cd pending" "tk_client tk = Some client" "ok s"
  shows "\<exists>r s'. allocate_tikv_broker_slot tc cd site env (tk, s) = Some (r, tk, s')"
  using tikv_settling.tikv_slot_loop_returns [OF assms(1,3), of client site env] allocate_tikv_run [OF assms(2), of tc cd site env s] by auto

lemma demo_tikv_slot_allocation:
  "\<exists>r s'. allocate_tikv_broker_slot ct_client sim_codec ''bol'' ''dev'' (demo_tk, job_cluster 3) = Some (r, demo_tk, s')"
  using tikv_slot_allocation_returns [OF ct_settling.tikv_settling_axioms demo_tk_connected job_cluster_ok] .

end
