(* ===== verification/Persistence.thy ===== *)
theory Persistence
  imports Nats_Server Tikv_Cluster
begin

text \<open>
  The persistence handle of the broker (the blanket implementations in \<open>bits/src/db/mod.rs\<close>).

  An \<open>Arc<dyn PersistenceStore>\<close> is one of the three stores or somebody else's; the methods of
  \<open>BrokerSlotStore\<close> and \<open>UserLimitStore\<close> find out which by a downcast.  \<open>backends\<close> holds the clients
  and codecs that the remote stores use.  A NATS scan or a retry loop that does not return is \<open>None\<close>.
\<close>

record ('c, 'h, 'v, 's, 'tc, 'tt, 'tv, 'ts) backends =
  bk_nats :: "('c, 'h, 'v, 's) nats_client"
  bk_nats_codec :: "'v store_codec"
  bk_tikv :: "('tc, 'tt, 'tv, 'ts) tikv_client"
  bk_tikv_codec :: "'tv store_codec"

datatype ('h, 's, 'tc, 'ts, 'o) PersistenceStore =
    IsMemory MemoryStore
  | IsNats "'h NatsStore" 's
  | IsTiKv "'tc TiKvStore" 'ts
  | IsOther 'o

definition slot_not_implemented :: "string \<Rightarrow> string \<Rightarrow> DbError" where
  "slot_not_implemented site_tag env_tag = Backend (''broker slot allocation is not implemented for this persistence backend (site ''
    @ [CHR 0x27] @ site_tag @ [CHR 0x27] @ '', env '' @ [CHR 0x27] @ env_tag @ [CHR 0x27] @ '')'')"

definition limit_not_implemented :: DbError where
  "limit_not_implemented = Backend ''user-limit store not implemented for this persistence backend''"

definition allocate_broker_slot ::
  "('c, 'h, 'v, 's, 'tc, 'tt, 'tv, 'ts) backends \<Rightarrow> string \<Rightarrow> string \<Rightarrow> ('h, 's, 'tc, 'ts, 'o) PersistenceStore
    \<Rightarrow> (u16 db \<times> ('h, 's, 'tc, 'ts, 'o) PersistenceStore) option" where
  "allocate_broker_slot bk site_tag env_tag store =
    (case store of
       IsMemory m \<Rightarrow> Some (apsnd IsMemory (allocate_memory_broker_slot site_tag env_tag m))
     | IsNats n s \<Rightarrow> map_option (\<lambda>(r, n, s). (r, IsNats n s)) (allocate_nats_broker_slot (bk_nats bk) (bk_nats_codec bk) site_tag env_tag (n, s))
     | IsTiKv t s \<Rightarrow> map_option (\<lambda>(r, t, s). (r, IsTiKv t s)) (allocate_tikv_broker_slot (bk_tikv bk) (bk_tikv_codec bk) site_tag env_tag (t, s))
     | IsOther _ \<Rightarrow> Some (Inl (slot_not_implemented site_tag env_tag), store))"

definition reserve_user_slot ::
  "('c, 'h, 'v, 's, 'tc, 'tt, 'tv, 'ts) backends \<Rightarrow> datetime \<Rightarrow> string \<Rightarrow> string \<Rightarrow> string \<Rightarrow> string
    \<Rightarrow> ('h, 's, 'tc, 'ts, 'o) PersistenceStore \<Rightarrow> u64 db \<times> ('h, 's, 'tc, 'ts, 'o) PersistenceStore" where
  "reserve_user_slot bk now scope user jid owner_broker_id store =
    (case store of
       IsMemory m \<Rightarrow> apsnd IsMemory (reserve_user_slot_memory now scope user jid owner_broker_id m)
     | IsNats n s \<Rightarrow> apsnd (\<lambda>(n, s). IsNats n s) (reserve_user_slot_nats (bk_nats bk) (bk_nats_codec bk) now scope user jid owner_broker_id (n, s))
     | _ \<Rightarrow> (Inl limit_not_implemented, store))"

definition release_user_slot ::
  "('c, 'h, 'v, 's, 'tc, 'tt, 'tv, 'ts) backends \<Rightarrow> string \<Rightarrow> string \<Rightarrow> string
    \<Rightarrow> ('h, 's, 'tc, 'ts, 'o) PersistenceStore \<Rightarrow> unit db \<times> ('h, 's, 'tc, 'ts, 'o) PersistenceStore" where
  "release_user_slot bk scope user jid store =
    (case store of
       IsMemory m \<Rightarrow> apsnd IsMemory (release_user_slot_memory scope user jid m)
     | IsNats n s \<Rightarrow> apsnd (\<lambda>(n, s). IsNats n s) (release_user_slot_nats (bk_nats bk) scope user jid (n, s))
     | _ \<Rightarrow> (Inl limit_not_implemented, store))"

definition list_user_slots ::
  "('c, 'h, 'v, 's, 'tc, 'tt, 'tv, 'ts) backends \<Rightarrow> string \<Rightarrow> string \<Rightarrow> ('h, 's, 'tc, 'ts, 'o) PersistenceStore
    \<Rightarrow> (UserLimitEntry list db \<times> ('h, 's, 'tc, 'ts, 'o) PersistenceStore) option" where
  "list_user_slots bk scope user store =
    (case store of
       IsMemory m \<Rightarrow> Some (list_user_slots_memory scope user m, store)
     | IsNats n s \<Rightarrow> map_option (\<lambda>(r, n, s). (r, IsNats n s)) (list_user_slots_nats (bk_nats bk) (bk_nats_codec bk) scope user (n, s))
     | _ \<Rightarrow> Some (Inl limit_not_implemented, store))"

definition reclaim_user_slots ::
  "('c, 'h, 'v, 's, 'tc, 'tt, 'tv, 'ts) backends \<Rightarrow> datetime \<Rightarrow> ('h, 's, 'tc, 'ts, 'o) PersistenceStore
    \<Rightarrow> (u64 db \<times> ('h, 's, 'tc, 'ts, 'o) PersistenceStore) option" where
  "reclaim_user_slots bk now store =
    (case store of
       IsMemory m \<Rightarrow> Some (apsnd IsMemory (reclaim_user_slots_memory now m))
     | IsNats n s \<Rightarrow> map_option (\<lambda>(r, n, s). (r, IsNats n s)) (reclaim_user_slots_nats (bk_nats bk) (bk_nats_codec bk) now (n, s))
     | _ \<Rightarrow> Some (Inl limit_not_implemented, store))"

text \<open>The handle as the user limiter calls it.  A listing writes nothing, so its state is not handed on: what
  others do during it counts as done after it.\<close>
definition persistence_user_ops ::
  "('c, 'h, 'v, 's, 'tc, 'tt, 'tv, 'ts) backends \<Rightarrow> datetime \<Rightarrow> ('h, 's, 'tc, 'ts, 'o) PersistenceStore user_ops" where
  "persistence_user_ops bk now = \<lparr> uo_reserve = reserve_user_slot bk now, uo_release = release_user_slot bk,
    uo_list = (\<lambda>scope user store. map_option fst (list_user_slots bk scope user store)) \<rparr>"

text \<open>One broker admits a series of jobs of one user.\<close>
primrec admit_all ::
  "'s user_ops option \<Rightarrow> instant \<Rightarrow> string \<Rightarrow> string list \<Rightarrow> nat \<Rightarrow> UserLimiter \<times> 's \<Rightarrow> bool list \<times> UserLimiter \<times> 's" where
  "admit_all store now key [] cap st = ([], st)"
| "admit_all store now key (jid # jids) cap st =
    (case admit store now key jid cap st of (b, st) \<Rightarrow> apfst ((#) b) (admit_all store now key jids cap st))"

lemma local_count_incr: "local_count (incr_local key l) key = Suc (local_count l key)"
  by (simp add: local_count_def incr_local_def update_conv')

lemma tikv_admit:
  assumes "0 < cap" "strict cap"
  shows "admit (Some (persistence_user_ops bk now)) at key jid cap (l, IsTiKv t s) = (True, incr_local key l, IsTiKv t s)"
  using assms by (simp add: admit_def admit_strict_def persistence_user_ops_def reserve_user_slot_def)

lemma tikv_admit_all:
  assumes "0 < cap" "strict cap"
  shows "\<exists>l'. admit_all (Some (persistence_user_ops bk now)) at key jids cap (l, IsTiKv t s)
      = (replicate (length jids) True, l', IsTiKv t s) \<and> local_count l' key = local_count l key + length jids"
proof (induction jids arbitrary: l)
  case (Cons jid jids)
  then show ?case by (auto simp: tikv_admit [OF assms] local_count_incr dest!: meta_spec [of _ "incr_local key l"])
qed simp

lemma try_local_all:
  "local_count l key = n \<Longrightarrow> n \<le> cap \<Longrightarrow>
    fst (admit_all None at key jids cap (l, s)) = replicate (min (length jids) (cap - n)) True @ replicate (length jids - (cap - n)) False"
proof (induction jids arbitrary: l n)
  case (Cons jid jids)
  show ?case
  proof (cases "n < cap")
    case True
    define l' where "l' = snd (try_admit_local key cap l)"
    have a: "admit None at key jid cap (l, s) = (True, l', s)" "local_count l' key = Suc n"
      using True Cons.prems by (simp_all add: admit_def try_admit_local_def Let_def l'_def local_count_def update_conv')
    have "cap - n = Suc (cap - Suc n)" using True by simp
    with a Cons.IH [OF a(2)] True show ?thesis by (simp add: Suc_le_eq)
  next
    case False
    define l' where "l' = snd (try_admit_local key cap l)"
    have a: "admit None at key jid cap (l, s) = (False, (if cap = 0 then l else l'), s)" "local_count l' key = n"
      using False Cons.prems by (simp_all add: admit_def try_admit_local_def Let_def l'_def local_count_def update_conv')
    have "fst (admit_all None at key jids cap (if cap = 0 then l else l', s)) = replicate (length jids) False"
      using Cons.IH [of "if cap = 0 then l else l'" n] Cons.prems False a(2) by (simp split: if_splits)
    with a False show ?thesis by (simp del: if_split)
  qed
qed simp

text \<open>C31 With TiKV as the persistence backend a user ceiling of 1 to 3 is not enforced at all, not even inside
  one broker: the store does not implement admission entries, the strict path admits on every store error,
  and it never compares the local count.  The same ceiling without any persistence admits exactly \<open>cap\<close>
  of the jobs.\<close>
theorem tikv_user_limit_not_enforced:
  assumes "1 \<le> cap" "cap \<le> 3" "local_count l key = 0"
  shows "fst (admit_all (Some (persistence_user_ops bk now)) at key jids cap (l, IsTiKv t s)) = replicate (length jids) True
    \<and> fst (admit_all None at key jids cap (l, u)) = replicate (min (length jids) cap) True @ replicate (length jids - cap) False"
proof
  have "0 < cap" "strict cap" using assms by (simp_all add: strict_def STRICT_MAX_THRESHOLD_def)
  from tikv_admit_all [OF this] show "fst (admit_all (Some (persistence_user_ops bk now)) at key jids cap (l, IsTiKv t s))
      = replicate (length jids) True" by (metis fst_conv)
  show "fst (admit_all None at key jids cap (l, u)) = replicate (min (length jids) cap) True @ replicate (length jids - cap) False"
    using try_local_all [OF assms(3), of cap at jids u] by simp
qed

definition demo_backends :: "(unit, string, stored, kv_server, unit, sim_txn, stored, cluster) backends" where
  "demo_backends = \<lparr> bk_nats = sim_client, bk_nats_codec = sim_codec, bk_tikv = ct_client, bk_tikv_codec = sim_codec \<rparr>"

definition demo_limiter :: UserLimiter where
  "demo_limiter = limiter_new \<lparr> ulc_default = Some 1, ulc_realms = [] \<rparr> ''pool'' ''b''"

theorem tikv_user_limit_not_enforced_witness:
  "fst (admit_all (Some (persistence_user_ops demo_backends 0)) 0 ''u'' [''i'', ''j'', ''k''] 1
      (demo_limiter, IsTiKv demo_tk (job_cluster 0) :: (string, kv_server, unit, cluster, unit) PersistenceStore)) = [True, True, True]
    \<and> fst (admit_all None 0 ''u'' [''i'', ''j'', ''k''] 1 (demo_limiter, ())) = [True, False, False]"
proof -
  have "local_count demo_limiter ''u'' = 0" by (simp add: demo_limiter_def limiter_new_def local_count_def)
  from tikv_user_limit_not_enforced [OF _ _ this, of 1, where jids = "[''i'', ''j'', ''k'']"]
  show ?thesis by (simp add: eval_nat_numeral)
qed

end
