(* ===== verification/Broker_Runtime.thy ===== *)
theory Broker_Runtime
  imports Switch_Routing Memory_Store
begin

text \<open>
  The broker's local runtime: submission (\<open>bits/src/runtime/submission.rs\<close>), the job runner
  (\<open>runtime/runner.rs\<close>), client presence and the sweeper (\<open>runtime/maintenance.rs\<close>) and the
  local operations of \<open>Bits\<close> (\<open>bits.rs\<close>).

  A submitted job is an object shared by the jobs map, the runner task and pollers (\<open>Arc<Job>\<close>); it
  is a cell of \<open>b_objs\<close>, and the jobs map holds its address.  The functions are the code's, run without
  interruption except where a poll waits: there other activity is an argument.  \<open>broker_step\<close>
  interleaves their atomic parts.  The last four fields of the state are history used by the proofs:
  submissions between admission and insertion, removals not yet counted, results written by runners
  and results taken by pollers.  The persistence store is a record of operations on its own state.
\<close>

section \<open>State\<close>

record 's store_ops =
  so_upsert_job :: "PersistentJobRecord \<Rightarrow> 's \<Rightarrow> unit db \<times> 's"
  so_delete_job :: "string \<Rightarrow> 's \<Rightarrow> unit db \<times> 's"
  so_claim_if_owner :: "string \<Rightarrow> string \<Rightarrow> string \<Rightarrow> 's \<Rightarrow> ClaimResult db \<times> 's"
  so_upsert_broker_lease :: "datetime \<Rightarrow> string \<Rightarrow> string \<Rightarrow> duration \<Rightarrow> 's \<Rightarrow> unit db \<times> 's"
  so_get_broker_lease :: "string \<Rightarrow> 's \<Rightarrow> BrokerLeaseRecord option db"
  so_delete_broker_lease :: "string \<Rightarrow> 's \<Rightarrow> unit db \<times> 's"
  so_reclaim_user_slots :: "datetime \<Rightarrow> 's \<Rightarrow> u64 db option \<times> 's"

record 's SubmitContext =
  sc_max_jobs :: nat
  sc_broker_id :: string
  sc_site :: string
  sc_env :: string
  sc_broker_slot :: u16
  sc_job_store :: "'s store_ops option"
  sc_persist_after :: "duration option"
  sc_reconnect_buffer :: duration

record 's Broker =
  b_jobs :: "(string \<times> nat) list"
  b_job_count :: nat
  b_in_flight :: nat
  b_objs :: "nat \<Rightarrow> Job"
  b_next :: nat
  b_running :: "nat list"
  b_cleanup :: "string list"
  b_store :: 's
  b_heap :: Heap
  b_admitting :: nat
  b_bypassed :: nat
  b_removing :: nat
  b_produced :: "nat \<rightharpoonup> JobResult"
  b_taken :: "(nat \<times> JobResult) list"

datatype SubmissionAdmission = EnforceLimit | BypassLimitAlreadyPersisted
datatype SubmitOutcome = Accepted string | SubmitOverloaded
datatype PollOutcome = Ready JobResult | Pending string PendingStatus | PollNotFound | JobLost

definition queued :: "string \<Rightarrow> PollOutcome" where
  "queued jid = Pending jid Queued"

definition set_obj :: "nat \<Rightarrow> Job \<Rightarrow> 's Broker \<Rightarrow> 's Broker" where
  "set_obj a j b = b\<lparr> b_objs := (b_objs b)(a := j) \<rparr>"

section \<open>Submission\<close>

text \<open>The compare-and-swap loop: it ends at the first exchange that succeeds or at a full count.\<close>
definition admit_job :: "'s SubmitContext \<Rightarrow> SubmissionAdmission \<Rightarrow> 's Broker \<Rightarrow> bool \<times> 's Broker" where
  "admit_job ctx admission b =
    (case admission of
       EnforceLimit \<Rightarrow>
         if b_job_count b \<ge> sc_max_jobs ctx then (False, b)
         else (True, b\<lparr> b_job_count := b_job_count b + 1, b_admitting := b_admitting b + 1 \<rparr>)
     | BypassLimitAlreadyPersisted \<Rightarrow>
         (True, b\<lparr> b_job_count := b_job_count b + 1, b_admitting := b_admitting b + 1,
                  b_bypassed := b_bypassed b + 1 \<rparr>))"

text \<open>\<open>spawn_job\<close> up to the dispatch: the in-flight guard and the \<open>persisted\<close> flag of a recovered job.\<close>
definition spawn_job :: "bool \<Rightarrow> nat \<Rightarrow> 's Broker \<Rightarrow> 's Broker" where
  "spawn_job already_persisted a b =
    (let b = b\<lparr> b_in_flight := b_in_flight b + 1, b_running := a # b_running b \<rparr>
     in if already_persisted then set_obj a ((b_objs b a)\<lparr> job_persisted := True \<rparr>) b else b)"

text \<open>From the reconnect deadline on: the entry is inserted unless the id is taken.\<close>
definition insert_job :: "'s SubmitContext \<Rightarrow> instant \<Rightarrow> bool \<Rightarrow> Job \<Rightarrow> 's Broker \<Rightarrow> SubmitOutcome \<times> 's Broker" where
  "insert_job ctx now already_persisted job b =
    (let b = b\<lparr> b_heap := set_reconnect_deadline job (now + sc_reconnect_buffer ctx) (b_heap b),
               b_admitting := b_admitting b - 1 \<rparr>
     in case map_of (b_jobs b) (job_id job) of
          Some _ \<Rightarrow> (SubmitOverloaded, b\<lparr> b_job_count := b_job_count b - 1 \<rparr>)
        | None \<Rightarrow>
            let a = b_next b;
                b = set_obj a job (b\<lparr> b_jobs := (job_id job, a) # b_jobs b, b_next := Suc a \<rparr>)
            in (Accepted (job_id job), spawn_job already_persisted a b))"

text \<open>\<open>None\<close> is the panic of \<open>expect\<close>.\<close>
definition new_job_id :: "(nat \<Rightarrow> u8 list) \<Rightarrow> datetime \<Rightarrow> 's SubmitContext \<Rightarrow> string option" where
  "new_job_id fill_bytes utc_now ctx =
    (case encode fill_bytes (sc_site ctx) (sc_env ctx) (sc_broker_slot ctx) utc_now of
       Inr jid \<Rightarrow> Some jid | Inl _ \<Rightarrow> None)"

definition submit :: "(nat \<Rightarrow> u8 list) \<Rightarrow> instant \<Rightarrow> datetime \<Rightarrow> 's SubmitContext \<Rightarrow> Job \<Rightarrow> SubmissionAdmission
    \<Rightarrow> 's Broker \<Rightarrow> (SubmitOutcome \<times> 's Broker) option" where
  "submit fill_bytes now utc_now ctx job admission b =
    (case (case decode_result (job_id job) of
             Inl _ \<Rightarrow> map_option (\<lambda>jid. job\<lparr> job_id := jid \<rparr>) (new_job_id fill_bytes utc_now ctx)
           | Inr _ \<Rightarrow> Some job) of
       None \<Rightarrow> None
     | Some job \<Rightarrow>
         (case admit_job ctx admission b of
            (False, b) \<Rightarrow> Some (SubmitOverloaded, b)
          | (True, b) \<Rightarrow> Some (insert_job ctx now (admission = BypassLimitAlreadyPersisted) job b)))"

definition submit_with_state :: "(nat \<Rightarrow> u8 list) \<Rightarrow> instant \<Rightarrow> datetime \<Rightarrow> 's SubmitContext \<Rightarrow> Job \<Rightarrow> bool
    \<Rightarrow> 's Broker \<Rightarrow> (SubmitOutcome \<times> 's Broker) option" where
  "submit_with_state fill_bytes now utc_now ctx job already_persisted =
    submit fill_bytes now utc_now ctx job (if already_persisted then BypassLimitAlreadyPersisted else EnforceLimit)"

definition bits_submit :: "(nat \<Rightarrow> u8 list) \<Rightarrow> instant \<Rightarrow> datetime \<Rightarrow> 's SubmitContext \<Rightarrow> Job
    \<Rightarrow> 's Broker \<Rightarrow> (SubmitOutcome \<times> 's Broker) option" where
  "bits_submit fill_bytes now utc_now ctx job = submit fill_bytes now utc_now ctx job EnforceLimit"

section \<open>The runner\<close>

text \<open>How the dispatch future ends: a panic with its payload, or a result.\<close>
datatype panic_payload = PanicStr string | PanicString string | PanicOther
datatype dispatch_end = Panicked panic_payload | Finished "ActionError + TargetResult"

definition panic_detail :: "panic_payload \<Rightarrow> string" where
  "panic_detail p = (case p of PanicStr s \<Rightarrow> s | PanicString s \<Rightarrow> s | PanicOther \<Rightarrow> ''unknown panic'')"

definition handle_action_panic :: "panic_payload \<Rightarrow> JobResult" where
  "handle_action_panic p = JR_Failed ''internal server error''"

definition dispatch_result :: "ActionError + TargetResult \<Rightarrow> JobResult" where
  "dispatch_result r =
    (case r of
       Inr (Complete result) \<Rightarrow> result
     | Inr (TargetReject reason _) \<Rightarrow> JR_Error reason
     | Inl AE_Cancelled \<Rightarrow> JR_Cancelled
     | Inl AE_ClientGone \<Rightarrow> JR_ClientGone
     | Inl (QueueFull reason) \<Rightarrow> JR_Overloaded reason
     | Inl (UserLimitExceeded reason) \<Rightarrow> JR_RateLimited reason
     | Inl _ \<Rightarrow> JR_Failed ''internal server error'')"

definition dispatch :: "'x Route list \<Rightarrow> Job \<Rightarrow> 'x World_scheme \<Rightarrow> JobResult \<times> 'x World_scheme" where
  "dispatch router job w = (case switch_dispatch router job w of (r, w) \<Rightarrow> (dispatch_result r, w))"

definition end_result :: "dispatch_end \<Rightarrow> JobResult" where
  "end_result e = (case e of Panicked p \<Rightarrow> handle_action_panic p | Finished r \<Rightarrow> dispatch_result r)"

definition job_record :: "'s SubmitContext \<Rightarrow> Job \<Rightarrow> PersistentJobRecord" where
  "job_record ctx job = \<lparr> pjr_job_id = job_id job, pjr_broker_id = sc_broker_id ctx,
    pjr_original_request = job_original_request job, pjr_user = job_user job,
    pjr_metadata = job_metadata job, pjr_created_at = job_created_at job \<rparr>"

text \<open>The delayed persist, when its timer fires before the dispatch ends.\<close>
definition persist_job :: "'s SubmitContext \<Rightarrow> nat \<Rightarrow> 's Broker \<Rightarrow> 's Broker" where
  "persist_job ctx a b =
    (case sc_job_store ctx of
       None \<Rightarrow> b
     | Some store \<Rightarrow>
         if \<not> job_persisted (b_objs b a) \<and> job_result (b_objs b a) = None
         then (case so_upsert_job store (job_record ctx (b_objs b a)) (b_store b) of
                 (Inr _, s) \<Rightarrow> set_obj a ((b_objs b a)\<lparr> job_persisted := True \<rparr>) (b\<lparr> b_store := s \<rparr>)
               | (Inl _, s) \<Rightarrow> b\<lparr> b_store := s \<rparr>)
         else b)"

text \<open>The end of the task: the result is stored, waiters are notified and the in-flight guard drops.\<close>
definition finish_job :: "JobResult \<Rightarrow> nat \<Rightarrow> 's Broker \<Rightarrow> 's Broker" where
  "finish_job result a b =
    (let job = b_objs b a;
         b = set_obj a (job\<lparr> job_result := Some result \<rparr>) b
     in b\<lparr> b_heap := lc_update job (\<lambda>l. l\<lparr> lc_notify := Suc (lc_notify l) \<rparr>) (b_heap b),
          b_in_flight := b_in_flight b - 1,
          b_running := remove1 a (b_running b),
          b_produced := (b_produced b)(a \<mapsto> result) \<rparr>)"

text \<open>The task without interruption: \<open>timer\<close> says whether the persist delay elapsed first.\<close>
definition run_job :: "'s SubmitContext \<Rightarrow> bool \<Rightarrow> dispatch_end \<Rightarrow> nat \<Rightarrow> 's Broker \<Rightarrow> 's Broker" where
  "run_job ctx timer e a b =
    finish_job (end_result e) a (if timer \<and> sc_persist_after ctx \<noteq> None then persist_job ctx a b else b)"

section \<open>Client presence\<close>

definition connect :: "nat \<Rightarrow> 's Broker \<Rightarrow> 's Broker" where
  "connect a b = b\<lparr> b_heap := lc_update (b_objs b a) (\<lambda>l. l\<lparr> lc_active_pollers := lc_active_pollers l + 1,
      lc_dispatch_notify := Suc (lc_dispatch_notify l) \<rparr>) (b_heap b) \<rparr>"

definition disconnect :: "'s SubmitContext \<Rightarrow> instant \<Rightarrow> nat \<Rightarrow> 's Broker \<Rightarrow> 's Broker" where
  "disconnect ctx now a b = b\<lparr> b_heap := lc_update (b_objs b a)
      (\<lambda>l. l\<lparr> lc_reconnect_deadline_nanos := instant_to_nanos (h_epoch (b_heap b)) (now + sc_reconnect_buffer ctx),
              lc_active_pollers := lc_active_pollers l - 1,
              lc_dispatch_notify := Suc (lc_dispatch_notify l) \<rparr>) (b_heap b) \<rparr>"

section \<open>Delivery\<close>

definition take_result :: "nat \<Rightarrow> 's Broker \<Rightarrow> JobResult option \<times> 's Broker" where
  "take_result a b =
    (case job_result (b_objs b a) of
       None \<Rightarrow> (None, b)
     | Some r \<Rightarrow> (Some r, (set_obj a ((b_objs b a)\<lparr> job_result := None \<rparr>) b)\<lparr> b_taken := (a, r) # b_taken b \<rparr>))"

text \<open>\<open>remove_job\<close> in its two atomic parts.\<close>
definition remove_entry :: "string \<Rightarrow> 's Broker \<Rightarrow> 's Broker" where
  "remove_entry jid b =
    (if map_of (b_jobs b) jid = None then b
     else b\<lparr> b_jobs := AList.delete jid (b_jobs b), b_removing := b_removing b + 1 \<rparr>)"

definition decrement :: "'s Broker \<Rightarrow> 's Broker" where
  "decrement b = b\<lparr> b_job_count := b_job_count b - 1, b_removing := b_removing b - 1 \<rparr>"

definition remove_job :: "string \<Rightarrow> 's Broker \<Rightarrow> 's Broker" where
  "remove_job jid b = (if map_of (b_jobs b) jid = None then b else decrement (remove_entry jid b))"

definition schedule_durable_cleanup :: "'s SubmitContext \<Rightarrow> string \<Rightarrow> nat \<Rightarrow> 's Broker \<Rightarrow> 's Broker" where
  "schedule_durable_cleanup ctx jid a b =
    (if job_persisted (b_objs b a) \<and> sc_job_store ctx \<noteq> None then b\<lparr> b_cleanup := b_cleanup b @ [jid] \<rparr> else b)"

definition pending_of :: "string \<Rightarrow> nat \<Rightarrow> 's Broker \<Rightarrow> PollOutcome" where
  "pending_of jid a b = Pending jid (pending_status (b_heap b) (b_objs b a))"

text \<open>Take the result if there is one, and clean up after it.\<close>
definition try_deliver :: "'s SubmitContext \<Rightarrow> string \<Rightarrow> nat \<Rightarrow> 's Broker \<Rightarrow> PollOutcome option \<times> 's Broker" where
  "try_deliver ctx jid a b =
    (case take_result a b of
       (None, b) \<Rightarrow> (None, b)
     | (Some r, b) \<Rightarrow> (Some (Ready r), schedule_durable_cleanup ctx jid a (remove_job jid b)))"

text \<open>\<open>wait\<close> is what happens while the poll waits, and whether it was notified before its timeout.\<close>
definition poll_local :: "'s SubmitContext \<Rightarrow> instant \<Rightarrow> ('s Broker \<Rightarrow> bool \<times> 's Broker) \<Rightarrow> string \<Rightarrow> 's Broker
    \<Rightarrow> PollOutcome option \<times> 's Broker" where
  "poll_local ctx now wait jid b =
    (case map_of (b_jobs b) jid of
       None \<Rightarrow> (None, b)
     | Some a \<Rightarrow>
         (case try_deliver ctx jid a (connect a b) of
            (Some out, b) \<Rightarrow> (Some out, disconnect ctx now a b)
          | (None, b) \<Rightarrow>
              (case wait b of (notified, b) \<Rightarrow>
                 if notified
                 then (case try_deliver ctx jid a b of
                         (Some out, b) \<Rightarrow> (Some out, disconnect ctx now a b)
                       | (None, b) \<Rightarrow> (Some (pending_of jid a b), disconnect ctx now a b))
                 else (Some (pending_of jid a b), disconnect ctx now a b))))"

text \<open>The loop of \<open>poll_submit\<close>: \<open>wakes\<close> is what happens before each notification; after the last one the
  deadline passes.\<close>
fun poll_submit_loop :: "'s SubmitContext \<Rightarrow> string \<Rightarrow> nat \<Rightarrow> ('s Broker \<Rightarrow> 's Broker) list \<Rightarrow> 's Broker \<Rightarrow> PollOutcome \<times> 's Broker" where
  "poll_submit_loop ctx jid a wakes b =
    (case job_result (b_objs b a) of
       Some r \<Rightarrow>
         if is_deliverable r then (pending_of jid a b, b)
         else (Ready r, schedule_durable_cleanup ctx jid a (remove_job jid (snd (take_result a b))))
     | None \<Rightarrow>
         if pending_status (b_heap b) (b_objs b a) = Processing then (pending_of jid a b, b)
         else (case wakes of
                 [] \<Rightarrow> (pending_of jid a b, b)
               | wake # wakes \<Rightarrow> poll_submit_loop ctx jid a wakes (wake b)))"

declare poll_submit_loop.simps [simp del]

definition poll_submit :: "'s SubmitContext \<Rightarrow> instant \<Rightarrow> ('s Broker \<Rightarrow> 's Broker) list \<Rightarrow> string \<Rightarrow> 's Broker
    \<Rightarrow> PollOutcome \<times> 's Broker" where
  "poll_submit ctx now wakes jid b =
    (case map_of (b_jobs b) jid of
       None \<Rightarrow> (PollNotFound, b)
     | Some a \<Rightarrow>
         (case poll_submit_loop ctx jid a wakes (connect a b) of (out, b) \<Rightarrow> (out, disconnect ctx now a b)))"

definition cancel :: "string \<Rightarrow> 's Broker \<Rightarrow> bool \<times> 's Broker" where
  "cancel jid b =
    (case map_of (b_jobs b) jid of
       Some a \<Rightarrow> (True, b\<lparr> b_heap := request_cancel (b_objs b a) (b_heap b) \<rparr>)
     | None \<Rightarrow> (False, b))"

text \<open>One message of the cleanup worker's channel, and the drain at shutdown.\<close>
definition cleanup_one :: "'s store_ops \<Rightarrow> string \<Rightarrow> 's Broker \<Rightarrow> 's Broker" where
  "cleanup_one store jid b = b\<lparr> b_store := snd (so_delete_job store jid (b_store b)) \<rparr>"

primrec cleanup_all :: "'s store_ops \<Rightarrow> string list \<Rightarrow> 's Broker \<Rightarrow> 's Broker" where
  "cleanup_all store [] b = b"
| "cleanup_all store (jid # jids) b = cleanup_all store jids (cleanup_one store jid b)"

definition cleanup_worker :: "'s SubmitContext \<Rightarrow> 's Broker \<Rightarrow> 's Broker" where
  "cleanup_worker ctx b =
    (case sc_job_store ctx of
       None \<Rightarrow> b
     | Some store \<Rightarrow> cleanup_all store (b_cleanup b) (b\<lparr> b_cleanup := [] \<rparr>))"

section \<open>The sweeper\<close>

datatype ReclaimOutcome = Reclaimed u64 | ReclaimFailed DbError | ReclaimTimedOut

definition reclaim_within :: "u64 db option \<Rightarrow> ReclaimOutcome" where
  "reclaim_within r = (case r of Some (Inr n) \<Rightarrow> Reclaimed n | Some (Inl e) \<Rightarrow> ReclaimFailed e | None \<Rightarrow> ReclaimTimedOut)"

definition expired :: "instant \<Rightarrow> nat \<Rightarrow> 's Broker \<Rightarrow> bool" where
  "expired now a b \<longleftrightarrow> job_result (b_objs b a) \<noteq> None \<and> \<not> client_present now (b_heap b) (b_objs b a)"

text \<open>\<open>remove_if\<close> under the map's lock, the counter, and the durable record.\<close>
definition sweep_one :: "'s SubmitContext \<Rightarrow> instant \<Rightarrow> string \<Rightarrow> 's Broker \<Rightarrow> 's Broker" where
  "sweep_one ctx now jid b =
    (case map_of (b_jobs b) jid of
       None \<Rightarrow> b
     | Some a \<Rightarrow>
         if expired now a b then
           let b = decrement (remove_entry jid b) in
           (case sc_job_store ctx of
              Some store \<Rightarrow>
                if job_persisted (b_objs b a) then b\<lparr> b_store := snd (so_delete_job store jid (b_store b)) \<rparr> else b
            | None \<Rightarrow> b)
         else b)"

primrec sweep_all :: "'s SubmitContext \<Rightarrow> instant \<Rightarrow> string list \<Rightarrow> 's Broker \<Rightarrow> 's Broker" where
  "sweep_all ctx now [] b = b"
| "sweep_all ctx now (jid # jids) b = sweep_all ctx now jids (sweep_one ctx now jid b)"

definition sweep :: "'s SubmitContext \<Rightarrow> instant \<Rightarrow> datetime \<Rightarrow> 's Broker \<Rightarrow> ReclaimOutcome option \<times> 's Broker" where
  "sweep ctx now utc_now b =
    (let ids = map fst (filter (\<lambda>e. expired now (snd e) b) (b_jobs b));
         b = sweep_all ctx now ids b
     in case sc_job_store ctx of
          None \<Rightarrow> (None, b)
        | Some store \<Rightarrow>
            (case so_reclaim_user_slots store utc_now (b_store b) of
               (r, s) \<Rightarrow> (Some (reclaim_within r), b\<lparr> b_store := s \<rparr>)))"

section \<open>Snapshots\<close>

record ActiveJobSnapshot =
  aj_id :: string
  aj_created_at :: datetime
  aj_original_request :: json
  aj_request :: json
  aj_user :: json
  aj_metadata :: json
  aj_status :: string
  aj_location :: "string option"
  aj_content_type :: "string option"
  aj_content_length :: "u64 option"
  aj_user_message :: "string option"

definition job_snapshot :: "Heap \<Rightarrow> Job \<Rightarrow> ActiveJobSnapshot" where
  "job_snapshot h job =
    (let status = (if is_cancelled h job then ''failed'' else pending_status_as_str (pending_status h job));
         base = (\<lambda>st loc ct cl msg. \<lparr> aj_id = job_id job, aj_created_at = job_created_at job,
           aj_original_request = job_original_request job, aj_request = job_request job, aj_user = job_user job,
           aj_metadata = job_metadata job, aj_status = st, aj_location = loc, aj_content_type = ct,
           aj_content_length = cl, aj_user_message = msg \<rparr>)
     in case job_result job of
          Some (JR_Success ct sz _) \<Rightarrow>
            base ''processed'' None (Some ct) (if sz \<ge> 0 then Some (word_of_int sz) else None) None
        | Some (JR_Redirect loc message ct cl) \<Rightarrow> base ''processed'' (Some loc) ct cl (Some message)
        | Some (JR_Error message) \<Rightarrow> base ''failed'' None None None (Some message)
        | Some (JR_Failed reason) \<Rightarrow> base ''failed'' None None None (Some reason)
        | Some (JR_Overloaded reason) \<Rightarrow> base ''failed'' None None None (Some reason)
        | Some (JR_RateLimited reason) \<Rightarrow> base ''failed'' None None None (Some reason)
        | Some JR_Cancelled \<Rightarrow> base ''failed'' None None None (Some ''Request cancelled'')
        | Some JR_ClientGone \<Rightarrow> base ''failed'' None None None (Some ''request abandoned: client disconnected'')
        | None \<Rightarrow> base status None None None None)"

definition active_jobs :: "'s Broker \<Rightarrow> ActiveJobSnapshot list" where
  "active_jobs b = map (\<lambda>e. job_snapshot (b_heap b) (b_objs b (snd e))) (b_jobs b)"

text \<open>Cells not yet allocated.\<close>
definition blank_job :: Job where
  "blank_job = \<lparr> job_id = [], job_original_request = JNull, job_request = JNull, job_user = JNull, job_created_at = 0,
    job_metadata = JNull, job_lc = 0, job_persisted = False, job_result = None \<rparr>"

definition broker_new :: "'s \<Rightarrow> Heap \<Rightarrow> 's Broker" where
  "broker_new s h = \<lparr> b_jobs = [], b_job_count = 0, b_in_flight = 0, b_objs = (\<lambda>_. blank_job), b_next = 0,
    b_running = [], b_cleanup = [], b_store = s, b_heap = h, b_admitting = 0, b_bypassed = 0, b_removing = 0,
    b_produced = Map.empty, b_taken = [] \<rparr>"

section \<open>Interleaving\<close>

text \<open>The atomic parts of submissions, runners, pollers, the sweeper and the cleanup worker, in any order.
  Lifecycle cells may change at any time (pollers come and go, actions run).\<close>
inductive broker_step :: "'s SubmitContext \<Rightarrow> 's Broker \<Rightarrow> 's Broker \<Rightarrow> bool" for ctx where
  admit: "admit_job ctx admission b = (True, b') \<Longrightarrow> broker_step ctx b b'"
| insert: "b_admitting b > 0 \<Longrightarrow> job_result job = None \<Longrightarrow>
    broker_step ctx b (snd (insert_job ctx now already_persisted job b))"
| persist: "a \<in> set (b_running b) \<Longrightarrow> broker_step ctx b (persist_job ctx a b)"
| finish: "a \<in> set (b_running b) \<Longrightarrow> broker_step ctx b (finish_job r a b)"
| take: "broker_step ctx b (snd (take_result a b))"
| remove: "broker_step ctx b (remove_entry jid b)"
| count: "b_removing b > 0 \<Longrightarrow> broker_step ctx b (decrement b)"
| cleanup: "broker_step ctx b (schedule_durable_cleanup ctx jid a b)"
| cleaned: "broker_step ctx b (cleanup_worker ctx b)"
| sweep_entry: "broker_step ctx b (sweep_one ctx now jid b)"
| lifecycle: "broker_step ctx b (b\<lparr> b_heap := h \<rparr>)"
| store: "broker_step ctx b (b\<lparr> b_store := s \<rparr>)"

section \<open>Invariant\<close>

definition count_ok :: "'s SubmitContext \<Rightarrow> 's Broker \<Rightarrow> bool" where
  "count_ok ctx b \<longleftrightarrow> b_job_count b = length (b_jobs b) + b_admitting b + b_removing b
    \<and> distinct (map fst (b_jobs b)) \<and> b_job_count b \<le> sc_max_jobs ctx + b_bypassed b"

definition run_ok :: "'s Broker \<Rightarrow> bool" where
  "run_ok b \<longleftrightarrow> b_in_flight b = length (b_running b) \<and> distinct (b_running b)
    \<and> (\<forall>a \<in> set (b_running b). a < b_next b \<and> b_produced b a = None)
    \<and> (\<forall>a. b_next b \<le> a \<longrightarrow> b_produced b a = None)"

text \<open>A produced result \<open>p\<close> is in its slot \<open>r\<close> until it is taken (\<open>t\<close>), and is taken once.\<close>
fun slot_ok :: "JobResult option \<Rightarrow> JobResult option \<Rightarrow> JobResult option \<Rightarrow> bool" where
  "slot_ok p None t \<longleftrightarrow> p = t"
| "slot_ok p (Some r) t \<longleftrightarrow> p = Some r \<and> t = None"

lemma slot_ok_unproduced: "slot_ok None r t \<longleftrightarrow> r = None \<and> t = None"
  by (cases r) auto

definition results_ok :: "'s Broker \<Rightarrow> bool" where
  "results_ok b \<longleftrightarrow> distinct (map fst (b_taken b))
    \<and> (\<forall>a. slot_ok (b_produced b a) (job_result (b_objs b a)) (map_of (b_taken b) a))"

lemmas broker_ok_defs = count_ok_def run_ok_def results_ok_def

lemma length_delete:
  "distinct (map fst al) \<Longrightarrow> map_of al k = Some v \<Longrightarrow> length al = Suc (length (AList.delete k al))"
proof (induction al)
  case (Cons p al)
  then show ?case by (cases "fst p = k") (auto simp: delete_id map_of_eq_None_iff)
qed simp

lemma set_obj_fields [simp]:
  "b_jobs (set_obj a j b) = b_jobs b" "b_job_count (set_obj a j b) = b_job_count b" "b_in_flight (set_obj a j b) = b_in_flight b"
  "b_next (set_obj a j b) = b_next b" "b_running (set_obj a j b) = b_running b" "b_cleanup (set_obj a j b) = b_cleanup b"
  "b_store (set_obj a j b) = b_store b" "b_heap (set_obj a j b) = b_heap b" "b_admitting (set_obj a j b) = b_admitting b"
  "b_bypassed (set_obj a j b) = b_bypassed b" "b_removing (set_obj a j b) = b_removing b"
  "b_produced (set_obj a j b) = b_produced b" "b_taken (set_obj a j b) = b_taken b"
  "b_objs (set_obj a j b) = (b_objs b)(a := j)"
  by (simp_all add: set_obj_def)

definition broker_inv :: "'s SubmitContext \<Rightarrow> 's Broker \<Rightarrow> bool" where
  "broker_inv ctx b \<longleftrightarrow> count_ok ctx b \<and> run_ok b \<and> results_ok b"

lemma broker_inv_cong:
  assumes "broker_inv ctx b" "b_jobs b' = b_jobs b" "b_job_count b' = b_job_count b" "b_admitting b' = b_admitting b"
    "b_removing b' = b_removing b" "b_bypassed b' = b_bypassed b" "b_in_flight b' = b_in_flight b" "b_running b' = b_running b"
    "b_next b' = b_next b" "b_produced b' = b_produced b" "b_taken b' = b_taken b"
    "\<And>a. job_result (b_objs b' a) = job_result (b_objs b a)"
  shows "broker_inv ctx b'"
  using assms by (simp add: broker_inv_def broker_ok_defs)

lemma inv_admit: "broker_inv ctx b \<Longrightarrow> admit_job ctx ad b = (ok, b') \<Longrightarrow> broker_inv ctx b'"
  by (cases ad; cases "b_job_count b \<ge> sc_max_jobs ctx") (auto simp: broker_inv_def broker_ok_defs admit_job_def)

lemma inv_fresh:
  assumes "broker_inv ctx b"
  shows "b_next b \<notin> set (b_running b)" "b_produced b (b_next b) = None" "map_of (b_taken b) (b_next b) = None"
proof -
  show "b_next b \<notin> set (b_running b)" using assms by (auto simp: broker_inv_def run_ok_def)
  show p: "b_produced b (b_next b) = None" using assms by (simp add: broker_inv_def run_ok_def)
  have "slot_ok (b_produced b (b_next b)) (job_result (b_objs b (b_next b))) (map_of (b_taken b) (b_next b))"
    using assms by (simp add: broker_inv_def results_ok_def)
  then show "map_of (b_taken b) (b_next b) = None" using p by (simp add: slot_ok_unproduced)
qed

lemma insert_vacant:
  assumes "map_of (b_jobs b) (job_id job) = None"
  shows "insert_job ctx now ap job b = (Accepted (job_id job), set_obj (b_next b)
      (if ap then job\<lparr> job_persisted := True \<rparr> else job)
      (b\<lparr> b_heap := set_reconnect_deadline job (now + sc_reconnect_buffer ctx) (b_heap b),
         b_admitting := b_admitting b - 1, b_jobs := (job_id job, b_next b) # b_jobs b, b_next := Suc (b_next b),
         b_in_flight := b_in_flight b + 1, b_running := b_next b # b_running b \<rparr>))"
  using assms by (simp add: insert_job_def spawn_job_def set_obj_def Let_def)

lemma insert_occupied:
  assumes "map_of (b_jobs b) (job_id job) = Some a"
  shows "insert_job ctx now ap job b = (SubmitOverloaded,
      b\<lparr> b_heap := set_reconnect_deadline job (now + sc_reconnect_buffer ctx) (b_heap b),
         b_admitting := b_admitting b - 1, b_job_count := b_job_count b - 1 \<rparr>)"
  using assms by (simp add: insert_job_def Let_def)

lemma inv_insert:
  assumes "broker_inv ctx b" "b_admitting b > 0" "job_result job = None"
  shows "broker_inv ctx (snd (insert_job ctx now ap job b))"
proof (cases "map_of (b_jobs b) (job_id job)")
  case None
  note f = inv_fresh[OF assms(1)]
  have new: "job_id job \<notin> fst ` set (b_jobs b)" using None by (simp add: map_of_eq_None_iff)
  show ?thesis unfolding insert_vacant[OF None] broker_inv_def
    using assms f new by (auto simp: broker_inv_def broker_ok_defs less_SucI)
next
  case (Some a)
  have "length (b_jobs b) > 0" using Some by (cases "b_jobs b") auto
  then show ?thesis unfolding insert_occupied[OF Some] using assms by (auto simp: broker_inv_def broker_ok_defs)
qed

lemma inv_persist:
  assumes "broker_inv ctx b"
  shows "broker_inv ctx (persist_job ctx a b)"
  by (rule broker_inv_cong[OF assms]) (auto simp: persist_job_def split: option.splits prod.splits sum.splits)

lemma inv_finish:
  assumes "broker_inv ctx b" "a \<in> set (b_running b)"
  shows "broker_inv ctx (finish_job r a b)"
proof -
  have p: "b_produced b a = None" "a < b_next b" using assms by (auto simp: broker_inv_def run_ok_def)
  have "slot_ok (b_produced b a) (job_result (b_objs b a)) (map_of (b_taken b) a)"
    using assms(1) by (simp add: broker_inv_def results_ok_def)
  then have t: "map_of (b_taken b) a = None" using p(1) by (simp add: slot_ok_unproduced)
  have "count_ok ctx (finish_job r a b)" using assms(1) by (simp add: broker_inv_def count_ok_def finish_job_def Let_def)
  moreover have "run_ok (finish_job r a b)"
    using assms p by (auto simp: broker_inv_def run_ok_def finish_job_def Let_def length_remove1)
  moreover have "results_ok (finish_job r a b)"
    using assms(1) t by (auto simp: broker_inv_def results_ok_def finish_job_def Let_def)
  ultimately show ?thesis by (simp add: broker_inv_def)
qed

lemma inv_take:
  assumes "broker_inv ctx b"
  shows "broker_inv ctx (snd (take_result a b))"
proof (cases "job_result (b_objs b a)")
  case (Some r)
  have "slot_ok (b_produced b a) (job_result (b_objs b a)) (map_of (b_taken b) a)"
    using assms by (simp add: broker_inv_def results_ok_def)
  then have t: "b_produced b a = Some r" "map_of (b_taken b) a = None" using Some by simp_all
  show ?thesis using assms Some t
    by (auto simp: broker_inv_def broker_ok_defs take_result_def map_of_eq_None_iff)
qed (use assms in \<open>simp add: take_result_def\<close>)

lemma inv_remove: "broker_inv ctx b \<Longrightarrow> broker_inv ctx (remove_entry jid b)"
  using length_delete[of "b_jobs b" jid]
  by (auto simp: broker_inv_def broker_ok_defs remove_entry_def distinct_delete)

lemma inv_decrement: "broker_inv ctx b \<Longrightarrow> b_removing b > 0 \<Longrightarrow> broker_inv ctx (decrement b)"
  by (auto simp: broker_inv_def broker_ok_defs decrement_def)

lemma inv_schedule: "broker_inv ctx b \<Longrightarrow> broker_inv ctx (schedule_durable_cleanup ctx jid a b)"
  by (erule broker_inv_cong) (simp_all add: schedule_durable_cleanup_def)

lemma cleanup_all_store: "\<exists>s. cleanup_all store jids b = b\<lparr> b_store := s \<rparr>"
proof (induction jids arbitrary: b)
  case (Cons jid jids)
  then obtain s where "cleanup_all store jids (cleanup_one store jid b) = (cleanup_one store jid b)\<lparr> b_store := s \<rparr>" by blast
  then show ?case by (auto simp: cleanup_one_def)
next
  case Nil
  have "cleanup_all store [] b = b\<lparr> b_store := b_store b \<rparr>" by simp
  then show ?case by blast
qed

lemma inv_cleanup:
  assumes "broker_inv ctx b"
  shows "broker_inv ctx (cleanup_worker ctx b)"
proof (cases "sc_job_store ctx")
  case (Some store)
  obtain s where "cleanup_all store (b_cleanup b) (b\<lparr> b_cleanup := [] \<rparr>) = b\<lparr> b_cleanup := [], b_store := s \<rparr>"
    using cleanup_all_store[of store "b_cleanup b" "b\<lparr> b_cleanup := [] \<rparr>"] by auto
  then show ?thesis using Some by (intro broker_inv_cong[OF assms]) (simp_all add: cleanup_worker_def)
qed (use assms in \<open>simp add: cleanup_worker_def\<close>)

lemma sweep_one_cases:
  obtains (keep) "sweep_one ctx now jid b = b" "\<And>a. map_of (b_jobs b) jid = Some a \<Longrightarrow> \<not> expired now a b"
  | (swept) a s where "map_of (b_jobs b) jid = Some a" "expired now a b"
      "sweep_one ctx now jid b = (decrement (remove_entry jid b))\<lparr> b_store := s \<rparr>"
proof (cases "map_of (b_jobs b) jid")
  case (Some a)
  show thesis
  proof (cases "expired now a b")
    case True
    let ?b = "decrement (remove_entry jid b)"
    have same: "?b = ?b\<lparr> b_store := b_store b \<rparr>" by (simp add: decrement_def remove_entry_def)
    have "\<exists>s. sweep_one ctx now jid b = ?b\<lparr> b_store := s \<rparr>"
    proof (cases "sc_job_store ctx")
      case None
      then have "sweep_one ctx now jid b = ?b" using Some True by (simp add: sweep_one_def)
      then show ?thesis using same by metis
    next
      case (Some store)
      then have "sweep_one ctx now jid b =
          (if job_persisted (b_objs ?b a) then ?b\<lparr> b_store := snd (so_delete_job store jid (b_store ?b)) \<rparr> else ?b)"
        using \<open>map_of (b_jobs b) jid = Some a\<close> True by (simp add: sweep_one_def Let_def)
      then show ?thesis using same by metis
    qed
    then show thesis using swept[OF Some True] by blast
  qed (use keep Some in \<open>auto simp: sweep_one_def\<close>)
qed (use keep in \<open>auto simp: sweep_one_def\<close>)

lemma inv_sweep_one:
  assumes "broker_inv ctx b"
  shows "broker_inv ctx (sweep_one ctx now jid b)"
proof (cases rule: sweep_one_cases[of ctx now jid b])
  case (swept a s)
  have "broker_inv ctx (decrement (remove_entry jid b))"
    using inv_decrement[OF inv_remove[OF assms, of jid]] swept(1) by (simp add: remove_entry_def)
  then show ?thesis unfolding swept(3) by (rule broker_inv_cong) simp_all
qed (use assms in simp)

lemma broker_step_inv: "broker_step ctx b b' \<Longrightarrow> broker_inv ctx b \<Longrightarrow> broker_inv ctx b'"
proof (induction rule: broker_step.induct)
  case (lifecycle b h)
  then show ?case by (rule broker_inv_cong) simp_all
next
  case (store b s)
  then show ?case by (rule broker_inv_cong) simp_all
qed (simp_all add: inv_admit inv_insert inv_persist inv_finish inv_take inv_remove inv_decrement inv_schedule inv_cleanup inv_sweep_one)

lemma broker_new_inv: "broker_inv ctx (broker_new s h)"
  by (simp add: broker_new_def broker_inv_def broker_ok_defs blank_job_def)

lemma broker_reachable_inv: "(broker_step ctx)\<^sup>*\<^sup>* (broker_new s h) b \<Longrightarrow> broker_inv ctx b"
  by (induction rule: rtranclp_induct) (auto intro: broker_new_inv broker_step_inv)

section \<open>The functions are runs of the transition system\<close>

lemma step_run: "broker_step ctx b b' \<Longrightarrow> (broker_step ctx)\<^sup>*\<^sup>* b b'"
  by blast

lemma submit_run:
  assumes "submit fill now utc ctx job ad b = Some (out, b')" "job_result job = None"
  shows "(broker_step ctx)\<^sup>*\<^sup>* b b'"
proof -
  obtain job' where job': "job_result job' = None" and
    eq: "(case admit_job ctx ad b of (False, b) \<Rightarrow> Some (SubmitOverloaded, b)
        | (True, b) \<Rightarrow> Some (insert_job ctx now (ad = BypassLimitAlreadyPersisted) job' b)) = Some (out, b')"
  proof (cases "decode_result (job_id job)")
    case (Inl e)
    then obtain jid where "new_job_id fill utc ctx = Some jid"
      using assms(1) by (cases "new_job_id fill utc ctx") (simp_all add: submit_def)
    then show thesis using that[of "job\<lparr> job_id := jid \<rparr>"] assms Inl by (simp add: submit_def)
  next
    case (Inr d)
    then show thesis using that[of job] assms by (simp add: submit_def)
  qed
  show ?thesis
  proof (cases "admit_job ctx ad b")
    case (Pair ok b1)
    show ?thesis
    proof (cases ok)
      case True
      have "broker_step ctx b b1" using Pair True by (auto intro: broker_step.admit)
      moreover have "b_admitting b1 > 0"
        using Pair True by (auto simp: admit_job_def split: SubmissionAdmission.splits if_splits)
      then have "broker_step ctx b1 b'"
        using eq Pair True job' broker_step.insert[of b1 job' ctx now "ad = BypassLimitAlreadyPersisted"] by auto
      ultimately show ?thesis by (rule converse_rtranclp_into_rtranclp[OF _ step_run])
    next
      case False
      then show ?thesis using eq Pair by (auto simp: admit_job_def split: SubmissionAdmission.splits if_splits)
    qed
  qed
qed

lemma run_job_run: "a \<in> set (b_running b) \<Longrightarrow> (broker_step ctx)\<^sup>*\<^sup>* b (run_job ctx timer e a b)"
proof -
  assume a: "a \<in> set (b_running b)"
  have keep: "b_running (persist_job ctx a b) = b_running b"
    by (auto simp: persist_job_def split: option.splits prod.splits sum.splits)
  show ?thesis
  proof (cases "timer \<and> sc_persist_after ctx \<noteq> None")
    case True
    have "broker_step ctx (persist_job ctx a b) (finish_job (end_result e) a (persist_job ctx a b))"
      using a keep by (intro broker_step.finish) simp
    then show ?thesis using True broker_step.persist[OF a, of ctx]
      by (auto simp: run_job_def intro: converse_rtranclp_into_rtranclp)
  qed (auto simp: run_job_def intro: broker_step.finish[OF a])
qed

lemma remove_job_run: "(broker_step ctx)\<^sup>*\<^sup>* b (remove_job jid b)"
proof (cases "map_of (b_jobs b) jid = None")
  case False
  have "broker_step ctx b (remove_entry jid b)" by (rule broker_step.remove)
  moreover have "broker_step ctx (remove_entry jid b) (decrement (remove_entry jid b))"
    using False by (intro broker_step.count) (auto simp: remove_entry_def)
  ultimately show ?thesis using False by (auto simp: remove_job_def intro: converse_rtranclp_into_rtranclp)
qed (simp add: remove_job_def)

lemma try_deliver_run: "try_deliver ctx jid a b = (out, b') \<Longrightarrow> (broker_step ctx)\<^sup>*\<^sup>* b b'"
proof -
  assume d: "try_deliver ctx jid a b = (out, b')"
  have t: "(broker_step ctx)\<^sup>*\<^sup>* b (snd (take_result a b))" by (rule step_run[OF broker_step.take])
  show ?thesis
  proof (cases "take_result a b")
    case (Pair r b1)
    show ?thesis
    proof (cases r)
      case None
      then show ?thesis using d Pair t by (simp add: try_deliver_def)
    next
      case (Some x)
      then have "b' = schedule_durable_cleanup ctx jid a (remove_job jid b1)" using d Pair by (simp add: try_deliver_def)
      moreover have "(broker_step ctx)\<^sup>*\<^sup>* b1 (schedule_durable_cleanup ctx jid a (remove_job jid b1))"
        using remove_job_run[of ctx b1 jid] broker_step.cleanup[of ctx "remove_job jid b1" jid a]
        by (rule rtranclp.rtrancl_into_rtrancl)
      ultimately show ?thesis using t Pair by simp
    qed
  qed
qed

lemma poll_local_run:
  assumes "poll_local ctx now wait jid b = (out, b')"
    and w: "\<And>b notified b'. wait b = (notified, b') \<Longrightarrow> (broker_step ctx)\<^sup>*\<^sup>* b b'"
  shows "(broker_step ctx)\<^sup>*\<^sup>* b b'"
proof (cases "map_of (b_jobs b) jid")
  case (Some a)
  have c: "(broker_step ctx)\<^sup>*\<^sup>* b0 (connect a b0)" for b0 unfolding connect_def by (rule step_run[OF broker_step.lifecycle])
  have d: "(broker_step ctx)\<^sup>*\<^sup>* b0 (disconnect ctx now a b0)" for b0 unfolding disconnect_def by (rule step_run[OF broker_step.lifecycle])
  obtain o1 b1 where 1: "try_deliver ctx jid a (connect a b) = (o1, b1)" by (rule prod.exhaust)
  have r1: "(broker_step ctx)\<^sup>*\<^sup>* b b1" using c try_deliver_run[OF 1] by (rule rtranclp_trans)
  show ?thesis
  proof (cases o1)
    case (Some x)
    then have "b' = disconnect ctx now a b1" using assms(1) 1 \<open>map_of (b_jobs b) jid = Some a\<close> by (simp add: poll_local_def)
    then show ?thesis using r1 d rtranclp_trans by metis
  next
    case None
    obtain n b2 where 2: "wait b1 = (n, b2)" by (rule prod.exhaust)
    obtain o3 b3 where 3: "try_deliver ctx jid a b2 = (o3, b3)" by (rule prod.exhaust)
    have r2: "(broker_step ctx)\<^sup>*\<^sup>* b b2" using r1 w[OF 2] by (rule rtranclp_trans)
    have r3: "(broker_step ctx)\<^sup>*\<^sup>* b b3" using r2 try_deliver_run[OF 3] by (rule rtranclp_trans)
    have "b' = disconnect ctx now a b2 \<or> b' = disconnect ctx now a b3"
      using assms(1) 1 2 3 None \<open>map_of (b_jobs b) jid = Some a\<close>
      by (auto simp: poll_local_def split: if_splits option.splits)
    then show ?thesis using r2 r3 d rtranclp_trans by metis
  qed
qed (use assms(1) in \<open>simp add: poll_local_def\<close>)

text \<open>C2 The broker's counters are exact on every interleaving of submissions, runners, polls and sweeps: the job
  count is the number of jobs in the map plus the submissions and removals under way, so that no decrement is
  lost or doubled; it exceeds \<open>max_jobs\<close> only by recovered jobs; job ids are unique; and \<open>in_flight\<close> is the
  number of running tasks.\<close>
theorem broker_accounting:
  assumes "(broker_step ctx)\<^sup>*\<^sup>* (broker_new s h) b"
  shows "b_job_count b = length (b_jobs b) + b_admitting b + b_removing b
    \<and> b_job_count b \<le> sc_max_jobs ctx + b_bypassed b
    \<and> distinct (map fst (b_jobs b)) \<and> b_in_flight b = length (b_running b)"
  using broker_reachable_inv[OF assms] by (simp add: broker_inv_def broker_ok_defs)

text \<open>C1 A result is delivered exactly once: on every interleaving, what a runner stored for a job is either still in
  its slot or has been taken by exactly one poller, unchanged; no poller receives anything else.\<close>
theorem result_delivered_once:
  assumes "(broker_step ctx)\<^sup>*\<^sup>* (broker_new s h) b"
  shows "distinct (map fst (b_taken b))
    \<and> (\<forall>a r. (a, r) \<in> set (b_taken b) \<longrightarrow> b_produced b a = Some r \<and> job_result (b_objs b a) = None)
    \<and> (\<forall>a r. b_produced b a = Some r \<longrightarrow> (job_result (b_objs b a) = Some r) \<noteq> ((a, r) \<in> set (b_taken b)))
    \<and> (\<forall>a r. job_result (b_objs b a) = Some r \<longrightarrow> b_produced b a = Some r)"
proof -
  have inv: "distinct (map fst (b_taken b))" "\<And>a. slot_ok (b_produced b a) (job_result (b_objs b a)) (map_of (b_taken b) a)"
    using broker_reachable_inv[OF assms] by (simp_all add: broker_inv_def results_ok_def)
  have mem: "(a, r) \<in> set (b_taken b) \<longleftrightarrow> map_of (b_taken b) a = Some r" for a r using inv(1) by simp
  have "b_produced b a = Some r \<and> job_result (b_objs b a) = None" if "map_of (b_taken b) a = Some r" for a r
    using inv(2)[of a] that by (cases "job_result (b_objs b a)") auto
  moreover have "(job_result (b_objs b a) = Some r) \<noteq> (map_of (b_taken b) a = Some r)" if "b_produced b a = Some r" for a r
    using inv(2)[of a] that by (cases "job_result (b_objs b a)") auto
  moreover have "b_produced b a = Some r" if "job_result (b_objs b a) = Some r" for a r using inv(2)[of a] that by simp
  ultimately show ?thesis using inv(1) mem by blast
qed

section \<open>Submit polls\<close>

definition after_wakes :: "('s Broker \<Rightarrow> 's Broker) list \<Rightarrow> 's Broker \<Rightarrow> 's Broker" where
  "after_wakes wakes b = foldl (\<lambda>b wake. wake b) b wakes"

definition still_queued :: "nat \<Rightarrow> 's Broker \<Rightarrow> bool" where
  "still_queued a b \<longleftrightarrow> job_result (b_objs b a) = None \<and> pending_status (b_heap b) (b_objs b a) \<noteq> Processing"

lemma poll_submit_loop_cases:
  "\<exists>k \<le> length wakes. let bk = after_wakes (take k wakes) b in
     (\<forall>i < k. still_queued a (after_wakes (take i wakes) b)) \<and> (still_queued a bk \<longrightarrow> k = length wakes)
     \<and> (poll_submit_loop ctx jid a wakes b = (pending_of jid a bk, bk) \<and> (\<forall>r. job_result (b_objs bk a) = Some r \<longrightarrow> is_deliverable r)
       \<or> (\<exists>r. job_result (b_objs bk a) = Some r \<and> \<not> is_deliverable r
           \<and> poll_submit_loop ctx jid a wakes b
             = (Ready r, schedule_durable_cleanup ctx jid a (remove_job jid (snd (take_result a bk))))))"
proof (induction wakes arbitrary: b)
  case Nil
  show ?case unfolding poll_submit_loop.simps[of ctx jid a "[]" b]
    by (cases "job_result (b_objs b a)") (simp_all add: after_wakes_def)
next
  case (Cons wake wakes)
  show ?case
  proof (cases "still_queued a b")
    case True
    then have step: "poll_submit_loop ctx jid a (wake # wakes) b = poll_submit_loop ctx jid a wakes (wake b)"
      by (simp add: poll_submit_loop.simps[of ctx jid a "wake # wakes"] still_queued_def)
    obtain k where k: "k \<le> length wakes" and rest: "let bk = after_wakes (take k wakes) (wake b) in
        (\<forall>i < k. still_queued a (after_wakes (take i wakes) (wake b))) \<and> (still_queued a bk \<longrightarrow> k = length wakes)
        \<and> (poll_submit_loop ctx jid a wakes (wake b) = (pending_of jid a bk, bk) \<and> (\<forall>r. job_result (b_objs bk a) = Some r \<longrightarrow> is_deliverable r)
          \<or> (\<exists>r. job_result (b_objs bk a) = Some r \<and> \<not> is_deliverable r
              \<and> poll_submit_loop ctx jid a wakes (wake b)
                = (Ready r, schedule_durable_cleanup ctx jid a (remove_job jid (snd (take_result a bk))))))"
      using Cons.IH[of "wake b"] by blast
    have shift: "after_wakes (take (Suc i) (wake # wakes)) b = after_wakes (take i wakes) (wake b)" for i
      by (simp add: after_wakes_def)
    have all: "\<forall>i < Suc k. still_queued a (after_wakes (take i (wake # wakes)) b)"
    proof (intro allI impI)
      fix i assume "i < Suc k"
      then show "still_queued a (after_wakes (take i (wake # wakes)) b)"
        using rest True shift by (cases i) (auto simp: Let_def after_wakes_def)
    qed
    show ?thesis unfolding Let_def step
    proof (rule exI[of _ "Suc k"], intro conjI)
      show "Suc k \<le> length (wake # wakes)" using k by simp
      show "still_queued a (after_wakes (take (Suc k) (wake # wakes)) b) \<longrightarrow> Suc k = length (wake # wakes)"
        unfolding shift using rest unfolding Let_def by auto
    qed (use all rest[unfolded Let_def] in \<open>auto simp only: shift\<close>)
  next
    case False
    have zero: "after_wakes (take 0 (wake # wakes)) b = b" by (simp add: after_wakes_def)
    have "poll_submit_loop ctx jid a (wake # wakes) b = (pending_of jid a b, b) \<and> (\<forall>r. job_result (b_objs b a) = Some r \<longrightarrow> is_deliverable r)
       \<or> (\<exists>r. job_result (b_objs b a) = Some r \<and> \<not> is_deliverable r
           \<and> poll_submit_loop ctx jid a (wake # wakes) b
             = (Ready r, schedule_durable_cleanup ctx jid a (remove_job jid (snd (take_result a b)))))"
      using False unfolding poll_submit_loop.simps[of ctx jid a "wake # wakes" b] still_queued_def
      by (cases "job_result (b_objs b a)") simp_all
    then show ?thesis unfolding Let_def
      by (intro exI[of _ 0] conjI) (use False in \<open>simp_all only: zero, simp_all\<close>)
  qed
qed

text \<open>A submit poll never consumes a deliverable result: the loop returns at the first state, after some of the
  wake-ups, in which the job has a result or is being processed, or at its deadline; it takes the result only if
  that is a failure, and otherwise leaves the broker exactly as it found it, so that a success or redirect stays
  in its slot for the client's next poll.\<close>
lemma poll_submit_keeps_deliverable:
  "\<exists>k \<le> length wakes. \<exists>bk. bk = after_wakes (take k wakes) b
    \<and> (\<forall>i < k. still_queued a (after_wakes (take i wakes) b)) \<and> (still_queued a bk \<longrightarrow> k = length wakes)
    \<and> (poll_submit_loop ctx jid a wakes b = (pending_of jid a bk, bk) \<and> (\<forall>r. job_result (b_objs bk a) = Some r \<longrightarrow> is_deliverable r)
      \<or> (\<exists>r. job_result (b_objs bk a) = Some r \<and> \<not> is_deliverable r
          \<and> fst (poll_submit_loop ctx jid a wakes b) = Ready r
          \<and> job_result (b_objs (snd (poll_submit_loop ctx jid a wakes b)) a) = None
          \<and> map_of (b_jobs (snd (poll_submit_loop ctx jid a wakes b))) jid = None))"
proof -
  have gone: "job_result (b_objs (schedule_durable_cleanup ctx jid a (remove_job jid (snd (take_result a bk)))) a) = None
      \<and> map_of (b_jobs (schedule_durable_cleanup ctx jid a (remove_job jid (snd (take_result a bk))))) jid = None" for bk
    by (auto simp: schedule_durable_cleanup_def remove_job_def decrement_def remove_entry_def take_result_def
        delete_conv' split: option.splits)
  define out where "out = poll_submit_loop ctx jid a wakes b"
  obtain k where k: "k \<le> length wakes" "\<forall>i < k. still_queued a (after_wakes (take i wakes) b)"
      "still_queued a (after_wakes (take k wakes) b) \<longrightarrow> k = length wakes"
    and cases: "out = (pending_of jid a (after_wakes (take k wakes) b), after_wakes (take k wakes) b)
        \<and> (\<forall>r. job_result (b_objs (after_wakes (take k wakes) b) a) = Some r \<longrightarrow> is_deliverable r)
      \<or> (\<exists>r. job_result (b_objs (after_wakes (take k wakes) b) a) = Some r \<and> \<not> is_deliverable r
        \<and> out = (Ready r, schedule_durable_cleanup ctx jid a (remove_job jid (snd (take_result a (after_wakes (take k wakes) b))))))"
    using poll_submit_loop_cases[of wakes b a ctx jid] unfolding Let_def out_def by blast
  define bk where "bk = after_wakes (take k wakes) b"
  have "out = (pending_of jid a bk, bk) \<and> (\<forall>r. job_result (b_objs bk a) = Some r \<longrightarrow> is_deliverable r)
      \<or> (\<exists>r. job_result (b_objs bk a) = Some r \<and> \<not> is_deliverable r \<and> fst out = Ready r
          \<and> job_result (b_objs (snd out) a) = None \<and> map_of (b_jobs (snd out)) jid = None)"
    using cases gone[of bk] unfolding bk_def[symmetric] by auto
  then show ?thesis
    by (intro exI[of _ k] exI[of _ bk] conjI k(1) bk_def k(2) k(3)[folded bk_def]) (simp add: out_def)
qed

section \<open>Sweeping\<close>

lemma sweep_one_fields:
  "b_objs (sweep_one ctx now jid b) = b_objs b" "b_heap (sweep_one ctx now jid b) = b_heap b"
  "b_running (sweep_one ctx now jid b) = b_running b" "b_taken (sweep_one ctx now jid b) = b_taken b"
  by (cases rule: sweep_one_cases[of ctx now jid b]; simp add: decrement_def remove_entry_def)+

lemma sweep_all_fields:
  "b_objs (sweep_all ctx now jids b) = b_objs b" "b_heap (sweep_all ctx now jids b) = b_heap b"
  "b_running (sweep_all ctx now jids b) = b_running b" "b_taken (sweep_all ctx now jids b) = b_taken b"
  by (induction jids arbitrary: b) (simp_all add: sweep_one_fields)

lemma expired_cong: "b_objs b' = b_objs b \<Longrightarrow> b_heap b' = b_heap b \<Longrightarrow> expired now a b' = expired now a b"
  by (simp add: expired_def)

lemma sweep_one_jobs:
  assumes "distinct (map fst (b_jobs b))"
  shows "b_jobs (sweep_one ctx now jid b) = filter (\<lambda>e. \<not> (fst e = jid \<and> expired now (snd e) b)) (b_jobs b)"
proof (cases rule: sweep_one_cases[of ctx now jid b])
  case keep
  have "\<not> (fst e = jid \<and> expired now (snd e) b)" if "e \<in> set (b_jobs b)" for e
    using keep(2)[of "snd e"] map_of_is_SomeI[OF assms, of "fst e" "snd e"] that by auto
  then show ?thesis using keep(1) by (simp add: filter_id_conv)
next
  case (swept a s)
  have "fst e \<noteq> jid \<longleftrightarrow> \<not> (fst e = jid \<and> expired now (snd e) b)" if "e \<in> set (b_jobs b)" for e
    using swept(1,2) map_of_is_SomeI[OF assms, of "fst e" "snd e"] that by auto
  then have "filter (\<lambda>e. fst e \<noteq> jid) (b_jobs b) = filter (\<lambda>e. \<not> (fst e = jid \<and> expired now (snd e) b)) (b_jobs b)"
    by (intro filter_cong) simp_all
  moreover have "AList.delete jid (b_jobs b) = filter (\<lambda>e. fst e \<noteq> jid) (b_jobs b)"
    unfolding AList.delete_eq by (rule filter_cong) auto
  ultimately show ?thesis using swept(1) unfolding swept(3) by (simp add: decrement_def remove_entry_def)
qed

lemma sweep_all_jobs:
  "distinct (map fst (b_jobs b)) \<Longrightarrow>
    b_jobs (sweep_all ctx now jids b) = filter (\<lambda>e. \<not> (fst e \<in> set jids \<and> expired now (snd e) b)) (b_jobs b)"
proof (induction jids arbitrary: b)
  case (Cons jid jids)
  have d: "distinct (map fst (b_jobs (sweep_one ctx now jid b)))"
    using Cons.prems by (simp add: sweep_one_jobs distinct_map_filter)
  show ?case
    using Cons.IH[OF d] Cons.prems expired_cong[of "sweep_one ctx now jid b" b, OF sweep_one_fields(1,2)]
    by (auto simp: sweep_one_jobs intro!: filter_cong)
qed simp

text \<open>A sweep removes exactly the jobs that have a result and whose client is gone: every other job stays in the
  map with its result slot, and lifecycles, running tasks and delivered results are not touched.\<close>
lemma sweep_exact:
  assumes "(broker_step ctx)\<^sup>*\<^sup>* (broker_new s h) b"
  shows "b_jobs (snd (sweep ctx now utc_now b)) = filter (\<lambda>e. \<not> expired now (snd e) b) (b_jobs b)
    \<and> b_objs (snd (sweep ctx now utc_now b)) = b_objs b \<and> b_running (snd (sweep ctx now utc_now b)) = b_running b
    \<and> b_taken (snd (sweep ctx now utc_now b)) = b_taken b
    \<and> (\<forall>e \<in> set (b_jobs b). snd e \<in> set (b_running b) \<longrightarrow> e \<in> set (b_jobs (snd (sweep ctx now utc_now b))))"
proof -
  have inv: "broker_inv ctx b" by (rule broker_reachable_inv[OF assms])
  then have d: "distinct (map fst (b_jobs b))" by (simp add: broker_inv_def count_ok_def)
  let ?ids = "map fst (filter (\<lambda>e. expired now (snd e) b) (b_jobs b))"
  have out: "b_jobs (snd (sweep ctx now utc_now b)) = b_jobs (sweep_all ctx now ?ids b)"
    "b_objs (snd (sweep ctx now utc_now b)) = b_objs b" "b_running (snd (sweep ctx now utc_now b)) = b_running b"
    "b_taken (snd (sweep ctx now utc_now b)) = b_taken b"
    by (simp_all add: sweep_def Let_def sweep_all_fields split: option.splits prod.splits)
  have jobs: "b_jobs (snd (sweep ctx now utc_now b)) = filter (\<lambda>e. \<not> expired now (snd e) b) (b_jobs b)"
    unfolding out(1) sweep_all_jobs[OF d] by (rule filter_cong) (auto simp: image_iff)
  have run: "job_result (b_objs b a) = None" if "a \<in> set (b_running b)" for a
  proof -
    have "b_produced b a = None" using inv that by (auto simp: broker_inv_def run_ok_def)
    moreover have "slot_ok (b_produced b a) (job_result (b_objs b a)) (map_of (b_taken b) a)"
      using inv by (simp add: broker_inv_def results_ok_def)
    ultimately show ?thesis by (simp add: slot_ok_unproduced)
  qed
  have "\<not> expired now (snd e) b" if "snd e \<in> set (b_running b)" for e :: "string \<times> nat"
    using run[OF that] by (simp add: expired_def)
  then show ?thesis using out(2-4) by (simp add: jobs)
qed

section \<open>Cancellation and errors through the pipeline\<close>

text \<open>Cancelling a job reaches its running pipeline: the clone the runner dispatches shares the cancellation flag, so
  that a validated router which has not passed its first action yet ends the job as \<open>Cancelled\<close> without running
  any action.\<close>
lemma cancel_reaches_runner:
  assumes "map_of (b_jobs b) jid = Some a" "validate router = Inr ()" "router \<noteq> []"
  shows "fst (cancel jid b)
    \<and> dispatch router (job_clone (b_objs b a)) \<lparr> w_heap = b_heap (snd (cancel jid b)), w_now = now \<rparr>
      = (JR_Cancelled, \<lparr> w_heap = b_heap (snd (cancel jid b)), w_now = now \<rparr>)
    \<and> b_jobs (snd (cancel jid b)) = b_jobs b"
proof -
  have "is_cancelled (b_heap (snd (cancel jid b))) (job_clone (b_objs b a))"
    using assms(1) by (simp add: cancel_def is_cancelled_def request_cancel_def lc_of_def lc_update_def)
  then have "run_routes router (job_clone (b_objs b a)) [] \<lparr> w_heap = b_heap (snd (cancel jid b)), w_now = now \<rparr>
      = (Inl AE_Cancelled, \<lparr> w_heap = b_heap (snd (cancel jid b)), w_now = now \<rparr>)"
    using assms(2,3) by (intro cancelled_stops_first) (simp_all add: validate_iff(1))
  then show ?thesis using assms(1) by (simp add: dispatch_def switch_dispatch_def dispatch_result_def cancel_def)
qed

section \<open>Examples\<close>

definition demo_ctx :: "unit SubmitContext" where
  "demo_ctx = \<lparr> sc_max_jobs = 1, sc_broker_id = ''a-b-0'', sc_site = ''a'', sc_env = ''b'', sc_broker_slot = 0,
    sc_job_store = None, sc_persist_after = None, sc_reconnect_buffer = 5 \<rparr>"

definition demo_accepted :: "unit Broker" where
  "demo_accepted = snd (insert_job demo_ctx 6 False demo_job (snd (admit_job demo_ctx EnforceLimit (broker_new () demo_heap))))"

definition demo_done :: "unit Broker" where
  "demo_done = finish_job (JR_Error ''bad'') 0 demo_accepted"

lemma demo_accepted_run: "(broker_step demo_ctx)\<^sup>*\<^sup>* (broker_new () demo_heap) demo_accepted"
proof -
  have "broker_step demo_ctx (broker_new () demo_heap) (snd (admit_job demo_ctx EnforceLimit (broker_new () demo_heap)))"
    by (rule broker_step.admit[of _ EnforceLimit]) (simp add: admit_job_def demo_ctx_def broker_new_def)
  moreover have "broker_step demo_ctx (snd (admit_job demo_ctx EnforceLimit (broker_new () demo_heap))) demo_accepted"
    unfolding demo_accepted_def
    by (rule broker_step.insert) (simp_all add: admit_job_def demo_ctx_def broker_new_def demo_job_def job_new_with_id_def alloc_lifecycle_def)
  ultimately show ?thesis by (rule converse_rtranclp_into_rtranclp[OF _ step_run])
qed

lemma demo_done_run: "(broker_step demo_ctx)\<^sup>*\<^sup>* (broker_new () demo_heap) demo_done"
proof (rule rtranclp.rtrancl_into_rtrancl[OF demo_accepted_run])
  have "b_running demo_accepted = [0]" by code_simp
  then show "broker_step demo_ctx demo_accepted demo_done" unfolding demo_done_def by (intro broker_step.finish) simp
qed

theorem broker_accounting_witness: "b_job_count demo_accepted \<le> 1 \<and> b_in_flight demo_accepted = 1"
proof -
  have "b_bypassed demo_accepted = 0" "length (b_running demo_accepted) = 1" "sc_max_jobs demo_ctx = 1" by code_simp+
  with broker_accounting[OF demo_accepted_run] show ?thesis by simp
qed

theorem result_delivered_once_witness: "b_produced demo_done 0 = Some (JR_Error ''bad'')"
proof -
  have "job_result (b_objs demo_done 0) = Some (JR_Error ''bad'')" by code_simp
  with result_delivered_once[OF demo_done_run] show ?thesis by blast
qed

end
