(* ===== verification/Broker_Recovery.thy ===== *)
theory Broker_Recovery
  imports Broker_Runtime Remote_Pool
begin

text \<open>
  Polling across brokers and recovery (\<open>bits/src/runtime/recovery.rs\<close>, \<open>Bits::poll\<close> in \<open>bits.rs\<close>).

  A poll for a job that is not local goes to the broker named by the job id while that broker's lease is
  alive, and otherwise claims the durable record and restarts the job here.  The HTTP client, its header
  conversion, the floating-point division of a duration, the clocks and what happens while a local poll
  waits are the fields of \<open>PollEnv\<close>.  A response carries what the client library reports of it.
\<close>

section \<open>Environment\<close>

record HttpResponse =
  hr_status :: StatusCode
  hr_headers :: "(string \<times> string) list"
  hr_content_length :: "u64 option"
  hr_stream :: ByteStream
  hr_text :: "string option"

text \<open>\<open>pe_http url timeout\<close> is \<open>None\<close> on a timeout or connection error; \<open>pe_latency\<close> is how long a claim takes.\<close>
record 's PollEnv =
  pe_now :: instant
  pe_utc_now :: datetime
  pe_fill_bytes :: "nat \<Rightarrow> u8 list"
  pe_div_f64 :: "duration \<Rightarrow> nat \<Rightarrow> duration"
  pe_http :: "string \<Rightarrow> duration \<Rightarrow> HttpResponse option"
  pe_to_str :: "string \<Rightarrow> string option"
  pe_wait :: "'s Broker \<Rightarrow> bool \<times> 's Broker"
  pe_latency :: "'s \<Rightarrow> duration"

definition millis :: "nat \<Rightarrow> duration" where "millis n = n * 1000000"
definition secs :: "nat \<Rightarrow> duration" where "secs n = n * 1000000000"

section \<open>Leases\<close>

definition lease_grace_duration :: "(duration \<Rightarrow> nat \<Rightarrow> duration) \<Rightarrow> BrokerLeaseRecord \<Rightarrow> int" where
  "lease_grace_duration div_f64 lease =
    (let ttl = nat (blr_lease_until lease - blr_updated_at lease);
         grace = min (div_f64 ttl 10) (secs 1)
     in unwrap_or (chrono_from_std grace) 0)"

definition lease_is_active_with_grace :: "(duration \<Rightarrow> nat \<Rightarrow> duration) \<Rightarrow> datetime \<Rightarrow> BrokerLeaseRecord \<Rightarrow> bool" where
  "lease_is_active_with_grace div_f64 utc_now lease \<longleftrightarrow> blr_lease_until lease + lease_grace_duration div_f64 lease > utc_now"

datatype LeaseLookup = LeaseActive BrokerLeaseRecord | MissingOrExpired | LeaseUnknown

definition lookup_owner_lease :: "'s PollEnv \<Rightarrow> 's SubmitContext \<Rightarrow> string \<Rightarrow> 's Broker \<Rightarrow> LeaseLookup" where
  "lookup_owner_lease env ctx owner b =
    (case sc_job_store ctx of
       None \<Rightarrow> LeaseUnknown
     | Some store \<Rightarrow>
         (case so_get_broker_lease store owner (b_store b) of
            Inr (Some lease) \<Rightarrow>
              if lease_is_active_with_grace (pe_div_f64 env) (pe_utc_now env) lease then LeaseActive lease else MissingOrExpired
          | Inr None \<Rightarrow> MissingOrExpired
          | Inl _ \<Rightarrow> LeaseUnknown))"

section \<open>Claiming with backoff\<close>

text \<open>\<open>claim s\<close> is one call of \<open>claim_if_owner\<close> with its duration.  The clock advances by the calls and by the
  sleeps, which are positive, so that the loop ends at the deadline at the latest.\<close>
function claim_loop :: "('s \<Rightarrow> (ClaimResult db \<times> 's) \<times> duration) \<Rightarrow> instant \<Rightarrow> duration \<Rightarrow> instant \<Rightarrow> 's \<Rightarrow> ClaimResult db \<times> 's" where
  "claim_loop claim deadline delay now s =
    (case claim s of
       ((Inr result, s), _) \<Rightarrow> (Inr result, s)
     | ((Inl (Backend message), s), elapsed) \<Rightarrow>
         let now = now + elapsed;
             sleep_for = min delay (deadline - now)
         in if now \<ge> deadline then (Inl (Backend message), s)
            else if sleep_for = 0 then (Inl (Backend message), s)
            else claim_loop claim deadline (min (2 * delay) (secs 1)) (now + sleep_for) s
     | ((Inl e, s), _) \<Rightarrow> (Inl e, s))"
  by pat_completeness auto
termination
  by (relation "measure (\<lambda>(claim, deadline, delay, now, s). deadline - now)") auto

declare claim_loop.simps [simp del]

definition claim_with_backoff :: "('s \<Rightarrow> (ClaimResult db \<times> 's) \<times> duration) \<Rightarrow> instant \<Rightarrow> duration option \<Rightarrow> 's \<Rightarrow> ClaimResult db \<times> 's" where
  "claim_with_backoff claim now timeout s =
    claim_loop claim (now + min (unwrap_or timeout (secs 2)) (secs 2)) (millis 100) now s"

section \<open>Proxying to the owner\<close>

definition PENDING_STATUS_HEADER :: string where "PENDING_STATUS_HEADER = ''x-bits-pending-status''"

definition header_str :: "(string \<Rightarrow> string option) \<Rightarrow> string \<Rightarrow> HttpResponse \<Rightarrow> string option" where
  "header_str to_str name resp = Option.bind (map_of (hr_headers resp) name) to_str"

primrec before_char :: "char \<Rightarrow> string \<Rightarrow> string" where
  "before_char c [] = []"
| "before_char c (x # xs) = (if x = c then [] else x # before_char c xs)"

text \<open>\<open>location.split('?').next()\<close>, then \<open>split('/').next_back()\<close>.\<close>
definition last_segment :: "string \<Rightarrow> string" where
  "last_segment location = rev (before_char (CHR ''/'') (rev (before_char (CHR ''?'') location)))"

definition trim_end_slashes :: "string \<Rightarrow> string" where
  "trim_end_slashes s = rev (dropWhile (\<lambda>c. c = CHR ''/'') (rev s))"

definition parse_u64 :: "string \<Rightarrow> u64 option" where
  "parse_u64 s =
    (let ds = (case s of c # cs \<Rightarrow> if c = CHR ''+'' then cs else s | [] \<Rightarrow> [])
     in if ds = [] \<or> \<not> list_all is_digit ds then None
        else if digits_value ds < 2 ^ 64 then Some (word_of_int (digits_value ds)) else None)"

definition is_redirect_status :: "StatusCode \<Rightarrow> bool" where
  "is_redirect_status status \<longleftrightarrow> status = 303 \<or> status = 307 \<or> status = 302 \<or> status = 308"

definition proxied_success :: "(string \<Rightarrow> string option) \<Rightarrow> HttpResponse \<Rightarrow> PollOutcome" where
  "proxied_success to_str resp =
    (let content_type = (case map_of (hr_headers resp) ''content-type'' of
           Some value \<Rightarrow> (case to_str value of Some s \<Rightarrow> s | None \<Rightarrow> octet_stream)
         | None \<Rightarrow> octet_stream);
         sz = (case hr_content_length resp of Some n \<Rightarrow> sint n | None \<Rightarrow> - 1)
     in Ready (JR_Success content_type sz (hr_stream resp)))"

definition proxied_redirect :: "(string \<Rightarrow> string option) \<Rightarrow> string \<Rightarrow> PendingStatus \<Rightarrow> HttpResponse \<Rightarrow> PollOutcome" where
  "proxied_redirect to_str jid pending resp =
    (let location = unwrap_or (header_str to_str ''location'' resp) []
     in if location = [] then Pending jid pending
        else if last_segment location = jid then Pending jid pending
        else Ready (JR_Redirect location ''proxied redirect''
               (header_str to_str ''x-polytope-content-type'' resp)
               (Option.bind (header_str to_str ''x-polytope-content-length'' resp) parse_u64)))"

definition owner_not_found_outcome :: "'s SubmitContext \<Rightarrow> string \<Rightarrow> 's Broker \<Rightarrow> PollOutcome \<times> 's Broker" where
  "owner_not_found_outcome ctx jid b =
    (case sc_job_store ctx of
       None \<Rightarrow> (PollNotFound, b)
     | Some store \<Rightarrow>
         (case durable_job_present (so_claim_if_owner store) jid (b_store b) of
            (Inr True, s) \<Rightarrow> (queued jid, b\<lparr> b_store := s \<rparr>)
          | (Inr False, s) \<Rightarrow> (PollNotFound, b\<lparr> b_store := s \<rparr>)
          | (Inl _, s) \<Rightarrow> (queued jid, b\<lparr> b_store := s \<rparr>)))"

definition proxy_response :: "'s PollEnv \<Rightarrow> 's SubmitContext \<Rightarrow> string \<Rightarrow> HttpResponse \<Rightarrow> 's Broker \<Rightarrow> PollOutcome \<times> 's Broker" where
  "proxy_response env ctx jid resp b =
    (let status = hr_status resp;
         pending = unwrap_or (Option.bind (header_str (pe_to_str env) PENDING_STATUS_HEADER resp) pending_status_from_header) Queued
     in if status = 200 then (proxied_success (pe_to_str env) resp, b)
        else if is_redirect_status status then (proxied_redirect (pe_to_str env) jid pending resp, b)
        else if status = 404 then owner_not_found_outcome ctx jid b
        else if status = 400 then (Ready (JR_Error (unwrap_or (hr_text resp) [])), b)
        else if status = 410 then (Ready JR_Cancelled, b)
        else if status = 401 \<or> status = 403 then (queued jid, b)
        else if status = 429 then (queued jid, b)
        else if 500 \<le> status \<and> status < 600 then (queued jid, b)
        else (queued jid, b))"

definition try_proxy_with_lease :: "'s PollEnv \<Rightarrow> 's SubmitContext \<Rightarrow> duration \<Rightarrow> BrokerLeaseRecord \<Rightarrow> string
    \<Rightarrow> duration option \<Rightarrow> 's Broker \<Rightarrow> PollOutcome option \<times> 's Broker" where
  "try_proxy_with_lease env ctx internal_poll_timeout lease jid timeout b =
    (let url = trim_end_slashes (blr_internal_poll_base_url lease) @ ''/'' @ jid
     in case pe_http env url (unwrap_or timeout internal_poll_timeout) of
          None \<Rightarrow> (None, b)
        | Some resp \<Rightarrow> (case proxy_response env ctx jid resp b of (out, b) \<Rightarrow> (Some out, b)))"

section \<open>Polling\<close>

definition slot_from_job_id :: "string \<Rightarrow> DecodeError + string" where
  "slot_from_job_id jid =
    bind_result (decode_result jid) (\<lambda>d.
      Inr (di_site d @ ''-'' @ di_env d @ ''-'' @ show_uint (uint (di_broker_slot d))))"

definition claim_job :: "'s PollEnv \<Rightarrow> 's store_ops \<Rightarrow> 's SubmitContext \<Rightarrow> string \<Rightarrow> string \<Rightarrow> duration option
    \<Rightarrow> 's Broker \<Rightarrow> ClaimResult db \<times> 's Broker" where
  "claim_job env store ctx jid owner timeout b =
    (case claim_with_backoff (\<lambda>s. (so_claim_if_owner store jid owner (sc_broker_id ctx) s, pe_latency env s))
            (pe_now env) timeout (b_store b) of
       (r, s) \<Rightarrow> (r, b\<lparr> b_store := s \<rparr>))"

text \<open>The restored job is submitted and polled here; \<open>None\<close> is the panic of a failing id generation.\<close>
definition recover_job :: "'s PollEnv \<Rightarrow> 's SubmitContext \<Rightarrow> string \<Rightarrow> PersistentJobRecord \<Rightarrow> 's Broker
    \<Rightarrow> (PollOutcome \<times> 's Broker) option" where
  "recover_job env ctx jid record b =
    (case job_restore (pe_now env) record (b_heap b) of (job, h) \<Rightarrow>
     case submit_with_state (pe_fill_bytes env) (pe_now env) (pe_utc_now env) ctx job True (b\<lparr> b_heap := h \<rparr>) of
       None \<Rightarrow> None
     | Some (_, b) \<Rightarrow>
         (case poll_local ctx (pe_now env) (pe_wait env) jid b of
            (Some out, b) \<Rightarrow> Some (out, b)
          | (None, b) \<Rightarrow> Some (queued jid, b)))"

definition after_claim :: "'s PollEnv \<Rightarrow> 's SubmitContext \<Rightarrow> duration \<Rightarrow> string \<Rightarrow> string \<Rightarrow> duration option
    \<Rightarrow> ClaimResult db \<Rightarrow> 's Broker \<Rightarrow> (PollOutcome \<times> 's Broker) option" where
  "after_claim env ctx internal_poll_timeout jid owner timeout r b =
    (case r of
       Inr (CR_Claimed record) \<Rightarrow> recover_job env ctx jid record b
     | Inr (CR_Active owner_broker_id) \<Rightarrow>
         if owner_broker_id = sc_broker_id ctx then Some (queued jid, b)
         else (case lookup_owner_lease env ctx owner_broker_id b of
                 LeaseActive lease \<Rightarrow>
                   (case try_proxy_with_lease env ctx internal_poll_timeout lease jid timeout b of
                      (Some out, b) \<Rightarrow> Some (out, b)
                    | (None, b) \<Rightarrow> Some (queued jid, b))
               | _ \<Rightarrow> Some (queued jid, b))
     | Inr CR_NotFound \<Rightarrow> Some (if owner = sc_broker_id ctx then PollNotFound else JobLost, b)
     | Inl _ \<Rightarrow> Some (queued jid, b))"

definition poll :: "'s PollEnv \<Rightarrow> 's SubmitContext \<Rightarrow> duration \<Rightarrow> string \<Rightarrow> duration option \<Rightarrow> 's Broker
    \<Rightarrow> (PollOutcome \<times> 's Broker) option" where
  "poll env ctx internal_poll_timeout jid timeout b =
    (case poll_local ctx (pe_now env) (pe_wait env) jid b of
       (Some out, b) \<Rightarrow> Some (out, b)
     | (None, b) \<Rightarrow>
         (case slot_from_job_id jid of
            Inl _ \<Rightarrow> Some (PollNotFound, b)
          | Inr owner \<Rightarrow>
              let claim = (case sc_job_store ctx of
                    None \<Rightarrow> Some (PollNotFound, b)
                  | Some store \<Rightarrow>
                      (case claim_job env store ctx jid owner timeout b of
                         (r, b) \<Rightarrow> after_claim env ctx internal_poll_timeout jid owner timeout r b))
              in if owner \<noteq> sc_broker_id ctx
                 then (case lookup_owner_lease env ctx owner b of
                         LeaseActive lease \<Rightarrow>
                           (case try_proxy_with_lease env ctx internal_poll_timeout lease jid timeout b of
                              (Some out, b) \<Rightarrow> Some (out, b)
                            | (None, b) \<Rightarrow> Some (queued jid, b))
                       | LeaseUnknown \<Rightarrow> Some (queued jid, b)
                       | MissingOrExpired \<Rightarrow> claim)
                 else claim))"

section \<open>The lease heartbeat\<close>

definition heartbeat_tick :: "(duration \<Rightarrow> nat \<Rightarrow> duration) \<Rightarrow> duration \<Rightarrow> duration" where
  "heartbeat_tick div_f64 ttl = max (div_f64 ttl 2) (millis 100)"

text \<open>The shutdown drain: it sleeps in steps of 50 ms while jobs are in flight, up to the lease's lifetime.\<close>
function drain_wait :: "(instant \<Rightarrow> nat) \<Rightarrow> instant \<Rightarrow> instant \<Rightarrow> instant" where
  "drain_wait in_flight deadline now =
    (if in_flight now > 0 \<and> now < deadline then drain_wait in_flight deadline (now + millis 50) else now)"
  by pat_completeness auto
termination
  by (relation "measure (\<lambda>(f, deadline, now). deadline - now)") (auto simp: millis_def)

declare drain_wait.simps [simp del]

definition drain_and_delete :: "'s store_ops \<Rightarrow> string \<Rightarrow> duration \<Rightarrow> (instant \<Rightarrow> nat) \<Rightarrow> instant \<Rightarrow> 's \<Rightarrow> instant \<times> 's" where
  "drain_and_delete store broker_id ttl in_flight now s =
    (let t = drain_wait in_flight (now + ttl) now in (t, snd (so_delete_broker_lease store broker_id s)))"

text \<open>One round of the heartbeat thread: whether it goes on, and the store.  \<open>stopped1\<close> and \<open>stopped2\<close> are what
  \<open>is_stopped\<close> returns at its two checks.\<close>
definition heartbeat_round :: "'s store_ops \<Rightarrow> string \<Rightarrow> string \<Rightarrow> duration \<Rightarrow> (instant \<Rightarrow> nat) \<Rightarrow> instant \<Rightarrow> datetime
    \<Rightarrow> bool \<Rightarrow> bool \<Rightarrow> 's \<Rightarrow> bool \<times> 's" where
  "heartbeat_round store broker_id base_url ttl in_flight now utc_now stopped1 stopped2 s =
    (if stopped1 then (False, snd (drain_and_delete store broker_id ttl in_flight now s))
     else case so_upsert_broker_lease store utc_now broker_id base_url ttl s of
            (Inr _, s) \<Rightarrow> (True, s)
          | (Inl _, s) \<Rightarrow>
              if stopped2 then (False, snd (drain_and_delete store broker_id ttl in_flight now s))
              else (True, snd (so_upsert_broker_lease store utc_now broker_id base_url ttl s)))"

section \<open>The claim loop ends\<close>

text \<open>The store with a counter of the claims made.\<close>
definition counted :: "('s \<Rightarrow> (ClaimResult db \<times> 's) \<times> duration) \<Rightarrow> 's \<times> nat \<Rightarrow> (ClaimResult db \<times> 's \<times> nat) \<times> duration" where
  "counted claim st = (case st of (s, n) \<Rightarrow> case claim s of ((r, s'), e) \<Rightarrow> ((r, (s', Suc n)), e))"

primrec total_delay :: "nat \<Rightarrow> duration \<Rightarrow> duration" where
  "total_delay 0 delay = 0"
| "total_delay (Suc k) delay = delay + total_delay k (min (2 * delay) (secs 1))"

lemma claim_loop_retry:
  assumes "claim s = ((Inl (Backend m), s'), e)" "now + e < deadline" "0 < delay"
  shows "claim_loop claim deadline delay now s = claim_loop claim deadline (min (2 * delay) (secs 1))
    (now + e + min delay (deadline - (now + e))) s'"
proof -
  have "min delay (deadline - (now + e)) > 0" using assms(2,3) by simp
  then show ?thesis using assms(1,2) by (subst claim_loop.simps) (simp add: Let_def del: min_less_iff_conj)
qed

lemma claim_loop_stop:
  assumes "claim s = ((r, s'), e)" "\<not> (\<exists>m. r = Inl (Backend m) \<and> now + e < deadline \<and> 0 < delay)"
  shows "claim_loop claim deadline delay now s = (r, s')"
proof (cases "\<exists>m. r = Inl (Backend m)")
  case True
  then have "now + e \<ge> deadline \<or> delay = 0" using assms(2) by auto
  then show ?thesis using assms(1) True by (subst claim_loop.simps) (auto simp: Let_def)
next
  case False
  then show ?thesis using assms(1) by (subst claim_loop.simps) (auto split: sum.splits DbError.splits)
qed

lemma claim_loop_calls:
  assumes "deadline - now \<le> total_delay k delay"
  shows "n < snd (snd (claim_loop (counted claim) deadline delay now (s, n)))
    \<and> snd (snd (claim_loop (counted claim) deadline delay now (s, n))) \<le> n + k + 1"
  using assms
proof (induction k arbitrary: delay now s n)
  case 0
  obtain r s' e where c: "claim s = ((r, s'), e)" by (metis prod.exhaust)
  then have "counted claim (s, n) = ((r, (s', Suc n)), e)" by (simp add: counted_def)
  then have "claim_loop (counted claim) deadline delay now (s, n) = (r, (s', Suc n))"
    using 0 by (intro claim_loop_stop) auto
  then show ?case by simp
next
  case (Suc k)
  obtain r s' e where "claim s = ((r, s'), e)" by (metis prod.exhaust)
  then have c: "counted claim (s, n) = ((r, (s', Suc n)), e)" by (simp add: counted_def)
  show ?case
  proof (cases "\<exists>m. r = Inl (Backend m) \<and> now + e < deadline \<and> 0 < delay")
    case True
    then obtain m where m: "r = Inl (Backend m)" "now + e < deadline" "0 < delay" by blast
    let ?now = "now + e + min delay (deadline - (now + e))"
    have "deadline - ?now \<le> total_delay k (min (2 * delay) (secs 1))"
      using Suc.prems by (cases "delay \<le> deadline - (now + e)") auto
    from Suc.IH[OF this, of "Suc n" s'] show ?thesis
      unfolding claim_loop_retry[of "counted claim" "(s, n)", OF c[unfolded m(1)] m(2,3)] by simp
  next
    case False
    then show ?thesis using claim_loop_stop[of "counted claim" "(s, n)", OF c] by simp
  qed
qed

lemma claim_loop_response: "\<exists>s0 e. claim s0 = (claim_loop claim deadline delay now s, e)"
proof (induction "deadline - now" arbitrary: delay now s rule: less_induct)
  case less
  obtain r s' e where c: "claim s = ((r, s'), e)" by (metis prod.exhaust)
  show ?case
  proof (cases "\<exists>m. r = Inl (Backend m) \<and> now + e < deadline \<and> 0 < delay")
    case True
    then obtain m where m: "r = Inl (Backend m)" "now + e < deadline" "0 < delay" by blast
    have "deadline - (now + e + min delay (deadline - (now + e))) < deadline - now" using m by (auto simp: min_def)
    from less[OF this] show ?thesis unfolding claim_loop_retry[of claim s, OF c[unfolded m(1)] m(2,3)] .
  next
    case False
    then show ?thesis using claim_loop_stop[of claim s, OF c] c by metis
  qed
qed

lemma total_delay_5: "total_delay 5 (millis 100) = 2500000000"
proof -
  have five: "(5::nat) = Suc (Suc (Suc (Suc (Suc 0))))" by simp
  show ?thesis unfolding five by (simp only: total_delay.simps millis_def secs_def) simp
qed


section \<open>Recovery is gated by leases\<close>

definition mem_store_ops :: "MemoryStore store_ops" where
  "mem_store_ops = \<lparr> so_upsert_job = ms_upsert_job, so_delete_job = ms_delete_job, so_claim_if_owner = ms_claim_if_owner,
    so_upsert_broker_lease = ms_upsert_broker_lease, so_get_broker_lease = ms_get_broker_lease,
    so_delete_broker_lease = ms_delete_broker_lease,
    so_reclaim_user_slots = (\<lambda>now s. map_prod Some id (reclaim_user_slots_memory now s)) \<rparr>"

lemma proxy_response_frame:
  "snd (proxy_response env ctx jid resp b) = b
    \<or> (\<exists>store. sc_job_store ctx = Some store
        \<and> snd (proxy_response env ctx jid resp b) = b\<lparr> b_store := snd (durable_job_present (so_claim_if_owner store) jid (b_store b)) \<rparr>)"
  by (auto simp: proxy_response_def owner_not_found_outcome_def Let_def
      split: option.splits prod.splits sum.splits bool.splits)

lemma try_proxy_frame:
  assumes "try_proxy_with_lease env ctx T lease jid timeout b = (out, b')"
  shows "b' = b \<or> (\<exists>store. sc_job_store ctx = Some store
        \<and> b' = b\<lparr> b_store := snd (durable_job_present (so_claim_if_owner store) jid (b_store b)) \<rparr>)"
proof (cases "pe_http env (trim_end_slashes (blr_internal_poll_base_url lease) @ ''/'' @ jid) (unwrap_or timeout T)")
  case None
  then show ?thesis using assms by (simp add: try_proxy_with_lease_def)
next
  case (Some resp)
  then have "b' = snd (proxy_response env ctx jid resp b)"
    using assms by (simp add: try_proxy_with_lease_def split: prod.splits)
  then show ?thesis using proxy_response_frame[of env ctx jid resp b] by simp
qed

lemma poll_gated:
  assumes "map_of (b_jobs b) jid = None" "slot_from_job_id jid = Inr owner" "owner \<noteq> sc_broker_id ctx"
    and "lookup_owner_lease env ctx owner b \<noteq> MissingOrExpired"
    and "poll env ctx T jid timeout b = Some (out, b')"
  shows "b' = b \<or> (\<exists>store. sc_job_store ctx = Some store
      \<and> b' = b\<lparr> b_store := snd (durable_job_present (so_claim_if_owner store) jid (b_store b)) \<rparr>)"
proof -
  have local: "poll_local ctx (pe_now env) (pe_wait env) jid b = (None, b)" using assms(1) by (simp add: poll_local_def)
  show ?thesis
  proof (cases "lookup_owner_lease env ctx owner b")
    case (LeaseActive lease)
    obtain o1 b1 where 1: "try_proxy_with_lease env ctx T lease jid timeout b = (o1, b1)" by (rule prod.exhaust)
    then have "b' = b1" using assms(2,3,5) local LeaseActive by (cases o1) (simp_all add: poll_def)
    then show ?thesis using try_proxy_frame[OF 1] by simp
  next
    case LeaseUnknown
    then show ?thesis using assms(2,3,5) local by (simp add: poll_def)
  qed (use assms(4) in simp)
qed


lemma claim_once:
  assumes "so_claim_if_owner store jid owner (sc_broker_id ctx) (b_store b) = (Inr r, s)"
  shows "claim_job env store ctx jid owner timeout b = (Inr r, b\<lparr> b_store := s \<rparr>)"
  using assms by (simp add: claim_job_def claim_with_backoff_def claim_loop.simps[of _ _ _ _ "b_store b"])

lemma slot_valid:
  assumes "slot_from_job_id jid = Inr owner"
  obtains d where "decode_result jid = Inr d" "valid_job_id jid"
  using assms by (cases "decode_result jid")
    (auto simp: slot_from_job_id_def valid_job_id_def decode_result_def bind_result_def split: option.splits)

lemma poll_unowned:
  assumes "map_of (b_jobs b) jid = None" "slot_from_job_id jid = Inr owner"
    and "owner = sc_broker_id ctx \<or> lookup_owner_lease env ctx owner b = MissingOrExpired"
    and "sc_job_store ctx = Some store"
    and "so_claim_if_owner store jid owner (sc_broker_id ctx) (b_store b) = (Inr r, s)"
  shows "poll env ctx T jid timeout b = after_claim env ctx T jid owner timeout (Inr r) (b\<lparr> b_store := s \<rparr>)"
proof -
  have local: "poll_local ctx (pe_now env) (pe_wait env) jid b = (None, b)" using assms(1) by (simp add: poll_local_def)
  show ?thesis using assms(2-4) local claim_once[OF assms(5), of env timeout]
    by (auto simp: poll_def Let_def)
qed


text \<open>C38 Recovery happens once: a job that a second broker has already taken over is not recovered again when that broker
  fails too.  Its id still names the first owner, so that the claim expects the wrong owner, is answered with the
  dead second one, and every poll on a third broker reports the job as queued and changes nothing.\<close>
theorem second_failover_stays_queued:
  assumes "sc_job_store ctx = Some mem_store_ops" "map_of (b_jobs b) jid = None" "slot_from_job_id jid = Inr owner"
    and "lookup_owner_lease env ctx owner b = MissingOrExpired"
    and "ms_lookup (b_store b) jid = Some r" "pjr_broker_id r \<noteq> owner" "pjr_broker_id r \<noteq> sc_broker_id ctx"
    and "lookup_owner_lease env ctx (pjr_broker_id r) b = MissingOrExpired"
  shows "poll env ctx T jid timeout b = Some (Pending jid Queued, b)"
proof -
  obtain d where d: "decode_result jid = Inr d" "valid_job_id jid" by (rule slot_valid[OF assms(3)])
  have "so_claim_if_owner mem_store_ops jid owner (sc_broker_id ctx) (b_store b) = (Inr (CR_Active (pjr_broker_id r)), b_store b)"
    using mem.claim_active[OF TrueI d(2) assms(5)] assms(6,7) by (simp add: mem_store_ops_def)
  from poll_unowned[OF assms(2,3) disjI2[OF assms(4)] assms(1) this]
  show ?thesis using assms(7,8) by (simp add: after_claim_def queued_def)
qed

section \<open>Heartbeat and shutdown\<close>

lemma memory_lease_active:
  assumes "chrono_from_std ttl = Some n" "utc < utc + n" "pe_utc_now env < utc + n" "sc_job_store ctx = Some mem_store_ops"
    and "b_store b = snd (ms_upsert_broker_lease utc owner url ttl s)"
  shows "\<exists>lease. lookup_owner_lease env ctx owner b = LeaseActive lease \<and> blr_internal_poll_base_url lease = url"
proof -
  have grace: "0 \<le> lease_grace_duration (pe_div_f64 env) l" for l
    by (auto simp: lease_grace_duration_def chrono_from_std_def Let_def)
  have "lease_is_active_with_grace (pe_div_f64 env) (pe_utc_now env)
      \<lparr> blr_broker_id = owner, blr_internal_poll_base_url = url, blr_lease_until = utc + n, blr_updated_at = utc \<rparr>"
    using assms(3) grace by (simp add: lease_is_active_with_grace_def add_strict_increasing2 less_le_trans)
  then show ?thesis using assms(1,4,5)
    by (simp add: lookup_owner_lease_def mem_store_ops_def ms_get_broker_lease_def ms_upsert_broker_lease_def update_conv')
qed

text \<open>A live owner keeps its jobs: after a heartbeat at \<open>utc\<close>, no poll on another broker before the lease runs out
  takes the job over, wherever its record is.\<close>
lemma heartbeat_keeps_jobs:
  assumes "heartbeat_round mem_store_ops owner url ttl in_flight now utc False stopped s = (True, s')"
    and "chrono_from_std ttl = Some n" "utc \<le> pe_utc_now env" "pe_utc_now env < utc + n"
    and "sc_job_store ctx = Some mem_store_ops" "b_store b = s'" "owner \<noteq> sc_broker_id ctx"
    and "map_of (b_jobs b) jid = None" "slot_from_job_id jid = Inr owner"
    and "poll env ctx T jid timeout b = Some (out, b')"
  shows "b_jobs b' = b_jobs b \<and> b_running b' = b_running b \<and> b_job_count b' = b_job_count b"
proof -
  have "s' = snd (ms_upsert_broker_lease utc owner url ttl s)"
    using assms(1) by (simp add: heartbeat_round_def mem_store_ops_def ms_upsert_broker_lease_def)
  then obtain lease where "lookup_owner_lease env ctx owner b = LeaseActive lease"
    using memory_lease_active[OF assms(2) _ assms(4,5), of b owner url s] assms(3,4,6) by auto
  then have "lookup_owner_lease env ctx owner b \<noteq> MissingOrExpired" by simp
  from poll_gated[OF assms(8,9,7) this assms(10)] show ?thesis by auto
qed

lemma drain_wait_ends:
  "(in_flight (drain_wait in_flight deadline now) = 0 \<or> deadline \<le> drain_wait in_flight deadline now)
    \<and> now \<le> drain_wait in_flight deadline now \<and> drain_wait in_flight deadline now \<le> max now (deadline + millis 50)"
proof (induction in_flight deadline now rule: drain_wait.induct)
  case (1 in_flight deadline now)
  show ?case
  proof (cases "in_flight now > 0 \<and> now < deadline")
    case True
    then have "drain_wait in_flight deadline now = drain_wait in_flight deadline (now + millis 50)"
      by (subst drain_wait.simps) simp
    then show ?thesis using 1 True by auto
  next
    case False
    then have "drain_wait in_flight deadline now = now" by (subst drain_wait.simps) auto
    then show ?thesis using False by auto
  qed
qed

text \<open>Shutdown ends and hands over: the heartbeat thread waits until no job is in flight or the lease's lifetime has
  passed, at most 50 ms longer, and then deletes the lease, so that other brokers see it missing from that moment.\<close>
lemma shutdown_drain_hands_over:
  assumes "drain_and_delete mem_store_ops broker_id ttl in_flight now s = (t, s')"
    and "sc_job_store ctx = Some mem_store_ops" "b_store b = s'"
  shows "(in_flight t = 0 \<or> now + ttl \<le> t) \<and> now \<le> t \<and> t \<le> now + ttl + millis 50
    \<and> lookup_owner_lease env ctx broker_id b = MissingOrExpired \<and> ms_jobs s' = ms_jobs s"
proof -
  have "t = drain_wait in_flight (now + ttl) now" "s' = snd (ms_delete_broker_lease broker_id s)"
    using assms(1) by (auto simp: drain_and_delete_def mem_store_ops_def Let_def)
  then show ?thesis using drain_wait_ends[of in_flight "now + ttl" now] assms(2,3)
    by (auto simp: ms_delete_broker_lease_def lookup_owner_lease_def mem_store_ops_def ms_get_broker_lease_def delete_conv')
qed

section \<open>Examples\<close>

definition demo_env :: "MemoryStore PollEnv" where
  "demo_env = \<lparr> pe_now = 7, pe_utc_now = 100, pe_fill_bytes = (\<lambda>n. replicate n 0), pe_div_f64 = (\<lambda>d n. d div n),
    pe_http = (\<lambda>_ _. None), pe_to_str = Some, pe_wait = (\<lambda>b. (False, b)), pe_latency = (\<lambda>_. 0) \<rparr>"

definition demo_mem_ctx :: "MemoryStore SubmitContext" where
  "demo_mem_ctx = \<lparr> sc_max_jobs = 10, sc_broker_id = ''tst-tst-9'', sc_site = ''tst'', sc_env = ''tst'', sc_broker_slot = 9,
    sc_job_store = Some mem_store_ops, sc_persist_after = Some 5, sc_reconnect_buffer = 5 \<rparr>"

definition demo_broker :: "string \<Rightarrow> MemoryStore Broker" where
  "demo_broker owner = broker_new (snd (ms_upsert_job (demo_record\<lparr> pjr_broker_id := owner \<rparr>) memory_new)) demo_heap"

definition demo_live :: "MemoryStore Broker" where
  "demo_live = broker_new (snd (heartbeat_round mem_store_ops ''bol-dev-42'' ''http://b'' 5000 (\<lambda>_. 0) 7 90 False False memory_new)) demo_heap"

lemma demo_slot: "slot_from_job_id (pjr_job_id demo_record) = Inr ''bol-dev-42''" by code_simp

lemma demo_broker_facts:
  "map_of (b_jobs (demo_broker owner)) jid = None"
  "sc_job_store demo_mem_ctx = Some mem_store_ops" "sc_broker_id demo_mem_ctx = ''tst-tst-9''"
  "lookup_owner_lease demo_env demo_mem_ctx broker (demo_broker owner) = MissingOrExpired"
  by (simp_all add: demo_broker_def broker_new_def demo_mem_ctx_def lookup_owner_lease_def mem_store_ops_def
      ms_get_broker_lease_def ms_upsert_job_def memory_new_def bind_result_def split: sum.splits)

lemma demo_broker_record:
  "ms_lookup (b_store (demo_broker owner)) (pjr_job_id demo_record) = Some (demo_record\<lparr> pjr_broker_id := owner \<rparr>)"
proof -
  have "valid_job_id (pjr_job_id (demo_record\<lparr> pjr_broker_id := owner \<rparr>))" using demo_record_valid by simp
  from mem.upsert_ok[OF TrueI this] show ?thesis by (simp add: demo_broker_def broker_new_def)
qed

lemma demo_live_jobs: "map_of (b_jobs demo_live) jid = None"
  by (simp add: demo_live_def broker_new_def)

lemma demo_live_lease: "\<exists>lease. lookup_owner_lease demo_env demo_mem_ctx ''bol-dev-42'' demo_live = LeaseActive lease"
proof -
  have "b_store demo_live = snd (ms_upsert_broker_lease 90 ''bol-dev-42'' ''http://b'' 5000 memory_new)"
    by (simp add: demo_live_def broker_new_def heartbeat_round_def mem_store_ops_def ms_upsert_broker_lease_def chrono_from_std_def)
  from memory_lease_active[of 5000 5000 90 demo_env demo_mem_ctx demo_live, OF _ _ _ demo_broker_facts(2) this]
  show ?thesis by (auto simp: chrono_from_std_def demo_env_def)
qed

lemma demo_live_poll:
  "poll demo_env demo_mem_ctx 5 (pjr_job_id demo_record) None demo_live = Some (queued (pjr_job_id demo_record), demo_live)"
proof -
  obtain lease where l: "lookup_owner_lease demo_env demo_mem_ctx ''bol-dev-42'' demo_live = LeaseActive lease"
    using demo_live_lease by blast
  have p: "poll_local demo_mem_ctx (pe_now demo_env) (pe_wait demo_env) (pjr_job_id demo_record) demo_live = (None, demo_live)"
    using demo_live_jobs by (simp add: poll_local_def)
  have h: "pe_http demo_env = (\<lambda>_ _. None)" by (simp add: demo_env_def)
  show ?thesis by (simp add: poll_def p demo_slot demo_broker_facts(3) l try_proxy_with_lease_def h)
qed



theorem second_failover_stays_queued_witness:
  "poll demo_env demo_mem_ctx 5 (pjr_job_id demo_record) None (demo_broker ''tst-tst-8'')
    = Some (Pending (pjr_job_id demo_record) Queued, demo_broker ''tst-tst-8'')"
  by (rule second_failover_stays_queued[OF demo_broker_facts(2,1) demo_slot demo_broker_facts(4) demo_broker_record])
    (simp_all add: demo_broker_facts)

end
