(* ===== verification/Http_Server.thy ===== *)
theory Http_Server
  imports Broker_Recovery
begin

text \<open>
  The built-in HTTP server (\<open>bits/src/server.rs\<close>): configuration, the responses of a poll and of a submission, and the
  composition with a polling broker that reads such a response through its proxy (\<open>Broker_Recovery\<close>).

  Header values are checked and read by the HTTP library (\<open>se_header_ok\<close>, and \<open>se_bad_header\<close> for the answer when the
  content type is not a legal value); \<open>None\<close> is a panic of \<open>unwrap\<close> in a handler.  Durations from floating-point seconds
  are a conversion argument.
\<close>

section \<open>Configuration\<close>

definition DEFAULT_RETRY_AFTER_SECS :: u64 where "DEFAULT_RETRY_AFTER_SECS = 5"
definition DEFAULT_POLL_TIMEOUT_SECS_RAW :: u64 where "DEFAULT_POLL_TIMEOUT_SECS_RAW = 25"
definition DEFAULT_POLL_TIMEOUT :: duration where "DEFAULT_POLL_TIMEOUT = secs (unat DEFAULT_POLL_TIMEOUT_SECS_RAW)"

record 'f ServerConfig =
  sv_host :: string
  sv_port :: u16
  sv_poll_timeout_secs :: 'f
  sv_retry_after_secs :: u64

definition server_config_default :: "(u64 \<Rightarrow> 'f) \<Rightarrow> 'f ServerConfig" where
  "server_config_default f64_of = \<lparr> sv_host = ''0.0.0.0'', sv_port = 8080,
    sv_poll_timeout_secs = f64_of DEFAULT_POLL_TIMEOUT_SECS_RAW, sv_retry_after_secs = DEFAULT_RETRY_AFTER_SECS \<rparr>"

definition poll_timeout :: "('f \<Rightarrow> duration option) \<Rightarrow> 'f ServerConfig \<Rightarrow> duration" where
  "poll_timeout try_from_secs_f64 config = unwrap_or (try_from_secs_f64 (sv_poll_timeout_secs config)) DEFAULT_POLL_TIMEOUT"

section \<open>Responses\<close>

record ErrorBody =
  eb_code :: string
  eb_message :: string
  eb_retryable :: bool

datatype Body = EmptyBody | StreamBody ByteStream | JsonBody ErrorBody | TextBody string

record Response =
  rs_status :: StatusCode
  rs_headers :: "(string \<times> string) list"
  rs_body :: Body

record ServerEnv =
  se_header_ok :: "string \<Rightarrow> bool"
  se_bad_header :: "string \<Rightarrow> Response"

definition json_error :: "StatusCode \<Rightarrow> string \<Rightarrow> string \<Rightarrow> bool \<Rightarrow> Response" where
  "json_error status code message retryable =
    \<lparr> rs_status = status, rs_headers = [(''content-type'', ''application/json'')],
      rs_body = JsonBody \<lparr> eb_code = code, eb_message = message, eb_retryable = retryable \<rparr> \<rparr>"

definition overloaded_response :: "string \<Rightarrow> u64 \<Rightarrow> Response" where
  "overloaded_response reason retry_after_secs =
    \<lparr> rs_status = 529,
      rs_headers = [(''content-type'', ''application/json''), (''retry-after'', show_uint (uint retry_after_secs))],
      rs_body = JsonBody \<lparr> eb_code = ''QUEUE_FULL'', eb_message = reason, eb_retryable = True \<rparr> \<rparr>"

definition rate_limited_response :: "string \<Rightarrow> u64 \<Rightarrow> Response" where
  "rate_limited_response reason retry_after_secs =
    \<lparr> rs_status = 429,
      rs_headers = [(''content-type'', ''application/json''), (''retry-after'', show_uint (uint retry_after_secs))],
      rs_body = JsonBody \<lparr> eb_code = ''USER_LIMIT_EXCEEDED'', eb_message = reason, eb_retryable = True \<rparr> \<rparr>"

definition redirect_headers :: "string \<Rightarrow> string option \<Rightarrow> u64 option \<Rightarrow> (string \<times> string) list" where
  "redirect_headers location content_type content_length =
    [(''location'', location)]
    @ (case content_type of None \<Rightarrow> [] | Some ct \<Rightarrow> [(''x-polytope-content-type'', ct)])
    @ (case content_length of None \<Rightarrow> [] | Some cl \<Rightarrow> [(''x-polytope-content-length'', show_uint (uint cl))])"

definition result_to_response :: "ServerEnv \<Rightarrow> u64 \<Rightarrow> JobResult \<Rightarrow> Response option" where
  "result_to_response se retry_after_secs result =
    (case result of
       JR_Success content_type _ stream \<Rightarrow>
         Some (if se_header_ok se content_type
               then \<lparr> rs_status = 200, rs_headers = [(''content-type'', content_type)], rs_body = StreamBody stream \<rparr>
               else se_bad_header se content_type)
     | JR_Redirect location _ content_type content_length \<Rightarrow>
         let hs = redirect_headers location content_type content_length
         in if list_all (\<lambda>(_, v). se_header_ok se v) hs
            then Some \<lparr> rs_status = 303, rs_headers = hs, rs_body = EmptyBody \<rparr> else None
     | JR_Error message \<Rightarrow> Some (json_error 400 ''JOB_ERROR'' message False)
     | JR_Failed _ \<Rightarrow> Some (json_error 500 ''JOB_FAILED'' ''internal server error'' False)
     | JR_Overloaded reason \<Rightarrow> Some (overloaded_response reason retry_after_secs)
     | JR_RateLimited reason \<Rightarrow> Some (rate_limited_response reason retry_after_secs)
     | JR_Cancelled \<Rightarrow> Some (json_error 410 ''ACTION_CANCELLED'' ''job was cancelled'' False)
     | JR_ClientGone \<Rightarrow> Some (json_error 410 ''ACTION_CLIENT_GONE'' ''client disconnected'' False))"

definition outcome_response :: "ServerEnv \<Rightarrow> u64 \<Rightarrow> PollOutcome \<Rightarrow> Response option" where
  "outcome_response se retry_after_secs outcome =
    (case outcome of
       Ready result \<Rightarrow> result_to_response se retry_after_secs result
     | Pending jid status \<Rightarrow>
         if se_header_ok se (''/job/'' @ jid)
         then Some \<lparr> rs_status = 303, rs_headers = [(''location'', ''/job/'' @ jid), (''retry-after'', ''0''),
                (PENDING_STATUS_HEADER, pending_status_as_str status)], rs_body = EmptyBody \<rparr>
         else None
     | PollNotFound \<Rightarrow> Some (json_error 404 ''JOB_NOT_FOUND'' ''job does not exist or was already consumed'' False)
     | JobLost \<Rightarrow> Some (json_error 410 ''JOB_LOST'' ''job existed but is no longer recoverable'' False))"

section \<open>Handlers\<close>

record AppState =
  as_poll_timeout :: duration
  as_retry_after_secs :: u64

text \<open>\<open>None\<close> in the response is a panic of the handler; the outer \<open>None\<close> the panic of a failing id generation.\<close>
definition poll_by_id :: "ServerEnv \<Rightarrow> 's PollEnv \<Rightarrow> 's SubmitContext \<Rightarrow> duration \<Rightarrow> AppState \<Rightarrow> string \<Rightarrow> 's Broker
    \<Rightarrow> (Response option \<times> 's Broker) option" where
  "poll_by_id se env ctx internal_poll_timeout st jid b =
    (case poll env ctx internal_poll_timeout jid (Some (as_poll_timeout st)) b of
       None \<Rightarrow> None
     | Some (out, b) \<Rightarrow> Some (outcome_response se (as_retry_after_secs st) out, b))"

definition poll_job :: "ServerEnv \<Rightarrow> 's PollEnv \<Rightarrow> 's SubmitContext \<Rightarrow> duration \<Rightarrow> AppState \<Rightarrow> string \<Rightarrow> 's Broker
    \<Rightarrow> (Response option \<times> 's Broker) option" where
  "poll_job = poll_by_id"

text \<open>\<open>uuid\<close> is the id \<open>Job::new\<close> draws, which the submission replaces.\<close>
definition submit_job :: "ServerEnv \<Rightarrow> 's PollEnv \<Rightarrow> 's SubmitContext \<Rightarrow> duration \<Rightarrow> AppState \<Rightarrow> string \<Rightarrow> json \<Rightarrow> 's Broker
    \<Rightarrow> (Response option \<times> 's Broker) option" where
  "submit_job se env ctx internal_poll_timeout st uuid body b =
    (case job_new_with_id (pe_now env) (pe_utc_now env) uuid body (b_heap b) of (job, h) \<Rightarrow>
     case bits_submit (pe_fill_bytes env) (pe_now env) (pe_utc_now env) ctx job (b\<lparr> b_heap := h \<rparr>) of
       None \<Rightarrow> None
     | Some (Accepted jid, b) \<Rightarrow> poll_by_id se env ctx internal_poll_timeout st jid b
     | Some (SubmitOverloaded, b) \<Rightarrow> Some (Some (overloaded_response ''broker at capacity'' (as_retry_after_secs st)), b))"

datatype Method = GET | POST

text \<open>The routes, on the segments of the path; \<open>None\<close> is left to the router of the library.\<close>
definition router :: "ServerEnv \<Rightarrow> 's PollEnv \<Rightarrow> 's SubmitContext \<Rightarrow> duration \<Rightarrow> AppState \<Rightarrow> string \<Rightarrow> Method \<Rightarrow> string list
    \<Rightarrow> json \<Rightarrow> 's Broker \<Rightarrow> (Response option \<times> 's Broker) option option" where
  "router se env ctx internal_poll_timeout st uuid method path body b =
    (case (method, path) of
       (POST, [p]) \<Rightarrow> if p = ''job'' then Some (submit_job se env ctx internal_poll_timeout st uuid body b) else None
     | (GET, [p, jid]) \<Rightarrow>
         if p = ''job'' \<and> jid \<noteq> [] then Some (poll_job se env ctx internal_poll_timeout st jid b) else None
     | _ \<Rightarrow> None)"

section \<open>A response seen through the proxy\<close>

text \<open>What the HTTP connection keeps of a response: status, headers, the bytes of a stream, the text of a JSON body.
  \<open>json_text\<close> is the serialisation of an error body.\<close>
definition carries :: "(ErrorBody \<Rightarrow> string) \<Rightarrow> Response \<Rightarrow> HttpResponse \<Rightarrow> bool" where
  "carries json_text r h \<longleftrightarrow> hr_status h = rs_status r
    \<and> (\<forall>name \<in> {''location'', ''content-type'', PENDING_STATUS_HEADER, ''x-polytope-content-type'', ''x-polytope-content-length''}.
        map_of (hr_headers h) name = map_of (rs_headers r) name)
    \<and> (case rs_body r of EmptyBody \<Rightarrow> True | StreamBody st \<Rightarrow> hr_stream h = st
        | JsonBody e \<Rightarrow> hr_text h = Some (json_text e) | TextBody t \<Rightarrow> hr_text h = Some t)"

text \<open>Visible values read back by the header library as they were written.\<close>
definition readable :: "('s PollEnv) \<Rightarrow> ServerEnv \<Rightarrow> string \<Rightarrow> bool" where
  "readable env se v \<longleftrightarrow> se_header_ok se v \<and> pe_to_str env v = Some v"

section \<open>Decimal numbers in headers\<close>

lemma digit_char_value: "0 \<le> d \<Longrightarrow> d < 10 \<Longrightarrow> of_char (digit_char d) = nat (d + 48)"
  by (simp add: digit_char_def of_char_of)

lemma show_uint_digits:
  assumes "0 \<le> n"
  shows "show_uint n \<noteq> [] \<and> list_all is_digit (show_uint n) \<and> digits_value (show_uint n) = n"
  using assms
proof (induction n rule: show_uint.induct)
  case (1 n)
  have d: "is_digit (digit_char m)" "int (of_char (digit_char m)) - 48 = m" if "0 \<le> m" "m < 10" for m
    using that by (auto simp: is_digit_def less_eq_char_def digit_char_value)
  show ?case
  proof (cases "n < 10")
    case True
    then show ?thesis using 1(2) d[of n] by (simp add: show_uint.simps[of n] digits_value_def)
  next
    case False
    then show ?thesis using 1 d[of "n mod 10"] by (simp add: show_uint.simps[of n] digits_value_def)
  qed
qed

lemma parse_u64_show: "parse_u64 (show_uint (uint n)) = Some n"
proof -
  note d = show_uint_digits[OF uint_ge_0[of n]]
  have "hd (show_uint (uint n)) \<noteq> CHR ''+''" using d by (cases "show_uint (uint n)") (auto simp: is_digit_def)
  then have "(case show_uint (uint n) of c # cs \<Rightarrow> if c = CHR ''+'' then cs else show_uint (uint n) | [] \<Rightarrow> []) = show_uint (uint n)"
    using d by (cases "show_uint (uint n)") auto
  moreover have "uint n < 2 ^ 64" using uint_lt2p[of n] by simp
  ultimately show ?thesis using d by (simp add: parse_u64_def)
qed

section \<open>Job ids in paths\<close>

lemma job_id_characters:
  assumes "slot_from_job_id jid = Inr owner"
  shows "set jid \<subseteq> set CROCKFORD_ALPHABET"
proof -
  obtain d where "decode_result jid = Inr d" by (rule slot_valid[OF assms])
  then have "decode jid = Some (Inr d)" by (cases "decode jid") (auto simp: decode_result_def)
  then obtain packed where "encode_crockford_base32 packed = jid" by (auto simp: decode_Inr)
  then have "jid = map (\<lambda>d. CROCKFORD_ALPHABET ! nat d) (digits_be 32 26 (uint (from_be_bytes packed :: u128)))"
    by (simp add: encode_crockford_digits)
  moreover have "length CROCKFORD_ALPHABET = 32" by (simp add: CROCKFORD_ALPHABET_def)
  moreover have "nat x < 32" if "x \<in> set (digits_be 32 n v)" for x n and v :: int
    using that digits_be_range[of 32 x n v] by auto
  ultimately show ?thesis by (auto intro!: nth_mem)
qed

lemma before_char_append: "c \<notin> set xs \<Longrightarrow> before_char c (xs @ c # ys) = xs"
  by (induction xs) auto

lemma before_char_id: "c \<notin> set xs \<Longrightarrow> before_char c xs = xs"
  by (induction xs) auto

lemma last_segment_job:
  assumes "slot_from_job_id jid = Inr owner"
  shows "last_segment (''/job/'' @ jid) = jid"
proof -
  have "CHR ''/'' \<notin> set jid" "CHR ''?'' \<notin> set jid"
    using job_id_characters[OF assms] by (auto simp: CROCKFORD_ALPHABET_def)
  then show ?thesis using before_char_append[of "CHR ''/''" "rev jid"]
    by (simp add: last_segment_def before_char_id)
qed

section \<open>Transparency of the proxy\<close>

lemma PENDING_HEADER_distinct: "PENDING_STATUS_HEADER \<noteq> ''location''" "PENDING_STATUS_HEADER \<noteq> ''retry-after''"
  "PENDING_STATUS_HEADER \<noteq> ''content-type''"
  by (simp_all add: PENDING_STATUS_HEADER_def)

lemma pending_status_header: "pending_status_from_header (pending_status_as_str st) = Some st"
  by (cases st) (simp_all add: pending_status_from_header_def)

lemma carries_header:
  assumes "carries json_text r h"
    and "name \<in> {''location'', ''content-type'', PENDING_STATUS_HEADER, ''x-polytope-content-type'', ''x-polytope-content-length''}"
  shows "map_of (hr_headers h) name = map_of (rs_headers r) name"
  using assms unfolding carries_def by blast

text \<open>The outcomes of an owner that a proxy passes on: data, redirects elsewhere, pending jobs and cancellations.\<close>
definition passed_on :: "'s PollEnv \<Rightarrow> ServerEnv \<Rightarrow> string \<Rightarrow> PollOutcome \<Rightarrow> bool" where
  "passed_on env se jid out =
    (case out of
       Ready (JR_Success ct _ _) \<Rightarrow> readable env se ct
     | Ready (JR_Redirect loc _ ct cl) \<Rightarrow> loc \<noteq> [] \<and> last_segment loc \<noteq> jid
         \<and> (\<forall>(_, v) \<in> set (redirect_headers loc ct cl). readable env se v)
     | Ready JR_Cancelled \<Rightarrow> True
     | Pending j st \<Rightarrow> j = jid \<and> readable env se (''/job/'' @ jid) \<and> readable env se (pending_status_as_str st)
     | _ \<Rightarrow> False)"

lemma proxied_success_response:
  assumes "carries json_text \<lparr> rs_status = 200, rs_headers = [(''content-type'', ct)], rs_body = StreamBody st \<rparr> h" "readable env se ct"
  shows "\<exists>sz. proxy_response env ctx jid h b = (Ready (JR_Success ct sz st), b)"
  using assms carries_header[OF assms(1), of "''content-type''"]
  by (auto simp: proxy_response_def proxied_success_def carries_def readable_def Let_def)

lemma redirect_headers_lookup:
  "map_of (redirect_headers loc ct cl) ''location'' = Some loc"
  "map_of (redirect_headers loc ct cl) ''x-polytope-content-type'' = ct"
  "map_of (redirect_headers loc ct cl) ''x-polytope-content-length'' = map_option (\<lambda>n. show_uint (uint n)) cl"
  by (auto simp: redirect_headers_def split: option.splits)

lemma proxied_redirect_response:
  assumes "carries json_text \<lparr> rs_status = 303, rs_headers = redirect_headers loc ct cl, rs_body = EmptyBody \<rparr> h"
    and "loc \<noteq> []" "last_segment loc \<noteq> jid" "\<forall>(_, v) \<in> set (redirect_headers loc ct cl). readable env se v"
  shows "proxy_response env ctx jid h b = (Ready (JR_Redirect loc ''proxied redirect'' ct cl), b)"
proof -
  note look = redirect_headers_lookup[of loc ct cl]
  have read: "Option.bind (map_of (redirect_headers loc ct cl) n) (pe_to_str env) = map_of (redirect_headers loc ct cl) n" for n
    using assms(4) by (cases "map_of (redirect_headers loc ct cl) n") (auto dest!: map_of_SomeD simp: readable_def)
  have hd: "header_str (pe_to_str env) n h = map_of (redirect_headers loc ct cl) n"
    if "n \<in> {''location'', ''x-polytope-content-type'', ''x-polytope-content-length''}" for n
    using carries_header[OF assms(1), of n] read[of n] that by (auto simp: header_str_def)
  have "header_str (pe_to_str env) ''location'' h = Some loc" "header_str (pe_to_str env) ''x-polytope-content-type'' h = ct"
    "header_str (pe_to_str env) ''x-polytope-content-length'' h = map_option (\<lambda>n. show_uint (uint n)) cl"
    using hd[of "''location''"] hd[of "''x-polytope-content-type''"] hd[of "''x-polytope-content-length''"] look by simp_all
  then show ?thesis using assms(1-3)
    by (cases cl) (simp_all add: proxy_response_def proxied_redirect_def carries_def is_redirect_status_def parse_u64_show Let_def)
qed

lemma proxied_pending_response:
  assumes "carries json_text \<lparr> rs_status = 303, rs_headers = [(''location'', ''/job/'' @ jid), (''retry-after'', ''0''),
      (PENDING_STATUS_HEADER, pending_status_as_str st)], rs_body = EmptyBody \<rparr> h"
    and "readable env se (''/job/'' @ jid)" "readable env se (pending_status_as_str st)" "slot_from_job_id jid = Inr owner"
  shows "proxy_response env ctx jid h b = (Pending jid st, b)"
proof -
  have "header_str (pe_to_str env) ''location'' h = Some (''/job/'' @ jid)"
    "header_str (pe_to_str env) PENDING_STATUS_HEADER h = Some (pending_status_as_str st)"
    using carries_header[OF assms(1)] assms(2,3) by (simp_all add: header_str_def readable_def PENDING_HEADER_distinct)
  moreover have "hr_status h = 303" using assms(1) by (simp add: carries_def)
  ultimately show ?thesis using last_segment_job[OF assms(4)]
    by (simp add: proxy_response_def proxied_redirect_def is_redirect_status_def pending_status_header Let_def)
qed

lemma proxied_status:
  assumes "carries json_text (json_error status code message retryable) h" "\<not> is_redirect_status status" "status \<noteq> 200"
  shows "proxy_response env ctx jid h b =
    (if status = 404 then owner_not_found_outcome ctx jid b
     else if status = 400 then
       (Ready (JR_Error (json_text \<lparr> eb_code = code, eb_message = message, eb_retryable = retryable \<rparr>)), b)
     else if status = 410 then (Ready JR_Cancelled, b)
     else (queued jid, b))"
  using assms by (auto simp: proxy_response_def carries_def json_error_def Let_def)

lemma proxied_unavailable:
  "hr_status h \<in> {429, 500, 529} \<Longrightarrow> proxy_response env ctx jid h b = (Pending jid Queued, b)"
  by (elim insertE emptyE) (simp_all add: proxy_response_def is_redirect_status_def queued_def)


text \<open>C39 What the proxy does not pass on: a failed, overloaded or rate-limited job reaches the client of another broker as
  still queued, an error as an error whose message is the whole JSON body, a departed client or a lost job as a
  cancellation.\<close>
theorem proxy_lossy:
  assumes "outcome_response se retry out = Some r" "carries json_text r h"
  shows "(out \<in> {Ready (JR_Failed m), Ready (JR_Overloaded m), Ready (JR_RateLimited m)} \<longrightarrow>
          proxy_response env ctx jid h b = (Pending jid Queued, b))
    \<and> (out = Ready (JR_Error m) \<longrightarrow> proxy_response env ctx jid h b =
          (Ready (JR_Error (json_text \<lparr> eb_code = ''JOB_ERROR'', eb_message = m, eb_retryable = False \<rparr>)), b))
    \<and> (out \<in> {Ready JR_ClientGone, JobLost} \<longrightarrow> proxy_response env ctx jid h b = (Ready JR_Cancelled, b))"
proof -
  have over: "proxy_response env ctx jid h b = (Pending jid Queued, b)" if "rs_status r \<in> {429, 500, 529}"
    by (rule proxied_unavailable) (use that assms(2) in \<open>simp add: carries_def\<close>)
  have q: "rs_status r \<in> {429, 500, 529}" if "out \<in> {Ready (JR_Failed m), Ready (JR_Overloaded m), Ready (JR_RateLimited m)}"
    using that assms(1) by (auto simp: outcome_response_def result_to_response_def json_error_def overloaded_response_def
        rate_limited_response_def)
  have e: "r = json_error 400 ''JOB_ERROR'' m False" if "out = Ready (JR_Error m)"
    using that assms(1) by (simp add: outcome_response_def result_to_response_def)
  have g: "r = json_error 410 ''ACTION_CLIENT_GONE'' ''client disconnected'' False
      \<or> r = json_error 410 ''JOB_LOST'' ''job existed but is no longer recoverable'' False" if "out \<in> {Ready JR_ClientGone, JobLost}"
    using that assms(1) by (auto simp: outcome_response_def result_to_response_def)
  note st = proxied_status[of json_text _ _ _ _ h env ctx jid b]
  show ?thesis
  proof (intro conjI impI)
    assume "out \<in> {Ready (JR_Failed m), Ready (JR_Overloaded m), Ready (JR_RateLimited m)}"
    then show "proxy_response env ctx jid h b = (Pending jid Queued, b)" by (rule over[OF q])
  next
    assume "out = Ready (JR_Error m)"
    from st[OF assms(2)[unfolded e[OF this]]] show "proxy_response env ctx jid h b =
        (Ready (JR_Error (json_text \<lparr> eb_code = ''JOB_ERROR'', eb_message = m, eb_retryable = False \<rparr>)), b)"
      by (simp add: is_redirect_status_def)
  next
    assume "out \<in> {Ready JR_ClientGone, JobLost}"
    from g[OF this] show "proxy_response env ctx jid h b = (Ready JR_Cancelled, b)"
      using st assms(2) by (auto simp: is_redirect_status_def)
  qed
qed

section \<open>Examples\<close>

definition demo_server :: ServerEnv where
  "demo_server = \<lparr> se_header_ok = (\<lambda>_. True), se_bad_header = (\<lambda>_. json_error 500 [] [] False) \<rparr>"

definition demo_wire :: "Response \<Rightarrow> HttpResponse" where
  "demo_wire r = \<lparr> hr_status = rs_status r, hr_headers = rs_headers r, hr_content_length = None,
    hr_stream = (case rs_body r of StreamBody st \<Rightarrow> st | _ \<Rightarrow> []),
    hr_text = (case rs_body r of JsonBody e \<Rightarrow> Some (eb_message e) | TextBody t \<Rightarrow> Some t | _ \<Rightarrow> None) \<rparr>"

lemma demo_wire_carries: "carries eb_message r (demo_wire r)"
  by (auto simp: carries_def demo_wire_def split: Body.splits)


theorem proxy_lossy_witness:
  "proxy_response demo_env demo_mem_ctx ''j'' (demo_wire (json_error 500 ''JOB_FAILED'' ''internal server error'' False)) demo_live
    = (Pending ''j'' Queued, demo_live)"
proof -
  have "outcome_response demo_server 5 (Ready (JR_Failed ''x'')) = Some (json_error 500 ''JOB_FAILED'' ''internal server error'' False)"
    by (simp add: outcome_response_def result_to_response_def)
  from proxy_lossy[OF this demo_wire_carries, of "''x''" demo_env demo_mem_ctx "''j''" demo_live] show ?thesis by simp
qed

end
