(* ===== verification/Broker_Bootstrap.thy ===== *)
theory Broker_Bootstrap
  imports Persistence Route_Config Http_Server
begin

text \<open>
  Start-up configuration (\<open>parse_bootstrap\<close> in \<open>bits/src/config.rs\<close>).

  The text is read by \<open>serde_yaml\<close> and its sections by derived deserialisers: these, the build's features, the
  Tokio runtime, sleeping and number formatting are fields of \<open>BootEnv\<close>.  Floating-point numbers are their bits.
  A step works on the NATS server and the TiKV cluster; \<open>None\<close> is a slot allocation that does not return.
  The log messages are left out, and so is the panic of the allocator thread, which the modelled stores never cause.
\<close>

section \<open>Configuration sections\<close>

record WorkerServerConfig =
  wc_host :: string
  wc_port :: u16
  wc_advertised_addr :: "string option"

record TikvSettings =
  tc_endpoints :: "string list"
  tc_broker_lease_ttl_secs :: u64
  tc_connect_timeout_secs :: "u64 option"

record NatsSettings =
  ncf_url :: string
  ncf_jobs_bucket :: string
  ncf_leases_bucket :: string
  ncf_broker_lease_ttl_secs :: u64
  ncf_num_replicas :: nat
  ncf_connect_timeout_secs :: "u64 option"
  ncf_init_max_attempts :: "u32 option"
  ncf_jobs_tombstone_ttl_secs :: "u64 option"

datatype PersistenceConfig = Tikv TikvSettings | Nats NatsSettings

record BitsConfig =
  bc_broker_id_prefix :: "string option"
  bc_site :: "json option"
  bc_env :: "json option"
  bc_internal_poll_endpoint :: "string option"
  bc_internal_poll_timeout_secs :: "u64 option"
  bc_sweep_interval_secs :: "u64 option"
  bc_reconnect_buffer_secs :: "u64 option"
  bc_persist_after_secs :: "u64 option"
  bc_persistence :: "PersistenceConfig option"
  bc_worker_server :: "WorkerServerConfig option"
  bc_max_jobs :: "nat option"

definition bits_config_default :: BitsConfig where
  "bits_config_default = \<lparr> bc_broker_id_prefix = None, bc_site = None, bc_env = None, bc_internal_poll_endpoint = None,
    bc_internal_poll_timeout_secs = None, bc_sweep_interval_secs = None, bc_reconnect_buffer_secs = None,
    bc_persist_after_secs = None, bc_persistence = None, bc_worker_server = None, bc_max_jobs = None \<rparr>"

record MetricsConfig =
  mc_duration_buckets :: "u64 list option"
  mc_queue_wait_buckets :: "u64 list option"

definition metrics_config_default :: MetricsConfig where
  "metrics_config_default = \<lparr> mc_duration_buckets = None, mc_queue_wait_buckets = None \<rparr>"

record HistogramBuckets =
  hb_duration :: "u64 list"
  hb_queue_wait :: "u64 list"

text \<open>0.005 to 120 and 0.001 to 30 seconds.\<close>
definition histogram_buckets_default :: HistogramBuckets where
  "histogram_buckets_default = \<lparr>
    hb_duration = [0x3F747AE147AE147B, 0x3F847AE147AE147B, 0x3F9999999999999A, 0x3FA999999999999A, 0x3FB999999999999A,
      0x3FD0000000000000, 0x3FE0000000000000, 0x3FF0000000000000, 0x4004000000000000, 0x4014000000000000,
      0x4024000000000000, 0x4039000000000000, 0x404E000000000000, 0x405E000000000000],
    hb_queue_wait = [0x3F50624DD2F1A9FC, 0x3F747AE147AE147B, 0x3F847AE147AE147B, 0x3FA999999999999A, 0x3FB999999999999A,
      0x3FE0000000000000, 0x3FF0000000000000, 0x4004000000000000, 0x4014000000000000, 0x4024000000000000,
      0x403E000000000000] \<rparr>"

record ('x, 'c, 'h, 'v, 's, 'tc, 'tt, 'tv, 'ts) BootEnv =
  be_config :: "'x ConfigEnv"
  be_backends :: "('c, 'h, 'v, 's, 'tc, 'tt, 'tv, 'ts) backends"
  be_yaml :: "string \<Rightarrow> string + json"
  be_bits_config :: "json \<Rightarrow> string + BitsConfig"
  be_server_config :: "json \<Rightarrow> string + u64 ServerConfig"
  be_metrics_config :: "json \<Rightarrow> string + MetricsConfig"
  be_value_map :: "json \<Rightarrow> string + (string \<times> json) list"
  be_f64_of :: "u64 \<Rightarrow> u64"
  be_secs_3 :: "duration \<Rightarrow> string"
  be_build_runtime :: "string + unit"
  be_tokio_handle :: bool
  be_sleep :: "duration \<Rightarrow> 's \<Rightarrow> 's"
  be_nats_feature :: bool
  be_tikv_feature :: bool

definition decode_section :: "json \<Rightarrow> string \<Rightarrow> string \<Rightarrow> (json \<Rightarrow> string + 'a) \<Rightarrow> 'a \<Rightarrow> BitsError + 'a" where
  "decode_section raw name target from_value dflt =
    (case json_get raw name of
       None \<Rightarrow> Inr dflt
     | Some v \<Rightarrow> (case from_value v of Inl e \<Rightarrow> Inl (BE_Config (CE_Decode name target e)) | Inr x \<Rightarrow> Inr x))"

section \<open>Histogram buckets\<close>

definition f64_is_finite :: "u64 \<Rightarrow> bool" where
  "f64_is_finite b \<longleftrightarrow> drop_bit 52 b AND 0x7FF \<noteq> 0x7FF"

text \<open>The order of the numbers that are not NaN is the order of their signed magnitudes.\<close>
definition f64_key :: "u64 \<Rightarrow> int" where
  "f64_key b = (if bit b 63 then - uint (mask 63 AND b) else uint b)"

fun check_buckets :: "string \<Rightarrow> u64 option \<Rightarrow> u64 list \<Rightarrow> BitsError + unit" where
  "check_buckets field before [] = Inr ()"
| "check_buckets field before (b # bs) =
    (if \<not> f64_is_finite b then Inl (validation field ''must be finite (no NaN or infinity)'')
     else if f64_key b < 0 then Inl (validation field ''must not be negative'')
     else if \<exists>p \<in> set_option before. f64_key b \<le> f64_key p then Inl (validation field ''must be strictly increasing'')
     else check_buckets field (Some b) bs)"

definition validate_buckets :: "string \<Rightarrow> u64 list \<Rightarrow> BitsError + unit" where
  "validate_buckets field buckets =
    (if buckets = [] then Inl (validation field ''must not be empty'') else check_buckets field None buckets)"

definition resolve_buckets :: "MetricsConfig \<Rightarrow> BitsError + HistogramBuckets" where
  "resolve_buckets cfg =
    bind_result (case mc_duration_buckets cfg of
        None \<Rightarrow> Inr histogram_buckets_default
      | Some d \<Rightarrow> bind_result (validate_buckets ''metrics.duration_buckets'' d) (\<lambda>_. Inr (histogram_buckets_default\<lparr> hb_duration := d \<rparr>)))
    (\<lambda>buckets. case mc_queue_wait_buckets cfg of
        None \<Rightarrow> Inr buckets
      | Some q \<Rightarrow> bind_result (validate_buckets ''metrics.queue_wait_buckets'' q) (\<lambda>_. Inr (buckets\<lparr> hb_queue_wait := q \<rparr>)))"

section \<open>Scalar settings\<close>

text \<open>Everything that is settled before a store is opened.\<close>
record Settings =
  se_site :: string
  se_env :: string
  se_internal_poll_endpoint :: string
  se_internal_poll_timeout :: duration
  se_sweep_interval :: "duration option"
  se_reconnect_buffer :: duration
  se_persist_after :: "duration option"
  se_max_jobs :: nat
  se_persistence :: "PersistenceConfig option"
  se_worker_server :: "RemotePoolExecutor WorkerServer option"
  se_server_config :: "u64 ServerConfig"
  se_had_server_section :: bool
  se_buckets :: HistogramBuckets

definition DEFAULT_MAX_JOBS :: nat where "DEFAULT_MAX_JOBS = 500000"
definition PERSIST_GUARD :: duration where "PERSIST_GUARD = secs 1"

definition default_endpoint :: "u64 ServerConfig \<Rightarrow> string" where
  "default_endpoint cfg =
    (let host = (if sv_host cfg = ''::'' then ''::1'' else if sv_host cfg = ''0.0.0.0'' then ''127.0.0.1'' else sv_host cfg);
         port = show_uint (uint (sv_port cfg))
     in if CHR '':'' \<in> set host then ''http://['' @ host @ '']:'' @ port @ ''/job''
        else ''http://'' @ host @ '':'' @ port @ ''/job'')"

definition check_persist_after :: "(duration \<Rightarrow> string) \<Rightarrow> duration option \<Rightarrow> duration \<Rightarrow> BitsError + unit" where
  "check_persist_after fmt persist_after client_timeout =
    (case persist_after of
       None \<Rightarrow> Inr ()
     | Some d \<Rightarrow>
         if d + PERSIST_GUARD \<ge> client_timeout
         then Inl (validation ''bits.persist_after_secs'' (''bits.persist_after_secs ('' @ fmt d
           @ '' s) + 1 s guard must be less than server.poll_timeout_secs ('' @ fmt client_timeout @ '' s)''))
         else Inr ())"

text \<open>The built-in defaults are 2.5 and 5 seconds.\<close>
definition parse_settings :: "('x, 'c, 'h, 'v, 's, 'tc, 'tt, 'tv, 'ts) BootEnv \<Rightarrow> json \<Rightarrow> BitsError + Settings" where
  "parse_settings env raw =
    (let dur = ce_secs (be_config env) in
     bind_result (decode_section raw ''bits'' ''BitsConfig'' (be_bits_config env) bits_config_default) (\<lambda>cfg.
     let worker_server = map_option (\<lambda>ws. worker_server_new (wc_host ws) (wc_port ws) (wc_advertised_addr ws)) (bc_worker_server cfg) in
     bind_result (require_site_env_tag ''bits.site'' (bc_site cfg)) (\<lambda>site.
     bind_result (require_site_env_tag ''bits.env'' (bc_env cfg)) (\<lambda>env_tag.
     bind_result (positive_duration_secs dur ''bits.internal_poll_timeout_secs''
       (unwrap_or (bc_internal_poll_timeout_secs cfg) 0x4004000000000000)) (\<lambda>internal_poll_timeout.
     bind_result (map_transpose (positive_duration_secs dur ''bits.sweep_interval_secs'') (bc_sweep_interval_secs cfg)) (\<lambda>sweep_interval.
     bind_result (positive_duration_secs dur ''bits.reconnect_buffer_secs''
       (unwrap_or (bc_reconnect_buffer_secs cfg) 0x4014000000000000)) (\<lambda>reconnect_buffer.
     bind_result (map_transpose (duration_secs dur ''bits.persist_after_secs'') (bc_persist_after_secs cfg)) (\<lambda>persist_after.
     if bc_max_jobs cfg = Some 0 then Inl (validation ''bits.max_jobs'' ''must be greater than zero'') else
     bind_result (decode_section raw ''server'' ''ServerConfig'' (be_server_config env) (server_config_default (be_f64_of env))) (\<lambda>server_config.
     bind_result (decode_section raw ''metrics'' ''MetricsConfig'' (be_metrics_config env) metrics_config_default) (\<lambda>metrics_cfg.
     bind_result (resolve_buckets metrics_cfg) (\<lambda>buckets.
     bind_result (positive_duration_secs dur ''server.poll_timeout_secs'' (sv_poll_timeout_secs server_config)) (\<lambda>client_timeout.
     if sv_retry_after_secs server_config = 0 then Inl (validation ''server.retry_after_secs'' ''must be greater than zero'') else
     bind_result (if bc_persistence cfg = None then Inr () else check_persist_after (be_secs_3 env) persist_after client_timeout) (\<lambda>_.
     Inr \<lparr> se_site = site, se_env = env_tag,
       se_internal_poll_endpoint = (case bc_internal_poll_endpoint cfg of Some url \<Rightarrow> url | None \<Rightarrow> default_endpoint server_config),
       se_internal_poll_timeout = internal_poll_timeout, se_sweep_interval = sweep_interval, se_reconnect_buffer = reconnect_buffer,
       se_persist_after = persist_after, se_max_jobs = unwrap_or (bc_max_jobs cfg) DEFAULT_MAX_JOBS,
       se_persistence = bc_persistence cfg, se_worker_server = worker_server, se_server_config = server_config,
       se_had_server_section = (json_get raw ''server'' \<noteq> None), se_buckets = buckets \<rparr>)))))))))))))"

section \<open>Opening the store\<close>

datatype ('h, 'tc) store_handle = NatsHandle "'h NatsStore" | TiKvHandle "'tc TiKvStore"

text \<open>The handle together with the service behind it.\<close>
definition at_store :: "('h, 'tc) store_handle \<Rightarrow> 's \<times> 'ts \<Rightarrow> ('h, 's, 'tc, 'ts, unit) PersistenceStore" where
  "at_store h w = (case h of NatsHandle ns \<Rightarrow> IsNats ns (fst w) | TiKvHandle tk \<Rightarrow> IsTiKv tk (snd w))"

definition from_store :: "('h, 'tc) store_handle \<Rightarrow> 's \<times> 'ts \<Rightarrow> ('h, 's, 'tc, 'ts, unit) PersistenceStore
    \<Rightarrow> ('h, 'tc) store_handle \<times> 's \<times> 'ts" where
  "from_store h w store =
    (case store of
       IsNats ns s \<Rightarrow> (NatsHandle ns, s, snd w)
     | IsTiKv tk ts \<Rightarrow> (TiKvHandle tk, fst w, ts)
     | _ \<Rightarrow> (h, w))"

definition default_connect_timeout :: duration where "default_connect_timeout = secs 10"

definition parse_lease_ttl :: "(u64 \<Rightarrow> string + duration) \<Rightarrow> u64 \<Rightarrow> BitsError + duration" where
  "parse_lease_ttl dur n =
    bind_result (duration_secs dur ''bits.persistence.broker_lease_ttl_secs'' n) (\<lambda>ttl.
      if ttl < secs 1 then Inl (validation ''bits.persistence.broker_lease_ttl_secs'' ''must be at least 1 second'') else Inr ttl)"

definition parse_connect_timeout :: "(u64 \<Rightarrow> string + duration) \<Rightarrow> u64 option \<Rightarrow> BitsError + duration" where
  "parse_connect_timeout dur v =
    (case v of None \<Rightarrow> Inr default_connect_timeout
     | Some n \<Rightarrow> positive_duration_secs dur ''bits.persistence.connect_timeout_secs'' n)"

definition feature_disabled :: "string \<Rightarrow> BitsError" where
  "feature_disabled feature = BE_Config (CE_FeatureDisabled ''bits.persistence.type'' feature)"

definition open_tikv :: "(u64 \<Rightarrow> string + duration) \<Rightarrow> bool \<Rightarrow> TikvSettings \<Rightarrow> BitsError + 'tc TiKvStore \<times> duration" where
  "open_tikv dur feature cfg =
    (if tc_endpoints cfg = [] then Inl (validation ''bits.persistence.endpoints'' ''must not be empty'')
     else bind_result (parse_lease_ttl dur (tc_broker_lease_ttl_secs cfg)) (\<lambda>ttl.
       bind_result (parse_connect_timeout dur (tc_connect_timeout_secs cfg)) (\<lambda>connect_timeout.
       if feature then Inr (tikv_new (tc_endpoints cfg) connect_timeout, ttl) else Inl (feature_disabled ''tikv''))))"

definition parse_tombstone_ttl :: "(u64 \<Rightarrow> string + duration) \<Rightarrow> u64 \<Rightarrow> BitsError + duration" where
  "parse_tombstone_ttl dur n =
    bind_result (positive_duration_secs dur ''bits.persistence.jobs_tombstone_ttl_secs'' n) (\<lambda>ttl.
      if ttl < secs 1 then Inl (validation ''bits.persistence.jobs_tombstone_ttl_secs'' ''must be at least 1 second'') else Inr ttl)"

text \<open>Without the feature the connect timeout is checked last.\<close>
definition new_nats :: "(u64 \<Rightarrow> string + duration) \<Rightarrow> bool \<Rightarrow> NatsSettings \<Rightarrow> BitsError + 'h NatsStore \<times> duration \<times> u32" where
  "new_nats dur feature cfg =
    (let connect = parse_connect_timeout dur (ncf_connect_timeout_secs cfg);
         max_attempts = unwrap_or (ncf_init_max_attempts cfg) 6 in
     if ncf_url cfg = [] then Inl (validation ''bits.persistence.url'' ''must not be empty'')
     else if ncf_jobs_bucket cfg = [] then Inl (validation ''bits.persistence.jobs_bucket'' ''must not be empty'')
     else if ncf_leases_bucket cfg = [] then Inl (validation ''bits.persistence.leases_bucket'' ''must not be empty'')
     else if ncf_num_replicas cfg < 1 then Inl (validation ''bits.persistence.num_replicas'' ''must be at least 1'')
     else bind_result (parse_lease_ttl dur (ncf_broker_lease_ttl_secs cfg)) (\<lambda>ttl.
       bind_result (if feature then connect else Inr 0) (\<lambda>connect_timeout.
       bind_result (map_transpose (parse_tombstone_ttl dur) (ncf_jobs_tombstone_ttl_secs cfg)) (\<lambda>tombstone_ttl.
       if max_attempts < 1 then Inl (validation ''bits.persistence.init_max_attempts'' ''must be at least 1'')
       else if \<not> feature then bind_result connect (\<lambda>_. Inl (feature_disabled ''nats''))
       else let store = nats_new (ncf_url cfg) (ncf_jobs_bucket cfg) (ncf_leases_bucket cfg) ttl (ncf_num_replicas cfg) connect_timeout
         in Inr (case tombstone_ttl of Some t \<Rightarrow> with_job_tombstone_ttl t store | None \<Rightarrow> store, ttl, max_attempts)))))"

text \<open>The attempts left and the delay before the next; the result is \<open>last_err\<close>.\<close>
primrec nats_init_loop :: "('c, 'h, 'v, 's) nats_client \<Rightarrow> (duration \<Rightarrow> 's \<Rightarrow> 's) \<Rightarrow> nat \<Rightarrow> duration
    \<Rightarrow> 'h NatsStore \<times> 's \<Rightarrow> string option \<times> 'h NatsStore \<times> 's" where
  "nats_init_loop cl sleep 0 delay st = (None, st)"
| "nats_init_loop cl sleep (Suc n) delay st =
    (case nats_init cl st of
       (Inr _, st) \<Rightarrow> (None, st)
     | (Inl e, ns, s) \<Rightarrow>
         if n = 0 then (Some (db_error_display e), ns, s)
         else nats_init_loop cl sleep n (min (2 * delay) (secs 10)) (ns, sleep delay s))"

definition open_nats :: "('x, 'c, 'h, 'v, 's, 'tc, 'tt, 'tv, 'ts) BootEnv \<Rightarrow> NatsSettings \<Rightarrow> 's
    \<Rightarrow> (BitsError + 'h NatsStore \<times> duration) \<times> 's" where
  "open_nats env cfg s =
    (case new_nats (ce_secs (be_config env)) (be_nats_feature env) cfg of
       Inl e \<Rightarrow> (Inl e, s)
     | Inr (store, ttl, max_attempts) \<Rightarrow>
         if \<not> be_tokio_handle env
         then (Inl (validation ''bits.persistence.type'' ''nats requires a running Tokio runtime for init''), s)
         else (case nats_init_loop (bk_nats (be_backends env)) (be_sleep env) (unat max_attempts) (secs 1) (store, s) of
             (Some reason, _, s) \<Rightarrow> (Inl (BE_Config (CE_PersistenceInit ''bits.persistence'' ''nats'' reason)), s)
           | (None, store, s) \<Rightarrow> (Inr (store, ttl), s)))"

text \<open>The store, the lease lifetime (30 seconds without a store), and \<open>persist_after\<close>, which needs a store.\<close>
definition open_store :: "('x, 'c, 'h, 'v, 's, 'tc, 'tt, 'tv, 'ts) BootEnv \<Rightarrow> Settings \<Rightarrow> 's \<times> 'ts
    \<Rightarrow> (BitsError + ('h, 'tc) store_handle option \<times> duration \<times> duration option) \<times> 's \<times> 'ts" where
  "open_store env se w =
    (case se_persistence se of
       Some (Tikv cfg) \<Rightarrow>
         (case open_tikv (ce_secs (be_config env)) (be_tikv_feature env) cfg of
            Inl e \<Rightarrow> (Inl e, w)
          | Inr (tk, ttl) \<Rightarrow> (Inr (Some (TiKvHandle tk), ttl, se_persist_after se), w))
     | Some (Nats cfg) \<Rightarrow>
         (case open_nats env cfg (fst w) of
            (Inl e, s) \<Rightarrow> (Inl e, s, snd w)
          | (Inr (ns, ttl), s) \<Rightarrow> (Inr (Some (NatsHandle ns), ttl, se_persist_after se), s, snd w))
     | None \<Rightarrow> (Inr (None, secs 30, None), w))"

section \<open>The broker slot and the routes\<close>

definition allocate_startup_broker_slot :: "('x, 'c, 'h, 'v, 's, 'tc, 'tt, 'tv, 'ts) BootEnv \<Rightarrow> ('h, 'tc) store_handle \<Rightarrow> string \<Rightarrow> string
    \<Rightarrow> 's \<times> 'ts \<Rightarrow> ((BitsError + u16) \<times> ('h, 'tc) store_handle \<times> 's \<times> 'ts) option" where
  "allocate_startup_broker_slot env store site env_tag w =
    (case be_build_runtime env of
       Inl err \<Rightarrow> Some (Inl (validation ''bits.persistence'' err), store, w)
     | Inr _ \<Rightarrow> map_option (\<lambda>(r, st). (map_sum BE_Persistence id r, from_store store w st))
         (allocate_broker_slot (be_backends env) site env_tag (at_store store w)))"

definition startup_slot :: "('x, 'c, 'h, 'v, 's, 'tc, 'tt, 'tv, 'ts) BootEnv \<Rightarrow> ('h, 'tc) store_handle option \<Rightarrow> string \<Rightarrow> string
    \<Rightarrow> 's \<times> 'ts \<Rightarrow> ((BitsError + u16) \<times> ('h, 'tc) store_handle option \<times> 's \<times> 'ts) option" where
  "startup_slot env jstore site env_tag w =
    (case jstore of
       Some store \<Rightarrow> map_option (\<lambda>(r, store, w). (r, Some store, w)) (allocate_startup_broker_slot env store site env_tag w)
     | None \<Rightarrow> Some (Inr 0, None, w))"

definition broker_name :: "string \<Rightarrow> string \<Rightarrow> u16 \<Rightarrow> string" where
  "broker_name site env_tag slot = site @ ''-'' @ env_tag @ ''-'' @ show_uint (uint slot)"

definition from_parts :: "Registries \<Rightarrow> (string \<times> 'x ResolvedTarget) list \<Rightarrow> RemotePoolExecutor WorkerServer option \<Rightarrow> string
    \<Rightarrow> 'x RouteFactory" where
  "from_parts registries resolved_targets worker_server broker_id = \<lparr> rf_registries = registries,
    rf_resolved_targets = resolved_targets, rf_worker_server = worker_server, rf_broker_id = broker_id \<rparr>"

definition parse_router :: "('x, 'c, 'h, 'v, 's, 'tc, 'tt, 'tv, 'ts) BootEnv \<Rightarrow> json \<Rightarrow> Settings \<Rightarrow> u16
    \<Rightarrow> BitsError + 'x Route list \<times> 'x RouteFactory" where
  "parse_router env raw se slot =
    bind_result (decode_section raw ''checks'' ''map'' (be_value_map env) []) (\<lambda>checks.
    bind_result (decode_section raw ''transforms'' ''map'' (be_value_map env) []) (\<lambda>transforms.
    bind_result (decode_section raw ''targets'' ''map'' (be_value_map env) []) (\<lambda>targets.
    let rf = from_parts \<lparr> rg_checks = checks, rg_transforms = transforms, rg_targets = targets \<rparr> []
      (se_worker_server se) (broker_name (se_site se) (se_env se) slot) in
    bind_result
      (case json_get raw ''routes'' of
         None \<Rightarrow> Inr ([], rf)
       | Some v \<Rightarrow> (case parse_route (be_config env) [] ''routes'' v rf of (r, rf) \<Rightarrow> bind_result r (\<lambda>branches. Inr (branches, rf))))
      (\<lambda>(branches, rf).
      if branches = [] then Inr (branches, rf)
      else case validate branches of Inl e \<Rightarrow> Inl (BE_Routing e) | Inr _ \<Rightarrow> Inr (branches, rf)))))"

section \<open>Bootstrap\<close>

record ('x, 'h, 'tc) RuntimeConfig =
  rc_router :: "'x Route list"
  rc_route_factory :: "'x RouteFactory"
  rc_sweep_interval :: "duration option"
  rc_reconnect_buffer :: duration
  rc_site :: string
  rc_env :: string
  rc_broker_slot :: u16
  rc_internal_poll_endpoint :: string
  rc_internal_poll_timeout :: duration
  rc_job_store :: "('h, 'tc) store_handle option"
  rc_broker_lease_ttl :: duration
  rc_persist_after :: "duration option"
  rc_max_jobs :: nat

record ('x, 'h, 'tc) Bootstrap =
  bt_runtime_config :: "('x, 'h, 'tc) RuntimeConfig"
  bt_server_config :: "u64 ServerConfig"
  bt_had_server_section :: bool
  bt_metrics_buckets :: HistogramBuckets

definition assemble :: "Settings \<Rightarrow> ('h, 'tc) store_handle option \<Rightarrow> duration \<Rightarrow> duration option \<Rightarrow> u16
    \<Rightarrow> 'x Route list \<times> 'x RouteFactory \<Rightarrow> ('x, 'h, 'tc) Bootstrap" where
  "assemble se jstore lease_ttl persist_after slot routes = \<lparr>
    bt_runtime_config = \<lparr> rc_router = fst routes, rc_route_factory = snd routes, rc_sweep_interval = se_sweep_interval se,
      rc_reconnect_buffer = se_reconnect_buffer se, rc_site = se_site se, rc_env = se_env se, rc_broker_slot = slot,
      rc_internal_poll_endpoint = se_internal_poll_endpoint se, rc_internal_poll_timeout = se_internal_poll_timeout se,
      rc_job_store = jstore, rc_broker_lease_ttl = lease_ttl, rc_persist_after = persist_after, rc_max_jobs = se_max_jobs se \<rparr>,
    bt_server_config = se_server_config se, bt_had_server_section = se_had_server_section se, bt_metrics_buckets = se_buckets se \<rparr>"

definition boot_raw :: "('x, 'c, 'h, 'v, 's, 'tc, 'tt, 'tv, 'ts) BootEnv \<Rightarrow> json \<Rightarrow> 's \<times> 'ts
    \<Rightarrow> ((BitsError + ('x, 'h, 'tc) Bootstrap) \<times> 's \<times> 'ts) option" where
  "boot_raw env raw w =
    (case parse_settings env raw of
       Inl e \<Rightarrow> Some (Inl e, w)
     | Inr se \<Rightarrow>
     case open_store env se w of
       (Inl e, w) \<Rightarrow> Some (Inl e, w)
     | (Inr (jstore, lease_ttl, persist_after), w) \<Rightarrow>
     case startup_slot env jstore (se_site se) (se_env se) w of
       None \<Rightarrow> None
     | Some (Inl e, _, w) \<Rightarrow> Some (Inl e, w)
     | Some (Inr slot, jstore, w) \<Rightarrow>
         Some (bind_result (parse_router env raw se slot) (\<lambda>routes. Inr (assemble se jstore lease_ttl persist_after slot routes)), w))"

definition parse_bootstrap :: "('x, 'c, 'h, 'v, 's, 'tc, 'tt, 'tv, 'ts) BootEnv \<Rightarrow> string \<Rightarrow> 's \<times> 'ts
    \<Rightarrow> ((BitsError + ('x, 'h, 'tc) Bootstrap) \<times> 's \<times> 'ts) option" where
  "parse_bootstrap env config w =
    (case be_yaml env config of
       Inl e \<Rightarrow> Some (Inl (BE_Config (CE_Yaml e)), w)
     | Inr raw \<Rightarrow>
         if as_object raw = None then Some (Inl (validation ''config'' ''top-level config must be a YAML mapping''), w)
         else boot_raw env raw w)"

section \<open>Accepted settings\<close>

lemma check_buckets_iff:
  "check_buckets field before bs = Inr () \<longleftrightarrow>
    list_all f64_is_finite bs \<and> list_all (\<lambda>b. 0 \<le> f64_key b) bs \<and> sorted_wrt (\<lambda>a b. f64_key a < f64_key b) bs
    \<and> (\<forall>p \<in> set_option before. \<forall>b \<in> set bs. f64_key p < f64_key b)"
  by (induction field before bs rule: check_buckets.induct) (auto simp: list_all_iff)

definition buckets_ok :: "u64 list \<Rightarrow> bool" where
  "buckets_ok bs \<longleftrightarrow> bs \<noteq> [] \<and> list_all f64_is_finite bs \<and> list_all (\<lambda>b. 0 \<le> f64_key b) bs
    \<and> sorted_wrt (\<lambda>a b. f64_key a < f64_key b) bs"

lemma validate_buckets_iff: "validate_buckets field bs = Inr () \<longleftrightarrow> buckets_ok bs"
  by (simp add: validate_buckets_def buckets_ok_def check_buckets_iff)

lemma default_buckets_ok: "buckets_ok (hb_duration histogram_buckets_default)" "buckets_ok (hb_queue_wait histogram_buckets_default)"
  by code_simp+

lemma resolve_buckets_ok: "resolve_buckets cfg = Inr hb \<Longrightarrow> buckets_ok (hb_duration hb) \<and> buckets_ok (hb_queue_wait hb)"
  using default_buckets_ok validate_buckets_iff
  by (auto simp: resolve_buckets_def bind_result_eq_Inr split: option.splits)

lemma positive_durationD: "positive_duration_secs dur field n = Inr d \<Longrightarrow> 0 < d"
  by (auto simp: positive_duration_secs_def bind_result_eq_Inr split: if_splits)

definition settings_ok :: "Settings \<Rightarrow> duration \<Rightarrow> bool" where
  "settings_ok se client_timeout \<longleftrightarrow>
    (\<exists>x. pack_tag (se_site se) = Inr x) \<and> (\<exists>x. pack_tag (se_env se) = Inr x)
    \<and> 0 < se_internal_poll_timeout se \<and> (\<forall>d \<in> set_option (se_sweep_interval se). 0 < d) \<and> 0 < se_reconnect_buffer se
    \<and> 0 < se_max_jobs se \<and> 0 < client_timeout \<and> sv_retry_after_secs (se_server_config se) \<noteq> 0
    \<and> (se_persistence se \<noteq> None \<longrightarrow> (\<forall>d \<in> set_option (se_persist_after se). d + PERSIST_GUARD < client_timeout))
    \<and> buckets_ok (hb_duration (se_buckets se)) \<and> buckets_ok (hb_queue_wait (se_buckets se))"

lemma required_tag_packs: "require_site_env_tag field v = Inr tag \<Longrightarrow> \<exists>x. pack_tag tag = Inr x"
proof -
  assume "require_site_env_tag field v = Inr tag"
  then obtain t where "(case pack_tag t of Inl err \<Rightarrow> Inl (validation field (encode_error_display err)) | Inr _ \<Rightarrow> Inr t) = Inr tag"
    by (auto simp: require_site_env_tag_def bind_result_eq_Inr)
  then show ?thesis by (cases "pack_tag t") auto
qed

lemma map_transpose_positive: "map_transpose (positive_duration_secs dur field) v = Inr r \<Longrightarrow> \<forall>d \<in> set_option r. 0 < d"
  using positive_durationD by (auto simp: map_transpose_def bind_result_eq_Inr split: option.splits)

lemma check_persist_afterD: "check_persist_after fmt p t = Inr u \<Longrightarrow> \<forall>d \<in> set_option p. d + PERSIST_GUARD < t"
  by (auto simp: check_persist_after_def split: option.splits if_splits)

lemma max_jobs_pos: "m \<noteq> Some 0 \<Longrightarrow> 0 < unwrap_or m DEFAULT_MAX_JOBS"
  by (cases m) (auto simp: DEFAULT_MAX_JOBS_def)

lemma bind_result_InrE:
  assumes "bind_result r f = Inr y"
  obtains x where "r = Inr x" "f x = Inr y"
  using assms by (auto simp: bind_result_eq_Inr)

lemma guard_InrE:
  assumes "(if c then Inl e else r) = Inr y"
  obtains "\<not> c" "r = Inr y"
  using assms by (auto split: if_splits)

lemma positive_duration_value:
  "positive_duration_secs dur field n = Inr d \<Longrightarrow> dur n = Inr d"
  by (auto simp: positive_duration_secs_def duration_secs_def bind_result_eq_Inr split: sum.splits if_splits)

lemma parse_settings_ok:
  assumes "parse_settings env raw = Inr se"
  shows "\<exists>t. ce_secs (be_config env) (sv_poll_timeout_secs (se_server_config se)) = Inr t \<and> settings_ok se t"
  using assms unfolding parse_settings_def Let_def
proof (elim bind_result_InrE guard_InrE, goal_cases)
  case (1 cfg site env_tag ipt sweep rb pa server metrics buckets ct u)
  from 1(15) have se: "se_site se = site" "se_env se = env_tag" "se_internal_poll_timeout se = ipt" "se_sweep_interval se = sweep"
      "se_reconnect_buffer se = rb" "se_persist_after se = pa" "se_max_jobs se = unwrap_or (bc_max_jobs cfg) DEFAULT_MAX_JOBS"
      "se_persistence se = bc_persistence cfg" "se_server_config se = server" "se_buckets se = buckets"
    by auto
  have "settings_ok se ct"
    unfolding settings_ok_def se using 1(8,13,14)
      required_tag_packs [OF 1(2)] required_tag_packs [OF 1(3)] positive_durationD [OF 1(4)] map_transpose_positive [OF 1(5)]
      positive_durationD [OF 1(6)] max_jobs_pos [OF 1(8)] resolve_buckets_ok [OF 1(11)] positive_durationD [OF 1(12)]
    by (simp add: check_persist_afterD split: if_splits)
  with positive_duration_value [OF 1(12)] se show ?case by auto
qed

section \<open>The accepted bootstrap\<close>

lemma parse_lease_ttl_bound: "parse_lease_ttl dur n = Inr ttl \<Longrightarrow> secs 1 \<le> ttl"
  by (auto simp: parse_lease_ttl_def bind_result_eq_Inr split: if_splits)

lemma parse_connect_timeout_pos: "parse_connect_timeout dur v = Inr d \<Longrightarrow> 0 < d"
  using positive_durationD by (auto simp: parse_connect_timeout_def default_connect_timeout_def secs_def split: option.splits)

lemma open_tikv_Inr:
  assumes "open_tikv dur feature cfg = Inr (tk, ttl)"
  shows "feature \<and> secs 1 \<le> ttl \<and> tk_endpoints tk \<noteq> [] \<and> 0 < tk_connect_timeout tk \<and> tk_client tk = None"
  using assms parse_lease_ttl_bound parse_connect_timeout_pos
  by (auto simp: open_tikv_def bind_result_eq_Inr tikv_new_def split: if_splits)

lemma new_nats_Inr:
  assumes "new_nats dur feature cfg = Inr (ns, ttl, n)"
  shows "feature \<and> secs 1 \<le> ttl \<and> n \<noteq> 0 \<and> ns_lease_ttl ns = ttl \<and> 0 < ns_connect_timeout ns \<and> 1 \<le> ns_num_replicas ns"
  using assms parse_lease_ttl_bound parse_connect_timeout_pos
  by (auto simp: new_nats_def Let_def bind_result_eq_Inr nats_new_def with_job_tombstone_ttl_def word_less_1 split: if_splits option.splits)

lemma nats_stores_Inr:
  "nats_stores cl (ns, s) = (Inr hs, ns', s') \<Longrightarrow> ns' = ns\<lparr> ns_stores := Some hs \<rparr>"
  by (cases ns) (auto simp: nats_stores_def split: option.splits prod.splits sum.splits)

lemma nats_stores_Inl: "nats_stores cl (ns, s) = (Inl e, ns', s') \<Longrightarrow> ns' = ns"
  by (auto simp: nats_stores_def split: option.splits prod.splits sum.splits)

lemma nats_init_cases:
  obtains (up) hs s' where "nats_init cl (ns, s) = (Inr (), ns\<lparr> ns_stores := Some hs \<rparr>, s')"
  | (down) e s' where "nats_init cl (ns, s) = (Inl e, ns, s')"
proof -
  obtain r ns' s' where r: "nats_stores cl (ns, s) = (r, ns', s')" by (metis prod.exhaust)
  show thesis
  proof (cases r)
    case (Inl e)
    then show thesis using r nats_stores_Inl [of cl ns s e ns' s'] by (intro down) (simp add: nats_init_def db_then_def)
  next
    case (Inr hs)
    then show thesis using r nats_stores_Inr [of cl ns s hs ns' s'] by (intro up) (simp add: nats_init_def db_then_def db_return_def)
  qed
qed

text \<open>The server when attempt \<open>k\<close> begins, all earlier ones having failed.\<close>
primrec attempt_at :: "('c, 'h, 'v, 's) nats_client \<Rightarrow> (duration \<Rightarrow> 's \<Rightarrow> 's) \<Rightarrow> 'h NatsStore \<Rightarrow> nat \<Rightarrow> duration \<Rightarrow> 's \<Rightarrow> 's" where
  "attempt_at cl sleep ns 0 d s = s"
| "attempt_at cl sleep ns (Suc k) d s =
    attempt_at cl sleep ns k (min (2 * d) (secs 10)) (sleep d (snd (snd (nats_init cl (ns, s)))))"

primrec pause :: "nat \<Rightarrow> duration \<Rightarrow> duration" where
  "pause 0 d = d"
| "pause (Suc k) d = pause k (min (2 * d) (secs 10))"

lemma pause_bound: "d \<le> secs 10 \<Longrightarrow> pause k d = min (2 ^ k * d) (secs 10)"
proof (induction k arbitrary: d)
  case (Suc k)
  have "pause (Suc k) d = min (2 ^ k * min (2 * d) (secs 10)) (secs 10)" using Suc.IH [of "min (2 * d) (secs 10)"] by simp
  also have "\<dots> = min (2 ^ Suc k * d) (secs 10)"
  proof (cases "2 * d \<le> secs 10")
    case False
    have ge: "(2 :: nat) ^ k \<ge> 1" by simp
    have "secs 10 \<le> 2 ^ k * secs 10" using mult_le_mono1 [OF ge, of "secs 10"] by simp
    moreover have "2 * d \<le> 2 ^ Suc k * d" by (rule mult_le_mono1) simp
    then have "secs 10 \<le> 2 ^ Suc k * d" using False by linarith
    ultimately show ?thesis using False by (simp add: min_absorb2)
  qed (simp add: min_absorb1 mult.assoc mult.left_commute)
  finally show ?case .
qed simp

lemma attempt_at_Suc:
  "attempt_at cl sleep ns (Suc k) d s = sleep (pause k d) (snd (snd (nats_init cl (ns, attempt_at cl sleep ns k d s))))"
  by (induction k arbitrary: d s) simp_all

lemma nats_init_loop_first:
  "0 < n \<Longrightarrow> (case nats_init_loop cl sleep n d (ns, s) of
     (None, st) \<Rightarrow> \<exists>k < n. (\<forall>i < k. isl (fst (nats_init cl (ns, attempt_at cl sleep ns i d s))))
        \<and> nats_init cl (ns, attempt_at cl sleep ns k d s) = (Inr (), st)
   | (Some reason, st) \<Rightarrow> (\<forall>i < n. isl (fst (nats_init cl (ns, attempt_at cl sleep ns i d s))))
        \<and> (\<exists>e. nats_init cl (ns, attempt_at cl sleep ns (n - 1) d s) = (Inl e, st) \<and> reason = db_error_display e))"
proof (induction n arbitrary: d s)
  case (Suc n)
  show ?case
  proof (cases rule: nats_init_cases [of cl ns s])
    case (up hs s')
    then show ?thesis by (auto intro!: exI [of _ 0])
  next
    case (down e s')
    let ?d = "min (2 * d) (secs 10)" and ?s = "sleep d s'"
    show ?thesis
    proof (cases n)
      case 0
      then show ?thesis using down by simp
    next
      case m: (Suc m)
      have shift: "attempt_at cl sleep ns (Suc i) d s = attempt_at cl sleep ns i ?d ?s" for i using down by simp
      have fails: "(\<forall>i < Suc k. isl (fst (nats_init cl (ns, attempt_at cl sleep ns i d s)))) \<longleftrightarrow>
        (\<forall>i < k. isl (fst (nats_init cl (ns, attempt_at cl sleep ns i ?d ?s))))" for k
        using down by (simp only: All_less_Suc2 shift) simp
      have run: "nats_init_loop cl sleep (Suc n) d (ns, s) = nats_init_loop cl sleep n ?d (ns, ?s)" using down m by simp
      obtain r st where l: "nats_init_loop cl sleep n ?d (ns, ?s) = (r, st)" by (rule prod.exhaust)
      have "0 < n" using m by simp
      note IH = Suc.IH [OF this, of ?d ?s, unfolded l]
      show ?thesis
      proof (cases r)
        case None
        then obtain k where k: "k < n" "\<forall>i < k. isl (fst (nats_init cl (ns, attempt_at cl sleep ns i ?d ?s)))"
            "nats_init cl (ns, attempt_at cl sleep ns k ?d ?s) = (Inr (), st)"
          using IH by auto
        then have "nats_init cl (ns, attempt_at cl sleep ns (Suc k) d s) = (Inr (), st)" by (simp only: shift)
        then show ?thesis unfolding run l None using fails [of k] k(1,2) by (auto simp del: attempt_at.simps intro!: exI [of _ "Suc k"])
      next
        case (Some reason)
        have last: "attempt_at cl sleep ns (Suc n - 1) d s = attempt_at cl sleep ns (n - 1) ?d ?s" using m shift [of m] by simp
        show ?thesis unfolding run l Some last prod.case option.case fails using IH Some by simp
      qed
    qed
  qed
qed simp

definition handle_ok :: "duration \<Rightarrow> ('h, 'tc) store_handle \<Rightarrow> bool" where
  "handle_ok ttl h = (case h of
     NatsHandle ns \<Rightarrow> ns_stores ns \<noteq> None \<and> ns_lease_ttl ns = ttl \<and> 1 \<le> ns_num_replicas ns
   | TiKvHandle tk \<Rightarrow> tk_endpoints tk \<noteq> [] \<and> 0 < tk_connect_timeout tk)"

lemma open_nats_Inr:
  assumes "open_nats env cfg s = (Inr (ns, ttl), s')"
  shows "secs 1 \<le> ttl \<and> handle_ok ttl (NatsHandle ns)"
proof -
  obtain ns0 n where new: "new_nats (ce_secs (be_config env)) (be_nats_feature env) cfg = Inr (ns0, ttl, n)"
    and loop: "nats_init_loop (bk_nats (be_backends env)) (be_sleep env) (unat n) (secs 1) (ns0, s) = (None, ns, s')"
    using assms by (auto simp: open_nats_def split: sum.splits if_splits option.splits prod.splits)
  note ok = new_nats_Inr [OF new]
  then have "0 < unat n" by (simp add: unat_gt_0)
  from nats_init_loop_first [OF this, where cl = "bk_nats (be_backends env)" and sleep = "be_sleep env" and d = "secs 1" and ns = ns0 and s = s] loop
  obtain s1 where "nats_init (bk_nats (be_backends env)) (ns0, s1) = (Inr (), ns, s')" by auto
  then obtain hs where "ns = ns0\<lparr> ns_stores := Some hs \<rparr>" by (cases rule: nats_init_cases [of "bk_nats (be_backends env)" ns0 s1]) auto
  with ok show ?thesis by (simp add: handle_ok_def)
qed

lemma open_store_Inr:
  assumes "open_store env se w = (Inr (jstore, ttl, pa), w')"
  shows "(se_persistence se = None \<longrightarrow> jstore = None \<and> ttl = secs 30 \<and> pa = None)
    \<and> (se_persistence se \<noteq> None \<longrightarrow> (\<exists>h. jstore = Some h \<and> handle_ok ttl h) \<and> secs 1 \<le> ttl \<and> pa = se_persist_after se)"
  using assms open_tikv_Inr open_nats_Inr
  by (fastforce simp: open_store_def handle_ok_def split: option.splits PersistenceConfig.splits sum.splits prod.splits)

lemma allocate_tikv_keeps:
  "allocate_tikv_broker_slot tc cd site env (tk, s) = Some (r, tk', s') \<Longrightarrow>
    tk_endpoints tk' = tk_endpoints tk \<and> tk_connect_timeout tk' = tk_connect_timeout tk"
  by (auto simp: allocate_tikv_broker_slot_def tikv_get_client_def split: option.splits prod.splits sum.splits if_splits)

lemma allocate_nats_keeps:
  "ns_stores ns = Some hs \<Longrightarrow> allocate_nats_broker_slot cl cd site env (ns, s) = Some (r, ns', s') \<Longrightarrow> ns' = ns"
  by (cases hs) (auto simp: allocate_run)

lemma startup_slot_keeps:
  assumes "startup_slot env (Some h) site e w = Some (r, jstore, w')" "handle_ok ttl h"
  shows "\<exists>h'. jstore = Some h' \<and> handle_ok ttl h'"
proof (cases h)
  case (NatsHandle ns)
  then have "ns_stores ns \<noteq> None" using assms(2) by (simp add: handle_ok_def)
  with NatsHandle show ?thesis using assms
    by (auto simp: startup_slot_def allocate_startup_broker_slot_def allocate_broker_slot_def at_store_def from_store_def
        split: sum.splits dest: allocate_nats_keeps)
next
  case (TiKvHandle tk)
  then show ?thesis using assms
    by (auto simp: startup_slot_def allocate_startup_broker_slot_def allocate_broker_slot_def at_store_def from_store_def
        handle_ok_def split: sum.splits dest!: allocate_tikv_keeps)
qed

lemma parse_route_broker: "parse_route env m name v rf = (r, rf') \<Longrightarrow> rf_broker_id rf' = rf_broker_id rf"
  by (auto simp: parse_route_def Let_def split: prod.splits sum.splits)

lemma parse_router_Inr:
  assumes "parse_router env raw se slot = Inr (branches, rf)"
  shows "rf_broker_id rf = broker_name (se_site se) (se_env se) slot \<and> (branches = [] \<or> validate branches = Inr ())"
  using assms unfolding parse_router_def Let_def
proof (elim bind_result_InrE, goal_cases)
  case (1 checks transforms targets p)
  obtain branches' rf' where p: "p = (branches', rf')" by (rule prod.exhaust)
  have "rf_broker_id rf' = broker_name (se_site se) (se_env se) slot"
    using 1(4) unfolding p
    by (auto simp: from_parts_def bind_result_eq_Inr split: option.splits prod.splits dest: parse_route_broker)
  with 1(5) show ?case unfolding p by (auto split: if_splits sum.splits)
qed

definition runtime_ok :: "(u64 \<Rightarrow> string + duration) \<Rightarrow> ('x, 'h, 'tc) Bootstrap \<Rightarrow> bool" where
  "runtime_ok dur b \<longleftrightarrow> (let rc = bt_runtime_config b in
    (\<exists>x. pack_tag (rc_site rc) = Inr x) \<and> (\<exists>x. pack_tag (rc_env rc) = Inr x)
    \<and> rf_broker_id (rc_route_factory rc) = broker_name (rc_site rc) (rc_env rc) (rc_broker_slot rc)
    \<and> (rc_router rc = [] \<or> validate (rc_router rc) = Inr ())
    \<and> 0 < rc_internal_poll_timeout rc \<and> 0 < rc_reconnect_buffer rc \<and> (\<forall>d \<in> set_option (rc_sweep_interval rc). 0 < d)
    \<and> 0 < rc_max_jobs rc \<and> sv_retry_after_secs (bt_server_config b) \<noteq> 0 \<and> secs 1 \<le> rc_broker_lease_ttl rc
    \<and> (\<exists>t. dur (sv_poll_timeout_secs (bt_server_config b)) = Inr t \<and> (\<forall>d \<in> set_option (rc_persist_after rc). d + PERSIST_GUARD < t))
    \<and> (case rc_job_store rc of
         None \<Rightarrow> rc_broker_slot rc = 0 \<and> rc_persist_after rc = None
       | Some h \<Rightarrow> handle_ok (rc_broker_lease_ttl rc) h)
    \<and> buckets_ok (hb_duration (bt_metrics_buckets b)) \<and> buckets_ok (hb_queue_wait (bt_metrics_buckets b)))"

lemma boot_raw_Inr:
  assumes "boot_raw env raw w = Some (Inr b, w')"
  obtains se jstore jstore' ttl pa w1 slot branches rf where "parse_settings env raw = Inr se"
    "open_store env se w = (Inr (jstore, ttl, pa), w1)" "startup_slot env jstore (se_site se) (se_env se) w1 = Some (Inr slot, jstore', w')"
    "parse_router env raw se slot = Inr (branches, rf)" "b = assemble se jstore' ttl pa slot (branches, rf)"
  using assms by (auto simp: boot_raw_def bind_result_eq_Inr split: sum.splits option.splits prod.splits)

lemma parse_bootstrap_raw:
  "parse_bootstrap env config w = Some (Inr b, w') \<Longrightarrow> \<exists>raw. be_yaml env config = Inr raw \<and> boot_raw env raw w = Some (Inr b, w')"
  by (auto simp: parse_bootstrap_def split: sum.splits if_splits)

lemma bootstrap_ok:
  assumes "parse_bootstrap env config w = Some (Inr b, w')"
  shows "runtime_ok (ce_secs (be_config env)) b"
proof -
  obtain raw where "boot_raw env raw w = Some (Inr b, w')" using parse_bootstrap_raw [OF assms] by blast
  then obtain se jstore jstore' ttl pa w1 slot branches rf where
    se: "parse_settings env raw = Inr se" and st: "open_store env se w = (Inr (jstore, ttl, pa), w1)"
    and sl: "startup_slot env jstore (se_site se) (se_env se) w1 = Some (Inr slot, jstore', w')"
    and ro: "parse_router env raw se slot = Inr (branches, rf)" and b: "b = assemble se jstore' ttl pa slot (branches, rf)"
    by (rule boot_raw_Inr)
  obtain t where t: "ce_secs (be_config env) (sv_poll_timeout_secs (se_server_config se)) = Inr t" "settings_ok se t"
    using parse_settings_ok [OF se] by blast
  have store: "case jstore' of None \<Rightarrow> slot = 0 \<and> pa = None | Some h \<Rightarrow> handle_ok ttl h" "secs 1 \<le> ttl"
      "\<forall>d \<in> set_option pa. d + PERSIST_GUARD < t"
  proof -
    show "case jstore' of None \<Rightarrow> slot = 0 \<and> pa = None | Some h \<Rightarrow> handle_ok ttl h"
      using open_store_Inr [OF st] sl startup_slot_keeps by (cases "se_persistence se") (fastforce simp: startup_slot_def)+
    show "secs 1 \<le> ttl" using open_store_Inr [OF st] by (cases "se_persistence se") (auto simp: secs_def)
    show "\<forall>d \<in> set_option pa. d + PERSIST_GUARD < t"
      using open_store_Inr [OF st] t(2) by (cases "se_persistence se") (auto simp: settings_ok_def)
  qed
  show ?thesis
    using t store parse_router_Inr [OF ro] unfolding runtime_ok_def Let_def b assemble_def settings_ok_def by (simp split: option.splits)
qed

end
