(* ===== verification/Deployment.thy ===== *)
theory Deployment
  imports Broker_Bootstrap
begin

text \<open>
  Brokers starting on a shared NATS server: what a start does to the server, and that no two brokers of a
  deployment get the same identity.  The simulated server shows that the laws assumed of NATS can hold.
\<close>

section \<open>Start-up on NATS\<close>

text \<open>Connecting, and creating, reconciling or looking up a bucket, writes no entry: what changes meanwhile is
  the work of others, as it is while the broker sleeps.\<close>
locale nats_admin = nats_kv_codec cl cur others ok cd
  for cl :: "('c, 'h, 'v, 's) nats_client" and cur others ok and cd :: "'v store_codec" +
  fixes sleep :: "duration \<Rightarrow> 's \<Rightarrow> 's"
  assumes connect_others: "ok s \<Longrightarrow> nc_connect cl url capacity s = (rc, s') \<Longrightarrow> others s s'"
    and create_others: "ok s \<Longrightarrow> nc_create_key_value cl js config s = (rh, s') \<Longrightarrow> others s s'"
    and update_others: "ok s \<Longrightarrow> nc_update_key_value cl js config s = (rh, s') \<Longrightarrow> others s s'"
    and get_others: "ok s \<Longrightarrow> nc_get_key_value cl js bucket s = (rh, s') \<Longrightarrow> others s s'"
    and sleep_others: "ok s \<Longrightarrow> others s (sleep d s)"
begin

lemma timed_then_others:
  assumes "timed_then m f s = (r, s')" "ok s" "\<And>r s'. m s = (r, s') \<Longrightarrow> others s s'"
    "\<And>x s r s'. ok s \<Longrightarrow> f x s = (r, s') \<Longrightarrow> others s s'"
  shows "others s s'"
proof -
  obtain r1 s1 where m: "m s = (r1, s1)" by (rule prod.exhaust)
  then have 1: "others s s1" "ok s1" using assms(2,3) others_ok by blast+
  show ?thesis
  proof (cases "\<exists>x. r1 = Some (Inr x)")
    case True
    then obtain x where "f x s1 = (r, s')" using assms(1) m by (auto simp: timed_then_def)
    from assms(4) [OF 1(2) this] 1(1) others_trans show ?thesis by blast
  next
    case False
    then have "s' = s1" using assms(1) m by (auto simp: timed_then_def split: option.splits sum.splits)
    with 1 show ?thesis by simp
  qed
qed

lemma awaited_others: "awaited in_time m s = (r, s') \<Longrightarrow> (\<And>r. m s = (r, s') \<Longrightarrow> others s s') \<Longrightarrow> others s s'"
  by (auto simp: awaited_def split: prod.splits)

lemma timed_err_others: "timed_err g m s = (r, s') \<Longrightarrow> (\<And>r. m s = (r, s') \<Longrightarrow> others s s') \<Longrightarrow> others s s'"
  by (cases "m s") (auto simp: timed_err_def)

lemma bucket_others:
  assumes "get_or_create_bucket cl in_time js config s = (r, s')" "ok s"
  shows "others s s'"
proof -
  obtain r1 s1 where c: "awaited in_time (nc_create_key_value cl js config) s = (r1, s1)" by (rule prod.exhaust)
  then have 1: "others s s1" using awaited_others create_others assms(2) by blast
  then have ok1: "ok s1" using others_ok assms(2) by blast
  obtain r2 s2 where u: "awaited in_time (nc_update_key_value cl js config) s1 = (r2, s2)" by (rule prod.exhaust)
  then have 2: "others s1 s2" using awaited_others update_others ok1 by blast
  then have ok2: "ok s2" using others_ok ok1 by blast
  have "others s2 s'" if "timed_err g (awaited in_time (nc_get_key_value cl js (kc_bucket config))) s2 = (r, s')" for g
    using that timed_err_others awaited_others get_others ok2 by blast
  then show ?thesis using assms(1) c u 1 others_trans [OF 1 2] others_trans
    by (auto simp: get_or_create_bucket_def split: option.splits sum.splits)
qed

lemma open_others:
  assumes "nats_open cl in_time ns s = (r, s')" "ok s"
  shows "others s s'"
proof -
  have bucket: "others s s'" if "ok s" "timed_err g (get_or_create_bucket cl in_time js config) s = (r, s')" for g js config s r s'
    using that timed_err_others bucket_others by blast
  have connect: "others s s'" if "ok s" "timed_err g (awaited in_time (nc_connect cl url capacity)) s = (r, s')" for g url capacity s r s'
    using that timed_err_others awaited_others connect_others by blast
  show ?thesis using assms unfolding nats_open_def
    by (elim timed_then_others) (auto elim!: timed_then_others intro: bucket connect others_refl)
qed

lemma init_others:
  assumes "nats_init cl (ns, s) = (r, ns', s')" "ok s"
  shows "others s s'"
proof -
  obtain r1 ns1 s1 where st: "nats_stores cl (ns, s) = (r1, ns1, s1)" by (metis prod.exhaust)
  have "others s s1" using st open_others [OF _ assms(2)] others_refl by (auto simp: nats_stores_def split: option.splits prod.splits sum.splits)
  moreover have "s' = s1" using assms(1) st by (cases r1) (auto simp: nats_init_def db_then_def db_return_def)
  ultimately show ?thesis by simp
qed

lemma init_loop_others: "nats_init_loop cl sleep n d (ns, s) = (r, ns', s') \<Longrightarrow> ok s \<Longrightarrow> others s s'"
proof (induction n arbitrary: d s)
  case 0
  then show ?case using others_refl by simp
next
  case (Suc n)
  show ?case
  proof (cases rule: nats_init_cases [of cl ns s])
    case (up hs s1)
    then show ?thesis using Suc.prems init_others [OF up] by simp
  next
    case (down e s1)
    have 1: "others s s1" "ok s1" using init_others [OF down] others_ok Suc.prems(2) by blast+
    then have 2: "others s (sleep d s1)" "ok (sleep d s1)" using sleep_others others_trans others_ok by blast+
    from Suc.prems(1) down show ?thesis using 1 Suc.IH [OF _ 2(2)] others_trans [OF 2(1)] by (auto split: if_splits)
  qed
qed

end

section \<open>A deployment on NATS\<close>

text \<open>The fields of a started broker that name it.\<close>
definition broker_id_of :: "('x, 'h, 'tc) Bootstrap \<Rightarrow> string" where
  "broker_id_of b = rf_broker_id (rc_route_factory (bt_runtime_config b))"

definition jobs_of :: "('x, 'h, 'tc) Bootstrap \<Rightarrow> 'h option" where
  "jobs_of b = (case rc_job_store (bt_runtime_config b) of Some (NatsHandle ns) \<Rightarrow> map_option fst (ns_stores ns) | _ \<Rightarrow> None)"

definition slot_key_of :: "('x, 'h, 'tc) Bootstrap \<Rightarrow> string" where
  "slot_key_of b = nats_broker_slot_counter_key (rc_site (bt_runtime_config b)) (rc_env (bt_runtime_config b))"

definition slot_of :: "('x, 'h, 'tc) Bootstrap \<Rightarrow> nat" where
  "slot_of b = unat (rc_broker_slot (bt_runtime_config b))"

text \<open>Brokers start one after the other, each with its own configuration, on one jobs bucket; in between others
  act, and starts fail.  What a start leaves behind whose slot allocation was answered by an error is not known: it
  is covered as far as it is an action of others.\<close>
inductive deployment ::
  "('x, 'c, 'h, 'v, 's, 'tc, 'tt, 'tv, 'ts) BootEnv \<Rightarrow> ('s \<Rightarrow> 's \<Rightarrow> bool) \<Rightarrow> 'h \<Rightarrow> 's \<Rightarrow> ('x, 'h, 'tc) Bootstrap list \<Rightarrow> 's \<Rightarrow> bool"
  for env others jobs where
  none: "deployment env others jobs s [] s"
| idle: "deployment env others jobs s bs s1 \<Longrightarrow> others s1 s2 \<Longrightarrow> deployment env others jobs s bs s2"
| failed: "deployment env others jobs s bs s1 \<Longrightarrow> parse_bootstrap env config (s1, ts) = Some (Inl e, s2, ts') \<Longrightarrow>
    (\<nexists>err. e = BE_Persistence err) \<Longrightarrow> deployment env others jobs s bs s2"
| start: "deployment env others jobs s bs s1 \<Longrightarrow> parse_bootstrap env config (s1, ts) = Some (Inr b, s2, ts') \<Longrightarrow>
    jobs_of b = Some jobs \<Longrightarrow> deployment env others jobs s (bs @ [b]) s2"

lemma tag_no_dash: "pack_tag tag = Inr v \<Longrightarrow> CHR ''-'' \<notin> set tag"
proof -
  have "tag_char_value CHR ''-'' = Inl (InvalidTagCharacter CHR ''-'')" by code_simp
  then show "pack_tag tag = Inr v \<Longrightarrow> CHR ''-'' \<notin> set tag" by (auto simp: pack_tag_Inr)
qed

lemma split_at_sep:
  "xs @ c # ys = xs' @ c # ys' \<Longrightarrow> c \<notin> set xs \<Longrightarrow> c \<notin> set xs' \<Longrightarrow> xs = xs' \<and> ys = ys'"
proof (induction xs arbitrary: xs')
  case Nil
  then show ?case by (cases xs') auto
next
  case (Cons x xs)
  then show ?case by (cases xs') auto
qed

lemma broker_name_inj:
  assumes "broker_name site tag slot = broker_name site' tag' slot'"
    "pack_tag site = Inr p" "pack_tag tag = Inr q" "pack_tag site' = Inr p'" "pack_tag tag' = Inr q'"
  shows "site = site' \<and> tag = tag' \<and> slot = slot'"
proof -
  note dash = assms(2-5) [THEN tag_no_dash]
  have eq: "site @ CHR ''-'' # tag @ CHR ''-'' # show_uint (uint slot) = site' @ CHR ''-'' # tag' @ CHR ''-'' # show_uint (uint slot')"
    using assms(1) by (simp add: broker_name_def)
  from split_at_sep [OF eq dash(1,3)] have st: "site = site'"
    and rest: "tag @ CHR ''-'' # show_uint (uint slot) = tag' @ CHR ''-'' # show_uint (uint slot')" by blast+
  from split_at_sep [OF rest dash(2,4)] have tg: "tag = tag'" and num: "show_uint (uint slot) = show_uint (uint slot')" by blast+
  have up: "uint (ucast n :: u64) = uint n" for n :: u16
    using uint_lt2p [of n] by (simp add: unsigned_ucast_eq take_bit_int_eq_self)
  have "ucast slot = (ucast slot' :: u64)"
    using parse_u64_show [of "ucast slot"] parse_u64_show [of "ucast slot'"] num by (simp only: up option.inject)
  then have "uint slot = uint slot'" using up by metis
  then have "slot = slot'" by (rule word_uint_eqI)
  with st tg show ?thesis by simp
qed

text \<open>What a start does to the server, unless the allocation is answered by an error.\<close>
definition start_effect ::
  "('s \<Rightarrow> 'h \<Rightarrow> string \<Rightarrow> 'v kv_Entry option) \<Rightarrow> ('s \<Rightarrow> 's \<Rightarrow> bool) \<Rightarrow> ('s \<Rightarrow> bool) \<Rightarrow> 'v store_codec
    \<Rightarrow> 's \<Rightarrow> (string \<times> string \<times> u16 \<times> 'h) option \<Rightarrow> 's \<Rightarrow> bool" where
  "start_effect cur others ok cd s taken s' \<longleftrightarrow>
    (case taken of
       None \<Rightarrow> others s s'
     | Some (site, tag, slot, h) \<Rightarrow> \<exists>t. others s t \<and> slot_instant cur cd h (nats_broker_slot_counter_key site tag) (unat slot) t s' \<and> ok s')"

lemma map_sum_Inr_iff: "map_sum f id x = Inr y \<longleftrightarrow> x = Inr y"
  by (cases x) auto

lemma map_sum_Inl_iff: "map_sum f id x = Inl y \<longleftrightarrow> (\<exists>e. x = Inl e \<and> y = f e)"
  by (cases x) auto

text \<open>Counters that nobody resets.\<close>
definition counters_grow ::
  "('s \<Rightarrow> 'h \<Rightarrow> string \<Rightarrow> 'v kv_Entry option) \<Rightarrow> ('s \<Rightarrow> 's \<Rightarrow> bool) \<Rightarrow> ('s \<Rightarrow> bool) \<Rightarrow> 'v store_codec \<Rightarrow> 'h \<Rightarrow> bool" where
  "counters_grow cur others ok cd jobs \<longleftrightarrow>
    (\<forall>s s' key. ok s \<longrightarrow> others s s' \<longrightarrow> nats_counter cd (cur s jobs key) \<le> nats_counter cd (cur s' jobs key))"

context nats_admin
begin

abbreviation runs_on :: "('x, 'c, 'h, 'v, 's, 'tc, 'tt, 'tv, 'ts) BootEnv \<Rightarrow> bool" where
  "runs_on env \<equiv> bk_nats (be_backends env) = cl \<and> bk_nats_codec (be_backends env) = cd \<and> be_sleep env = sleep"

lemma open_store_others:
  assumes "runs_on env" "ok (fst w)" "open_store env se w = (r, w')"
  shows "others (fst w) (fst w')"
proof -
  have nats: "others s s'" if "ok s" "open_nats env cfg s = (r, s')" for cfg s r s'
    using that assms(1) init_loop_others others_refl
    by (auto simp: open_nats_def split: sum.splits if_splits option.splits prod.splits)
  show ?thesis using assms(2,3) nats others_refl
    by (auto simp: open_store_def split: option.splits PersistenceConfig.splits sum.splits prod.splits)
qed

text \<open>The allocation of a broker whose NATS store is connected takes a slot; without NATS the server stays as it is.\<close>
lemma startup_slot_effect:
  assumes "runs_on env" "ok s" "startup_slot env jstore site tag (s, ts) = Some (Inr slot, jstore', s', ts')"
    "\<forall>ns. jstore = Some (NatsHandle ns) \<longrightarrow> ns_stores ns \<noteq> None"
  shows "start_effect cur others ok cd s
    (case jstore' of Some (NatsHandle ns) \<Rightarrow> map_option (\<lambda>hs. (site, tag, slot, fst hs)) (ns_stores ns) | _ \<Rightarrow> None) s'"
proof (cases "\<exists>ns. jstore = Some (NatsHandle ns)")
  case True
  then obtain ns h l u where ns: "jstore = Some (NatsHandle ns)" "ns_stores ns = Some (h, l, u)" using assms(4) by auto
  then have "retry_loop (nats_slot_attempt cl cd h site tag) s = Some (Inr slot, s') \<and> jstore' = Some (NatsHandle ns)"
    using assms(1,3)
    by (auto simp: startup_slot_def allocate_startup_broker_slot_def allocate_broker_slot_def at_store_def from_store_def
        allocate_run map_sum_Inr_iff split: sum.splits)
  with slot_loop_result [OF _ assms(2)] ns(2) show ?thesis by (auto simp: start_effect_def)
next
  case False
  then have "s' = s \<and> \<not> (\<exists>ns. jstore' = Some (NatsHandle ns))" using assms(3)
    by (auto simp: startup_slot_def allocate_startup_broker_slot_def allocate_broker_slot_def at_store_def from_store_def
        split: sum.splits option.splits store_handle.splits)
  then show ?thesis using others_refl by (auto simp: start_effect_def split: option.splits store_handle.splits)
qed

lemma startup_slot_error:
  "startup_slot env jstore site tag (s, ts) = Some (Inl e, jstore', s', ts') \<Longrightarrow> (\<nexists>err. e = BE_Persistence err) \<Longrightarrow> s' = s"
  by (auto simp: startup_slot_def allocate_startup_broker_slot_def map_sum_Inl_iff split: sum.splits option.splits)

lemma start_effect_trans: "others s s1 \<Longrightarrow> start_effect cur others ok cd s1 x s' \<Longrightarrow> start_effect cur others ok cd s x s'"
  using others_trans by (auto simp: start_effect_def split: option.splits)

lemma boot_effect:
  assumes "runs_on env" "ok s" "boot_raw env raw (s, ts) = Some (r, s', ts')" "\<nexists>err. r = Inl (BE_Persistence err)"
  obtains taken where "start_effect cur others ok cd s taken s'"
    "\<And>b. r = Inr b \<Longrightarrow> taken = map_option (\<lambda>h. (rc_site (bt_runtime_config b), rc_env (bt_runtime_config b),
       rc_broker_slot (bt_runtime_config b), h)) (jobs_of b)"
proof (cases "parse_settings env raw")
  case (Inl e)
  then show thesis using assms(3) that [of None] others_refl by (auto simp: boot_raw_def start_effect_def)
next
  case (Inr se)
  obtain ro w1 where st: "open_store env se (s, ts) = (ro, w1)" by (rule prod.exhaust)
  obtain s1 ts1 where w1: "w1 = (s1, ts1)" by (rule prod.exhaust)
  have s1: "others s s1" "ok s1" using open_store_others [OF assms(1) _ st] assms(2) others_ok w1 by auto
  show thesis
  proof (cases ro)
    case (Inl e)
    then show thesis using assms(3) \<open>parse_settings env raw = Inr se\<close> st w1 that [of None] s1(1) by (auto simp: boot_raw_def start_effect_def)
  next
    case o: (Inr triple)
    obtain jstore ttl pa where t: "triple = (jstore, ttl, pa)" by (metis prod.exhaust)
    note opened = open_store_Inr [OF st [unfolded o t w1]]
    have ns: "\<forall>ns. jstore = Some (NatsHandle ns) \<longrightarrow> ns_stores ns \<noteq> None"
      using opened by (cases "se_persistence se = None") (auto simp: handle_ok_def)
    obtain rs jstore' where sl: "startup_slot env jstore (se_site se) (se_env se) (s1, ts1) = Some (rs, jstore', s', ts')"
      and r: "r = (case rs of Inl e \<Rightarrow> Inl e
        | Inr slot \<Rightarrow> bind_result (parse_router env raw se slot) (\<lambda>routes. Inr (assemble se jstore' ttl pa slot routes)))"
      using assms(3) Inr st o t w1 by (auto simp: boot_raw_def split: option.splits sum.splits)
    show thesis
    proof (cases rs)
      case (Inl e)
      then show thesis using startup_slot_error [OF sl [unfolded Inl]] r assms(4) s1(1) that [of None]
        by (auto simp: start_effect_def)
    next
      case (Inr slot)
      note eff = start_effect_trans [OF s1(1) startup_slot_effect [OF assms(1) s1(2) sl [unfolded Inr] ns]]
      show thesis
      proof (rule that [OF eff])
        fix b assume "r = Inr b"
        then obtain routes where "b = assemble se jstore' ttl pa slot routes" using r Inr by (auto simp: bind_result_eq_Inr)
        then show "(case jstore' of Some (NatsHandle ns) \<Rightarrow> map_option (\<lambda>hs. (se_site se, se_env se, slot, fst hs)) (ns_stores ns) | _ \<Rightarrow> None)
          = map_option (\<lambda>h. (rc_site (bt_runtime_config b), rc_env (bt_runtime_config b), rc_broker_slot (bt_runtime_config b), h)) (jobs_of b)"
          by (auto simp: assemble_def jobs_of_def option.map_comp comp_def split: option.splits store_handle.splits)
      qed
    qed
  qed
qed

lemma start_effect_grows:
  assumes "counters_grow cur others ok cd jobs" "ok s" "start_effect cur others ok cd s taken s'"
  shows "ok s' \<and> nats_counter cd (cur s jobs key) \<le> nats_counter cd (cur s' jobs key)"
proof (cases taken)
  case None
  then show ?thesis using assms others_ok by (auto simp: start_effect_def counters_grow_def)
next
  case (Some x)
  obtain site tag slot h where x: "x = (site, tag, slot, h)" by (metis prod.exhaust)
  then obtain t where t: "others s t" "ok s'" and i: "slot_instant cur cd h (nats_broker_slot_counter_key site tag) (unat slot) t s'"
    using assms(3) Some by (auto simp: start_effect_def)
  have "nats_counter cd (cur s jobs key) \<le> nats_counter cd (cur t jobs key)" using assms(1,2) t(1) by (simp add: counters_grow_def)
  also have "\<dots> \<le> nats_counter cd (cur s' jobs key)"
    using i by (cases "(jobs, key) = (h, nats_broker_slot_counter_key site tag)") (auto simp: slot_instant_def)
  finally show ?thesis using t(2) by simp
qed

text \<open>Every broker that has started lies below its counter, and the identities are distinct.\<close>
definition placed :: "'h \<Rightarrow> 's \<Rightarrow> ('x, 'h, 'tc) Bootstrap \<Rightarrow> bool" where
  "placed jobs s b \<longleftrightarrow> slot_of b < nats_counter cd (cur s jobs (slot_key_of b))"

lemma started_is_placed:
  assumes "counters_grow cur others ok cd jobs" "runs_on env" "ok s" "parse_bootstrap env config (s, ts) = Some (Inr b, s', ts')" "jobs_of b = Some jobs"
  shows "placed jobs s' b \<and> nats_counter cd (cur s jobs (slot_key_of b)) \<le> slot_of b"
proof -
  obtain raw where "boot_raw env raw (s, ts) = Some (Inr b, s', ts')" using parse_bootstrap_raw [OF assms(4)] by blast
  then obtain taken where "start_effect cur others ok cd s taken s'" "taken = map_option (\<lambda>h. (rc_site (bt_runtime_config b),
      rc_env (bt_runtime_config b), rc_broker_slot (bt_runtime_config b), h)) (jobs_of b)"
    by (rule boot_effect [OF assms(2,3)]) auto
  then obtain t where t: "others s t" "slot_instant cur cd jobs (slot_key_of b) (slot_of b) t s'"
    using assms(5) by (auto simp: start_effect_def slot_key_of_def slot_of_def)
  have "nats_counter cd (cur s jobs (slot_key_of b)) \<le> nats_counter cd (cur t jobs (slot_key_of b))"
    using assms(1,3) t(1) by (simp add: counters_grow_def)
  with t(2) show ?thesis by (simp add: slot_instant_def placed_def)
qed

lemma start_grows:
  assumes "counters_grow cur others ok cd jobs" "runs_on env" "ok s" "parse_bootstrap env config (s, ts) = Some (r, s', ts')"
    "\<nexists>err. r = Inl (BE_Persistence err)"
  shows "ok s' \<and> nats_counter cd (cur s jobs key) \<le> nats_counter cd (cur s' jobs key)"
proof (cases "\<exists>raw. boot_raw env raw (s, ts) = Some (r, s', ts')")
  case True
  then obtain raw taken where "start_effect cur others ok cd s taken s'" using boot_effect [OF assms(2,3) _ assms(5)] by metis
  from start_effect_grows [OF assms(1,3) this] show ?thesis .
next
  case False
  then have "s' = s" using assms(4) by (auto simp: parse_bootstrap_def split: sum.splits if_splits)
  then show ?thesis using assms(3) by simp
qed

lemma placed_mono:
  "(\<And>key. nats_counter cd (cur s jobs key) \<le> nats_counter cd (cur s' jobs key)) \<Longrightarrow> placed jobs s b \<Longrightarrow> placed jobs s' b"
  unfolding placed_def by (meson less_le_trans)

end

lemma same_broker_same_slot:
  assumes "runtime_ok dur b" "runtime_ok dur c" "broker_id_of b = broker_id_of c"
  shows "slot_key_of b = slot_key_of c \<and> slot_of b = slot_of c"
proof -
  have "broker_name (rc_site (bt_runtime_config b)) (rc_env (bt_runtime_config b)) (rc_broker_slot (bt_runtime_config b))
      = broker_name (rc_site (bt_runtime_config c)) (rc_env (bt_runtime_config c)) (rc_broker_slot (bt_runtime_config c))"
    using assms by (simp add: broker_id_of_def runtime_ok_def Let_def)
  moreover obtain p q where "pack_tag (rc_site (bt_runtime_config b)) = Inr p" "pack_tag (rc_env (bt_runtime_config b)) = Inr q"
    using assms(1) unfolding runtime_ok_def Let_def by blast
  moreover obtain p' q' where "pack_tag (rc_site (bt_runtime_config c)) = Inr p'" "pack_tag (rc_env (bt_runtime_config c)) = Inr q'"
    using assms(2) unfolding runtime_ok_def Let_def by blast
  ultimately show ?thesis unfolding slot_key_of_def slot_of_def by (metis broker_name_inj)
qed

context nats_admin
begin

lemma deployment_distinct:
  assumes "deployment env others jobs s bs s'" "counters_grow cur others ok cd jobs" "runs_on env" "ok s"
  shows "ok s' \<and> (\<forall>b \<in> set bs. placed jobs s' b \<and> runtime_ok (ce_secs (be_config env)) b) \<and> distinct (map broker_id_of bs)"
  using assms(1,4)
proof (induction rule: deployment.induct)
  case (idle s bs s1 s2)
  then have "\<And>key. nats_counter cd (cur s1 jobs key) \<le> nats_counter cd (cur s2 jobs key)" using assms(2) by (simp add: counters_grow_def)
  from placed_mono [OF this] idle show ?case using others_ok by blast
next
  case (failed s bs s1 config ts e s2 ts')
  then have "ok s1" by blast
  from start_grows [OF assms(2,3) this failed(2)] failed(3)
  have grows: "ok s2" "\<And>key. nats_counter cd (cur s1 jobs key) \<le> nats_counter cd (cur s2 jobs key)" by auto
  from placed_mono [OF grows(2)] grows(1) failed.IH [OF failed.prems] show ?case by blast
next
  case (start s bs s1 config ts b s2 ts')
  note IH = start.IH [OF start.prems]
  then have ok1: "ok s1" by blast
  note b = started_is_placed [OF assms(2,3) ok1 start(2,3)] bootstrap_ok [OF start(2)]
  have grows: "ok s2" "\<And>key. nats_counter cd (cur s1 jobs key) \<le> nats_counter cd (cur s2 jobs key)"
    using start_grows [OF assms(2,3) ok1 start(2)] by auto
  have "broker_id_of c \<noteq> broker_id_of b" if "c \<in> set bs" for c
  proof
    assume "broker_id_of c = broker_id_of b"
    then have "slot_key_of c = slot_key_of b" "slot_of c = slot_of b"
      using same_broker_same_slot [of "ce_secs (be_config env)" c b] IH b(2) that by blast+
    moreover have "placed jobs s1 c" using IH that by blast
    ultimately show False using b(1) by (simp add: placed_def)
  qed
  then have "broker_id_of b \<notin> broker_id_of ` set bs" by (metis imageE)
  then show ?case using IH b grows(1) placed_mono [OF grows(2)] by auto
qed simp

end

section \<open>The laws hold\<close>

lemma sim_connects:
  "nc_connect sim_client url capacity s = (rc, s') \<Longrightarrow> s' = s"
  "nc_create_key_value sim_client js config s = (rh, s') \<Longrightarrow> s' = s"
  "nc_update_key_value sim_client js config s = (rh, s') \<Longrightarrow> s' = s"
  "nc_get_key_value sim_client js bucket s = (rh, s') \<Longrightarrow> s' = s"
  by (simp_all add: sim_client_def)

lemma sim_admin_for: "nats_admin sim_client sim_cur sim_others (sim_ok_for Q) sim_codec (\<lambda>_. sim_tick)"
  using sim_kv_codec_for
  by (rule nats_admin.intro)
    (unfold_locales, auto dest!: sim_connects intro: sim_kv.others_refl sim_others_tick)

interpretation sim_admin: nats_admin sim_client sim_cur sim_others "sim_ok_for Q" sim_codec "\<lambda>_. sim_tick" for Q
  by (rule sim_admin_for)

section \<open>Concrete starts\<close>

definition demo_nats_settings :: NatsSettings where
  "demo_nats_settings = \<lparr> ncf_url = ''nats://nats:4222'', ncf_jobs_bucket = ''bits-jobs'', ncf_leases_bucket = ''bits-leases'',
    ncf_broker_lease_ttl_secs = 30, ncf_num_replicas = 1, ncf_connect_timeout_secs = None, ncf_init_max_attempts = Some 3,
    ncf_jobs_tombstone_ttl_secs = None \<rparr>"

text \<open>The configuration text is the site; every number of seconds reads as thirty.\<close>
definition demo_boot :: "(unit, unit, string, stored, kv_server, unit, sim_txn, stored, cluster) BootEnv" where
  "demo_boot = \<lparr> be_config = demo_cfg\<lparr> ce_secs := (\<lambda>_. Inr (secs 30)) \<rparr>, be_backends = demo_backends,
    be_yaml = (\<lambda>text. Inr (JObject [(''bits'', JString text)])),
    be_bits_config = (\<lambda>v. Inr (bits_config_default\<lparr> bc_site := Some v, bc_env := Some (JString ''dev''),
      bc_persistence := Some (Nats demo_nats_settings) \<rparr>)),
    be_server_config = (\<lambda>_. Inl []), be_metrics_config = (\<lambda>_. Inl []), be_value_map = (\<lambda>_. Inl []), be_f64_of = id,
    be_secs_3 = (\<lambda>_. []), be_build_runtime = Inr (), be_tokio_handle = True, be_sleep = (\<lambda>_. sim_tick),
    be_nats_feature = True, be_tikv_feature = True \<rparr>"

lemma demo_settings:
  assumes "site \<in> {''bol'', ''ber''}"
  shows "\<exists>se. parse_settings demo_boot (JObject [(''bits'', JString site)]) = Inr se \<and> se_site se = site \<and> se_env se = ''dev''
    \<and> se_persistence se = Some (Nats demo_nats_settings)"
proof -
  have tags: "require_site_env_tag ''bits.site'' (Some (JString site)) = Inr site"
    "require_site_env_tag ''bits.env'' (Some (JString ''dev'')) = Inr ''dev''" using assms by (auto; code_simp)+
  have duration: "positive_duration_secs (\<lambda>_. Inr (secs 30)) field n = Inr (secs 30)" for field n
    by (simp add: positive_duration_secs_def duration_secs_def secs_def)
  show ?thesis
    by (simp add: parse_settings_def decode_section_def json_get_def demo_boot_def demo_cfg_def bits_config_default_def tags
        duration map_transpose_def metrics_config_default_def resolve_buckets_def server_config_default_def check_persist_after_def
        DEFAULT_RETRY_AFTER_SECS_def unwrap_or_def bind_result_def)
qed

lemma demo_new_nats:
  "new_nats (\<lambda>_. Inr (secs 30)) True demo_nats_settings
    = Inr (nats_new ''nats://nats:4222'' ''bits-jobs'' ''bits-leases'' (secs 30) 1 (secs 10), secs 30, 3)"
  by (simp add: new_nats_def demo_nats_settings_def Let_def parse_lease_ttl_def duration_secs_def parse_connect_timeout_def
      default_connect_timeout_def secs_def map_transpose_def)

lemma sim_init:
  assumes "ns_stores ns = None"
  shows "nats_init sim_client (ns, s)
    = (Inr (), ns\<lparr> ns_stores := Some (ns_jobs_bucket ns, ns_leases_bucket ns, ns_user_limits_bucket ns) \<rparr>, s)"
  using assms by (simp add: nats_init_def nats_stores_def nats_open_def timed_then_def timed_err_def awaited_def get_or_create_bucket_def
      sim_client_def jobs_config_def leases_config_def user_limits_config_def db_then_def db_return_def)

lemma demo_connects:
  "open_nats demo_boot demo_nats_settings s = (Inr ((nats_new ''nats://nats:4222'' ''bits-jobs'' ''bits-leases'' (secs 30) 1 (secs 10))
    \<lparr> ns_stores := Some (''bits-jobs'', ''bits-leases'', ''bits-leases-userlimits'') \<rparr>, secs 30), s)"
proof -
  have env: "ce_secs (be_config demo_boot) = (\<lambda>_. Inr (secs 30))" "be_nats_feature demo_boot" "be_tokio_handle demo_boot"
      "bk_nats (be_backends demo_boot) = sim_client" by (simp_all add: demo_boot_def demo_backends_def)
  have attempts: "nats_init_loop cl sl 3 d st = (case nats_init cl st of (Inr _, st) \<Rightarrow> (None, st)
      | (Inl e, ns, s) \<Rightarrow> nats_init_loop cl sl 2 (min (2 * d) (secs 10)) (ns, sl d s))"
    for cl :: "('c, 'h, 'v, 's) nats_client" and sl d st by (simp add: numeral_3_eq_3 numeral_2_eq_2 split: prod.split sum.split)
  have fresh: "ns_stores (nats_new url jb lb ttl n ct) = None" for url jb lb ttl n ct by (simp add: nats_new_def)
  show ?thesis by (simp add: open_nats_def env attempts demo_new_nats sim_init fresh) (simp add: nats_new_def)
qed

lemma demo_opens:
  assumes "se_persistence se = Some (Nats demo_nats_settings)"
  shows "\<exists>ns ttl pa. open_store demo_boot se (s, ts) = (Inr (Some (NatsHandle ns), ttl, pa), s, ts)
    \<and> ns_stores ns = Some (''bits-jobs'', ''bits-leases'', ''bits-leases-userlimits'')"
  using assms demo_connects [of s] by (simp add: open_store_def)

lemma demo_start:
  assumes "fst (nats_slot_attempt sim_client sim_codec ''bits-jobs'' ''bol'' ''dev'' s) = Inr (Some slot)"
  shows "\<exists>b. parse_bootstrap demo_boot ''bol'' (s, ts)
      = Some (Inr b, snd (nats_slot_attempt sim_client sim_codec ''bits-jobs'' ''bol'' ''dev'' s), ts) \<and> jobs_of b = Some ''bits-jobs''"
proof -
  define raw where "raw = JObject [(''bits'', JString ''bol'')]"
  obtain se where se: "parse_settings demo_boot raw = Inr se" "se_site se = ''bol''" "se_env se = ''dev''"
      "se_persistence se = Some (Nats demo_nats_settings)"
    using demo_settings [of "''bol''"] raw_def by auto
  obtain ns ttl pa where op: "open_store demo_boot se (s, ts) = (Inr (Some (NatsHandle ns), ttl, pa), s, ts)"
      "ns_stores ns = Some (''bits-jobs'', ''bits-leases'', ''bits-leases-userlimits'')"
    using demo_opens [OF se(4)] by blast
  have slot: "startup_slot demo_boot (Some (NatsHandle ns)) ''bol'' ''dev'' (s, ts) = Some (Inr slot, Some (NatsHandle ns),
      snd (nats_slot_attempt sim_client sim_codec ''bits-jobs'' ''bol'' ''dev'' s), ts)"
    using allocate_first [OF op(2) assms]
    by (auto simp: startup_slot_def allocate_startup_broker_slot_def allocate_broker_slot_def at_store_def from_store_def
        demo_boot_def demo_backends_def)
  have "\<exists>routes. parse_router demo_boot raw se slot = Inr routes"
    by (simp add: parse_router_def decode_section_def raw_def json_get_def)
  then obtain routes where router: "parse_router demo_boot raw se slot = Inr routes" ..
  have "parse_bootstrap demo_boot ''bol'' (s, ts) = boot_raw demo_boot raw (s, ts)"
    by (simp add: parse_bootstrap_def demo_boot_def raw_def as_object_def)
  then show ?thesis unfolding boot_raw_def using se op slot router by (simp add: assemble_def jobs_of_def)
qed

section \<open>Properties\<close>


lemma demo_first: "fst (nats_slot_attempt sim_client sim_codec ''bits-jobs'' ''bol'' ''dev'' (empty_server [])) = Inr (Some 0)"
  by code_simp

lemma demo_second:
  "fst (nats_slot_attempt sim_client sim_codec ''bits-jobs'' ''bol'' ''dev''
    (snd (nats_slot_attempt sim_client sim_codec ''bits-jobs'' ''bol'' ''dev'' (empty_server [])))) = Inr (Some 1)"
  by code_simp


text \<open>Attempt \<open>k\<close> at connecting to NATS, all earlier ones having failed.\<close>
definition init_attempt :: "('x, 'c, 'h, 'v, 's, 'tc, 'tt, 'tv, 'ts) BootEnv \<Rightarrow> 'h NatsStore \<Rightarrow> 's \<Rightarrow> nat \<Rightarrow> unit db \<times> 'h NatsStore \<times> 's" where
  "init_attempt env ns s k = nats_init (bk_nats (be_backends env)) (ns, attempt_at (bk_nats (be_backends env)) (be_sleep env) ns k (secs 1) s)"

text \<open>C18 NATS is given exactly \<open>init_max_attempts\<close> chances at start-up: the store is the one of the first attempt that
  succeeds, no attempt follows it, and only when all have failed is the start refused, with the error of the last.
  Attempt \<open>k + 1\<close> follows attempt \<open>k\<close> after a pause of \<open>2 ^ k\<close> seconds, but at most ten.\<close>
theorem nats_start_retries:
  assumes "new_nats (ce_secs (be_config env)) (be_nats_feature env) cfg = Inr (ns, ttl, n)" "be_tokio_handle env"
  shows "(case open_nats env cfg s of
      (Inr (ns', ttl'), s') \<Rightarrow> ttl' = ttl \<and> (\<exists>k < unat n. (\<forall>i < k. isl (fst (init_attempt env ns s i))) \<and> init_attempt env ns s k = (Inr (), ns', s'))
    | (Inl e, s') \<Rightarrow> (\<forall>i < unat n. isl (fst (init_attempt env ns s i))) \<and> (\<exists>err ns'. init_attempt env ns s (unat n - 1) = (Inl err, ns', s')
        \<and> e = BE_Config (CE_PersistenceInit ''bits.persistence'' ''nats'' (db_error_display err))))
    \<and> attempt_at (bk_nats (be_backends env)) (be_sleep env) ns (Suc k) (secs 1) s
        = be_sleep env (min (2 ^ k * secs 1) (secs 10)) (snd (snd (init_attempt env ns s k)))"
proof
  have "0 < unat n" using new_nats_Inr [OF assms(1)] by (simp add: unat_gt_0)
  note first = nats_init_loop_first [OF this, where cl = "bk_nats (be_backends env)" and sleep = "be_sleep env" and d = "secs 1" and ns = ns and s = s,
      folded init_attempt_def]
  show "case open_nats env cfg s of
      (Inr (ns', ttl'), s') \<Rightarrow> ttl' = ttl \<and> (\<exists>k < unat n. (\<forall>i < k. isl (fst (init_attempt env ns s i))) \<and> init_attempt env ns s k = (Inr (), ns', s'))
    | (Inl e, s') \<Rightarrow> (\<forall>i < unat n. isl (fst (init_attempt env ns s i))) \<and> (\<exists>err ns'. init_attempt env ns s (unat n - 1) = (Inl err, ns', s')
        \<and> e = BE_Config (CE_PersistenceInit ''bits.persistence'' ''nats'' (db_error_display err)))"
  proof (cases "nats_init_loop (bk_nats (be_backends env)) (be_sleep env) (unat n) (secs 1) (ns, s)")
    case (fields r ns' s')
    with first assms(1,2) show ?thesis by (cases r) (auto simp: open_nats_def)
  qed
  have "secs 1 \<le> secs 10" by (simp add: secs_def)
  from attempt_at_Suc [of "bk_nats (be_backends env)" "be_sleep env" ns k "secs 1" s, folded init_attempt_def, unfolded pause_bound [OF this]]
  show "attempt_at (bk_nats (be_backends env)) (be_sleep env) ns (Suc k) (secs 1) s
        = be_sleep env (min (2 ^ k * secs 1) (secs 10)) (snd (snd (init_attempt env ns s k)))" .
qed

theorem nats_start_retries_witness:
  "\<exists>ns' s'. open_nats demo_boot demo_nats_settings (empty_server []) = (Inr (ns', secs 30), s')
    \<and> (\<exists>k < 3. init_attempt demo_boot (nats_new ''nats://nats:4222'' ''bits-jobs'' ''bits-leases'' (secs 30) 1 (secs 10)) (empty_server []) k
         = (Inr (), ns', s'))"
proof -
  have env: "new_nats (ce_secs (be_config demo_boot)) (be_nats_feature demo_boot) demo_nats_settings
      = Inr (nats_new ''nats://nats:4222'' ''bits-jobs'' ''bits-leases'' (secs 30) 1 (secs 10), secs 30, 3)" "be_tokio_handle demo_boot"
    using demo_new_nats by (simp_all add: demo_boot_def)
  obtain ns' s' where "open_nats demo_boot demo_nats_settings (empty_server []) = (Inr (ns', secs 30), s')" using demo_connects by blast
  with nats_start_retries [OF env, of "empty_server []" 0] show ?thesis by auto
qed

text \<open>C25 No two brokers of a deployment have the same identity: the ids of all brokers that ever start on one jobs bucket,
  for whatever sites and environments, with failed starts and the work of others in between, are distinct, as long
  as nobody resets a slot counter.\<close>
theorem deployment_ids_distinct:
  assumes "nats_admin (bk_nats (be_backends env)) cur others ok (bk_nats_codec (be_backends env)) (be_sleep env)"
    "counters_grow cur others ok (bk_nats_codec (be_backends env)) jobs" "ok s" "deployment env others jobs s bs s'"
  shows "distinct (map broker_id_of bs)"
  using nats_admin.deployment_distinct [OF assms(1,4,2) _ assms(3)] by blast

theorem deployment_ids_distinct_witness:
  "\<exists>b c s'. deployment demo_boot sim_others ''bits-jobs'' (empty_server []) [b, c] s' \<and> broker_id_of b \<noteq> broker_id_of c"
proof -
  define Q where "Q = (\<lambda>_ :: kv_action. False)"
  have ok: "sim_ok_for Q (empty_server [])" by (simp add: sim_ok_for_def sim_ok_def empty_server_def)
  have idle: "s' = s" if "sim_ok_for Q s" "sim_others s s'" for s s'
    using that sim_tick_done [of s] by (cases "sv_script s") (auto simp: sim_ok_for_def sim_others_def Q_def)
  then have grow: "counters_grow sim_cur sim_others (sim_ok_for Q) sim_codec ''bits-jobs''" by (auto simp: counters_grow_def)
  obtain b where b: "parse_bootstrap demo_boot ''bol'' (empty_server [], job_cluster 0) = Some (Inr b, snd (nats_slot_attempt sim_client
      sim_codec ''bits-jobs'' ''bol'' ''dev'' (empty_server [])), job_cluster 0)" "jobs_of b = Some ''bits-jobs''"
    using demo_start [OF demo_first] by blast
  obtain c s' where c: "parse_bootstrap demo_boot ''bol'' (snd (nats_slot_attempt sim_client
      sim_codec ''bits-jobs'' ''bol'' ''dev'' (empty_server [])), job_cluster 0) = Some (Inr c, s', job_cluster 0)" "jobs_of c = Some ''bits-jobs''"
    using demo_start [OF demo_second] by blast
  have run: "deployment demo_boot sim_others ''bits-jobs'' (empty_server []) (([] @ [b]) @ [c]) s'"
    by (rule deployment.start [OF deployment.start [OF deployment.none b] c])
  have env: "bk_nats (be_backends demo_boot) = sim_client" "bk_nats_codec (be_backends demo_boot) = sim_codec" "be_sleep demo_boot = (\<lambda>_. sim_tick)"
    by (simp_all add: demo_boot_def demo_backends_def)
  have "distinct (map broker_id_of (([] @ [b]) @ [c]))"
    using deployment_ids_distinct [of demo_boot sim_cur sim_others "sim_ok_for Q", unfolded env, OF sim_admin_for grow ok run] .
  with run show ?thesis by auto
qed

end
