(* ===== verification/Bits_Facade.thy ===== *)
theory Bits_Facade
  imports Deployment
begin

text \<open>
  The broker as its users see it (\<open>Bits\<close> and \<open>RouteHandle\<close> in \<open>bits/src/bits.rs\<close> and \<open>bits/src/route_handle.rs\<close>): how it is
  built from a configuration, the routes that are added later, and how it is dropped.

  The jobs of the broker are the record \<open>Broker\<close> of \<open>Broker_Runtime\<close>.  A thread is what it was started with; the inner
  option is \<open>None\<close> for one that has ended because it could not build its runtime.
\<close>

section \<open>The store behind the handle\<close>

text \<open>A call through \<open>dyn PersistenceStore\<close>.\<close>
definition dyn_call :: "(MemoryStore \<Rightarrow> 'a \<times> MemoryStore) \<Rightarrow> ('h NatsStore \<times> 's \<Rightarrow> 'a \<times> 'h NatsStore \<times> 's)
    \<Rightarrow> ('tc TiKvStore \<times> 'ts \<Rightarrow> 'a \<times> 'tc TiKvStore \<times> 'ts) \<Rightarrow> ('o \<Rightarrow> 'a \<times> 'o)
    \<Rightarrow> ('h, 's, 'tc, 'ts, 'o) PersistenceStore \<Rightarrow> 'a \<times> ('h, 's, 'tc, 'ts, 'o) PersistenceStore" where
  "dyn_call memory nats tikv other store =
    (case store of
       IsMemory m \<Rightarrow> apsnd IsMemory (memory m)
     | IsNats n s \<Rightarrow> apsnd (\<lambda>(n, s). IsNats n s) (nats (n, s))
     | IsTiKv t s \<Rightarrow> apsnd (\<lambda>(t, s). IsTiKv t s) (tikv (t, s))
     | IsOther x \<Rightarrow> apsnd IsOther (other x))"

text \<open>Reading a lease writes nothing, so its state is not handed on.  A reclaim that does not return meets the sweeper's timeout.\<close>
definition persistence_ops :: "('c, 'h, 'v, 's, 'tc, 'tt, 'tv, 'ts) backends \<Rightarrow> 'o store_ops
    \<Rightarrow> ('h, 's, 'tc, 'ts, 'o) PersistenceStore store_ops" where
  "persistence_ops bk other =
    (let nc = bk_nats bk; nd = bk_nats_codec bk; tc = bk_tikv bk; td = bk_tikv_codec bk in
     \<lparr> so_upsert_job = (\<lambda>r. dyn_call (ms_upsert_job r) (nats_upsert_job nc nd r) (tikv_upsert_job tc td r) (so_upsert_job other r)),
       so_delete_job = (\<lambda>jid. dyn_call (ms_delete_job jid) (nats_delete_job nc jid) (tikv_delete_job tc jid) (so_delete_job other jid)),
       so_claim_if_owner = (\<lambda>jid exp cl. dyn_call (ms_claim_if_owner jid exp cl) (nats_claim_if_owner nc nd jid exp cl)
         (tikv_claim_if_owner tc td jid exp cl) (so_claim_if_owner other jid exp cl)),
       so_upsert_broker_lease = (\<lambda>now bid url ttl. dyn_call (ms_upsert_broker_lease now bid url ttl)
         (nats_upsert_broker_lease nc nd now bid url ttl) (tikv_upsert_broker_lease tc td now bid url ttl)
         (so_upsert_broker_lease other now bid url ttl)),
       so_get_broker_lease = (\<lambda>bid store. fst (dyn_call (\<lambda>m. (ms_get_broker_lease bid m, m)) (nats_get_broker_lease nc nd bid)
         (tikv_get_broker_lease tc td bid) (\<lambda>x. (so_get_broker_lease other bid x, x)) store)),
       so_delete_broker_lease = (\<lambda>bid. dyn_call (ms_delete_broker_lease bid) (nats_delete_broker_lease nc bid)
         (tikv_delete_broker_lease tc bid) (so_delete_broker_lease other bid)),
       so_reclaim_user_slots = (\<lambda>now store. case reclaim_user_slots bk now store of
         None \<Rightarrow> (None, store) | Some (r, store) \<Rightarrow> (Some r, store)) \<rparr>)"

section \<open>State\<close>

record ('x, 's) RouteHandle =
  rh_name :: string
  rh_router :: "'x Route list"
  rh_submit_context :: "'s SubmitContext"

record ('x, 's) Bits =
  bi_router :: "'x Route list"
  bi_route_factory :: "'x RouteFactory"
  bi_submit_context :: "'s SubmitContext"
  bi_internal_poll_base_url :: string
  bi_internal_poll_timeout :: duration
  bi_stopped :: bool
  bi_added_routes :: "('x, 's) RouteHandle list"
  bi_sweeper_handle :: "(duration \<times> bool) option"
  bi_heartbeat_handle :: "duration option option"
  bi_cleanup_tx :: bool
  bi_cleanup_handle :: "unit option option"

definition DEFAULT_SWEEP_INTERVAL :: duration where "DEFAULT_SWEEP_INTERVAL = secs 180"
definition DEFAULT_RECONNECT_BUFFER :: duration where "DEFAULT_RECONNECT_BUFFER = secs 5"

definition route_factory_default :: "'x RouteFactory" where
  "route_factory_default = from_parts \<lparr> rg_checks = [], rg_transforms = [], rg_targets = [] \<rparr> [] None ''''"

section \<open>Threads\<close>

definition build_thread :: "string + unit \<Rightarrow> 'a \<Rightarrow> 'a option" where
  "build_thread runtime x = (case runtime of Inl _ \<Rightarrow> None | Inr _ \<Rightarrow> Some x)"

text \<open>The sweeper also runs without a runtime, but then leaves the store alone.\<close>
definition start_sweeper :: "string + unit \<Rightarrow> duration \<Rightarrow> 's store_ops option \<Rightarrow> duration \<times> bool" where
  "start_sweeper runtime sweep_interval store = (sweep_interval, store \<noteq> None \<and> build_thread runtime () \<noteq> None)"

definition start_cleanup_worker :: "string + unit \<Rightarrow> bool \<times> unit option" where
  "start_cleanup_worker runtime = (True, build_thread runtime ())"

definition start_broker_lease_heartbeat :: "string + unit \<Rightarrow> duration \<Rightarrow> ('x, 's) Bits \<Rightarrow> duration option option" where
  "start_broker_lease_heartbeat runtime broker_lease_ttl bits =
    map_option (\<lambda>_. build_thread runtime broker_lease_ttl) (sc_job_store (bi_submit_context bits))"

definition start_threads :: "string + unit \<Rightarrow> duration \<Rightarrow> duration \<Rightarrow> ('x, 's) Bits \<Rightarrow> ('x, 's) Bits" where
  "start_threads runtime sweep_interval broker_lease_ttl bits =
    (let store = sc_job_store (bi_submit_context bits);
         bits = (case store of
             Some _ \<Rightarrow> (case start_cleanup_worker runtime of (tx, handle) \<Rightarrow> bits\<lparr> bi_cleanup_tx := tx, bi_cleanup_handle := Some handle \<rparr>)
           | None \<Rightarrow> bits);
         bits = bits\<lparr> bi_sweeper_handle := Some (start_sweeper runtime sweep_interval store) \<rparr>
     in bits\<lparr> bi_heartbeat_handle := start_broker_lease_heartbeat runtime broker_lease_ttl bits \<rparr>)"

section \<open>Construction\<close>

definition bits_idle :: "'x Route list \<Rightarrow> 'x RouteFactory \<Rightarrow> 's SubmitContext \<Rightarrow> string \<Rightarrow> duration \<Rightarrow> ('x, 's) Bits" where
  "bits_idle routes factory ctx url client_timeout = \<lparr> bi_router = routes, bi_route_factory = factory, bi_submit_context = ctx,
    bi_internal_poll_base_url = url, bi_internal_poll_timeout = client_timeout, bi_stopped = False, bi_added_routes = [],
    bi_sweeper_handle = None, bi_heartbeat_handle = None, bi_cleanup_tx = False, bi_cleanup_handle = None \<rparr>"

text \<open>\<open>client\<close> is the attempt to build the HTTP client.\<close>
definition from_runtime_config :: "string + unit \<Rightarrow> string + unit \<Rightarrow> 's store_ops \<Rightarrow> ('x, 'h, 'tc) RuntimeConfig \<Rightarrow> BitsError + ('x, 's) Bits" where
  "from_runtime_config runtime client ops parsed =
    (let sweep_interval = unwrap_or (rc_sweep_interval parsed) DEFAULT_SWEEP_INTERVAL;
         ctx = \<lparr> sc_max_jobs = rc_max_jobs parsed, sc_broker_id = broker_name (rc_site parsed) (rc_env parsed) (rc_broker_slot parsed),
           sc_site = rc_site parsed, sc_env = rc_env parsed, sc_broker_slot = rc_broker_slot parsed,
           sc_job_store = map_option (\<lambda>_. ops) (rc_job_store parsed), sc_persist_after = rc_persist_after parsed,
           sc_reconnect_buffer = rc_reconnect_buffer parsed \<rparr>
     in case client of
          Inl e \<Rightarrow> Inl (validation ''internal_client'' e)
        | Inr _ \<Rightarrow> Inr (start_threads runtime sweep_interval (rc_broker_lease_ttl parsed)
            (bits_idle (rc_router parsed) (rc_route_factory parsed) ctx (rc_internal_poll_endpoint parsed) (rc_internal_poll_timeout parsed))))"

definition into_bits :: "string + unit \<Rightarrow> string + unit \<Rightarrow> 's store_ops \<Rightarrow> ('x, 'h, 'tc) Bootstrap \<Rightarrow> BitsError + ('x, 's) Bits" where
  "into_bits runtime client ops bt = from_runtime_config runtime client ops (bt_runtime_config bt)"

definition into_parts :: "string + unit \<Rightarrow> string + unit \<Rightarrow> 's store_ops \<Rightarrow> ('x, 'h, 'tc) Bootstrap
    \<Rightarrow> BitsError + ('x, 's) Bits \<times> u64 ServerConfig" where
  "into_parts runtime client ops bt =
    bind_result (from_runtime_config runtime client ops (bt_runtime_config bt)) (\<lambda>bits. Inr (bits, bt_server_config bt))"

text \<open>\<open>Bits::from_config\<close>; \<open>None\<close> is a slot allocation that does not return.\<close>
definition bits_from_config :: "('x, 'c, 'h, 'v, 's, 'tc, 'tt, 'tv, 'ts) BootEnv \<Rightarrow> string + unit \<Rightarrow> 'd store_ops \<Rightarrow> string \<Rightarrow> 's \<times> 'ts
    \<Rightarrow> ((BitsError + ('x, 'd) Bits) \<times> 's \<times> 'ts) option" where
  "bits_from_config env client ops config w =
    map_option (\<lambda>(r, w). (bind_result r (into_bits (be_build_runtime env) client ops), w)) (parse_bootstrap env config w)"

definition split_once :: "char \<Rightarrow> string \<Rightarrow> (string \<times> string) option" where
  "split_once c s = (if c \<in> set s then Some (takeWhile (\<lambda>x. x \<noteq> c) s, tl (dropWhile (\<lambda>x. x \<noteq> c) s)) else None)"

definition rsplit_once :: "char \<Rightarrow> string \<Rightarrow> (string \<times> string) option" where
  "rsplit_once c s = map_option (\<lambda>(a, b). (List.rev b, List.rev a)) (split_once c (List.rev s))"

definition parse_u16 :: "string \<Rightarrow> u16 option" where
  "parse_u16 s = Option.bind (parse_u64 s) (\<lambda>n. if unat n < 65536 then Some (ucast n) else None)"

definition split_broker_id :: "string \<Rightarrow> string \<times> string \<times> u16" where
  "split_broker_id broker_id =
    unwrap_or
      (Option.bind (rsplit_once CHR ''-'' broker_id) (\<lambda>(prefix, slot).
       Option.bind (split_once CHR ''-'' prefix) (\<lambda>(site, env).
       map_option (\<lambda>n. (site, env, n)) (parse_u16 slot))))
      (''tst'', ''tst'', 0)"

definition from_router_for_tests :: "string + unit \<Rightarrow> 'x Route list \<Rightarrow> string \<Rightarrow> string \<Rightarrow> duration \<Rightarrow> duration option \<Rightarrow> 's store_ops option
    \<Rightarrow> duration \<Rightarrow> ('x, 's) Bits" where
  "from_router_for_tests runtime routes broker_id url client_timeout persist_after store broker_lease_ttl =
    (case split_broker_id broker_id of (site, env, broker_slot) \<Rightarrow>
     start_threads runtime DEFAULT_SWEEP_INTERVAL broker_lease_ttl
      (bits_idle routes route_factory_default \<lparr> sc_max_jobs = DEFAULT_MAX_JOBS, sc_broker_id = broker_id, sc_site = site, sc_env = env,
         sc_broker_slot = broker_slot, sc_job_store = store, sc_persist_after = persist_after,
         sc_reconnect_buffer = DEFAULT_RECONNECT_BUFFER \<rparr> url client_timeout))"

section \<open>Accessors and added routes\<close>

definition bits_broker_id :: "('x, 's) Bits \<Rightarrow> string" where "bits_broker_id bits = sc_broker_id (bi_submit_context bits)"
definition bits_site :: "('x, 's) Bits \<Rightarrow> string" where "bits_site bits = sc_site (bi_submit_context bits)"
definition bits_env :: "('x, 's) Bits \<Rightarrow> string" where "bits_env bits = sc_env (bi_submit_context bits)"
definition bits_broker_slot :: "('x, 's) Bits \<Rightarrow> u16" where "bits_broker_slot bits = sc_broker_slot (bi_submit_context bits)"

definition bits_route_names :: "('x, 's) Bits \<Rightarrow> string list" where
  "bits_route_names bits = route_names (bi_router bits) @ concat (map (\<lambda>h. route_names (rh_router h)) (bi_added_routes bits))"

definition bits_describe_actions :: "('x, 's) Bits \<Rightarrow> json list" where
  "bits_describe_actions bits = describe_actions (bi_router bits) @ concat (map (\<lambda>h. describe_actions (rh_router h)) (bi_added_routes bits))"

definition added_route_names :: "('x, 's) Bits \<Rightarrow> string list" where
  "added_route_names bits = map rh_name (bi_added_routes bits)"

definition bits_start_worker_server :: "'x ConfigEnv \<Rightarrow> ('x, 's) Bits \<Rightarrow> (BitsError + unit) \<times> ('x, 's) Bits" where
  "bits_start_worker_server env bits =
    (case start_worker_server env (bi_route_factory bits) of (r, rf) \<Rightarrow> (r, bits\<lparr> bi_route_factory := rf \<rparr>))"

text \<open>\<open>meanwhile\<close> are the targets that other calls resolve at the same time.\<close>
definition add_route :: "'x ConfigEnv \<Rightarrow> (string \<times> 'x ResolvedTarget) list \<Rightarrow> string \<Rightarrow> json \<Rightarrow> ('x, 's) Bits
    \<Rightarrow> (BitsError + ('x, 's) RouteHandle) \<times> ('x, 's) Bits" where
  "add_route env meanwhile name route_value bits =
    (case parse_route env meanwhile name route_value (bi_route_factory bits) of
       (Inl e, rf) \<Rightarrow> (Inl e, bits\<lparr> bi_route_factory := rf \<rparr>)
     | (Inr routes, rf) \<Rightarrow>
         let bits = bits\<lparr> bi_route_factory := rf \<rparr> in
         case validate routes of
           Inl e \<Rightarrow> (Inl (BE_Routing e), bits)
         | Inr _ \<Rightarrow>
             let handle = \<lparr> rh_name = name, rh_router = routes, rh_submit_context = bi_submit_context bits \<rparr>;
                 bits = bits\<lparr> bi_added_routes := bi_added_routes bits @ [handle] \<rparr>
             in case bits_start_worker_server env bits of (r, bits) \<Rightarrow> (bind_result r (\<lambda>_. Inr handle), bits))"

definition handle_submit :: "(nat \<Rightarrow> u8 list) \<Rightarrow> instant \<Rightarrow> datetime \<Rightarrow> ('x, 's) RouteHandle \<Rightarrow> Job \<Rightarrow> 's Broker
    \<Rightarrow> (SubmitOutcome \<times> 's Broker) option" where
  "handle_submit fill_bytes now utc_now handle job = submit fill_bytes now utc_now (rh_submit_context handle) job EnforceLimit"

definition handle_site :: "('x, 's) RouteHandle \<Rightarrow> string" where "handle_site handle = sc_site (rh_submit_context handle)"
definition handle_env :: "('x, 's) RouteHandle \<Rightarrow> string" where "handle_env handle = sc_env (rh_submit_context handle)"
definition handle_broker_slot :: "('x, 's) RouteHandle \<Rightarrow> u16" where "handle_broker_slot handle = sc_broker_slot (rh_submit_context handle)"

section \<open>Dropping the broker\<close>

text \<open>The heartbeat thread until it ends, once the shutdown is signalled: \<open>late\<close> says that it was past its check when the
  signal came, so that it still renews the lease once.\<close>
definition heartbeat_end :: "'s store_ops \<Rightarrow> string \<Rightarrow> string \<Rightarrow> duration \<Rightarrow> (instant \<Rightarrow> nat) \<Rightarrow> instant \<Rightarrow> datetime \<Rightarrow> bool \<Rightarrow> 's \<Rightarrow> 's" where
  "heartbeat_end store broker_id base_url ttl in_flight now utc_now late s =
    (case heartbeat_round store broker_id base_url ttl in_flight now utc_now (\<not> late) True s of
       (False, s) \<Rightarrow> s
     | (True, s) \<Rightarrow> snd (heartbeat_round store broker_id base_url ttl in_flight now utc_now True True s))"

definition close_routers :: "('x, 's) Bits \<Rightarrow> 'x World_scheme \<Rightarrow> 'x World_scheme" where
  "close_routers bits w = fold (\<lambda>h. close_all (rh_router h)) (bi_added_routes bits) (close_all (bi_router bits) w)"

text \<open>The cleanup worker gets every message that was sent before the channel is closed.\<close>
definition drop_bits :: "(instant \<Rightarrow> nat) \<Rightarrow> instant \<Rightarrow> datetime \<Rightarrow> bool \<Rightarrow> ('x, 's) Bits \<times> 'x World_scheme \<times> 's Broker
    \<Rightarrow> ('x, 's) Bits \<times> 'x World_scheme \<times> 's Broker" where
  "drop_bits in_flight now utc_now late st =
    (case st of (bits, w, b) \<Rightarrow>
     let w = close_routers bits w;
         rf = shutdown_worker_server (bi_route_factory bits);
         ctx = bi_submit_context bits;
         b = (case bi_cleanup_handle bits of Some (Some _) \<Rightarrow> cleanup_worker ctx b | _ \<Rightarrow> b);
         b = (case (bi_heartbeat_handle bits, sc_job_store ctx) of
                (Some (Some ttl), Some store) \<Rightarrow>
                  b\<lparr> b_store := heartbeat_end store (sc_broker_id ctx) (bi_internal_poll_base_url bits) ttl in_flight now utc_now late (b_store b) \<rparr>
              | _ \<Rightarrow> b)
     in (bits\<lparr> bi_route_factory := rf, bi_stopped := True, bi_cleanup_tx := False, bi_cleanup_handle := None,
           bi_sweeper_handle := None, bi_heartbeat_handle := None \<rparr>, w, b))"

section \<open>Identity\<close>

lemma split_once_append: "c \<notin> set a \<Longrightarrow> split_once c (a @ c # b) = Some (a, b)"
  by (induction a) (auto simp: split_once_def)

lemma rsplit_once_append: "c \<notin> set b \<Longrightarrow> rsplit_once c (a @ c # b) = Some (a, b)"
  using split_once_append [of c "List.rev b" "List.rev a"] by (simp add: rsplit_once_def)

lemma parse_u16_show: "parse_u16 (show_uint (uint n)) = Some n" for n :: u16
proof -
  have up: "uint (ucast n :: u64) = uint n"
    using uint_lt2p [of n] by (simp add: unsigned_ucast_eq take_bit_int_eq_self)
  have "parse_u64 (show_uint (uint n)) = Some (ucast n)" using parse_u64_show [of "ucast n"] by (simp only: up)
  moreover have "unat (ucast n :: u64) = unat n" using up by (simp only: nat_uint_eq [symmetric])
  moreover have "unat n < 65536" using unsigned_less [of n, where ?'a = nat] by simp
  moreover have "ucast (ucast n :: u64) = n" by transfer simp
  ultimately show ?thesis by (simp add: parse_u16_def)
qed

lemma digits_no_dash: "CHR ''-'' \<notin> set (show_uint (uint n))" for n :: u16
  using show_uint_digits [OF uint_ge_0 [of n]] by (auto simp: is_digit_def list_all_iff)

text \<open>A broker id given to a test broker is taken apart the way it was put together.\<close>
lemma split_broker_name:
  assumes "CHR ''-'' \<notin> set site"
  shows "split_broker_id (broker_name site env slot) = (site, env, slot)"
proof -
  have "broker_name site env slot = (site @ CHR ''-'' # env) @ CHR ''-'' # show_uint (uint slot)" by (simp add: broker_name_def)
  then show ?thesis using rsplit_once_append [OF digits_no_dash [of slot], of "site @ CHR ''-'' # env"] split_once_append [OF assms, of env]
    by (simp add: split_broker_id_def parse_u16_show)
qed

lemma encode_names_owner:
  assumes "pack_tag site = Inr x" "pack_tag env = Inr y"
    and "custom_epoch \<le> utc_now" "utc_now < custom_epoch + 2 ^ 32 * nanos_per_sec" "length (fill_bytes 5) = 5"
  shows "\<exists>rid. encode fill_bytes site env slot utc_now = Inr rid \<and> slot_from_job_id rid = Inr (broker_name site env slot)"
proof -
  have "(utc_now - custom_epoch) div nanos_per_sec < 2 ^ 32"
    using assms(4) by (simp add: div_less_iff_less_mult)
  then have "\<exists>z. timestamp_seconds utc_now = Inr z"
    using assms(3) by (simp add: timestamp_seconds_def Let_def pos_imp_zdiv_nonneg_iff)
  then obtain rid where rid: "encode_with_fixed_random site env slot utc_now (fill_bytes 5) = Inr rid"
    using assms(1,2) by (auto simp: encode_with_fixed_random_def)
  from decode_of_encode [OF this assms(5)] rid show ?thesis
    by (simp add: encode_def slot_from_job_id_def decode_result_def broker_name_def)
qed

lemma start_threads_frame [simp]:
  "bi_submit_context (start_threads runtime interval ttl bits) = bi_submit_context bits"
  "bi_route_factory (start_threads runtime interval ttl bits) = bi_route_factory bits"
  "bi_router (start_threads runtime interval ttl bits) = bi_router bits"
  "bi_added_routes (start_threads runtime interval ttl bits) = bi_added_routes bits"
  by (auto simp: start_threads_def Let_def split: option.splits prod.splits)

lemma from_runtime_config_Inr:
  assumes "from_runtime_config runtime client ops parsed = Inr bits"
  shows "sc_site (bi_submit_context bits) = rc_site parsed" "sc_env (bi_submit_context bits) = rc_env parsed"
    "sc_broker_slot (bi_submit_context bits) = rc_broker_slot parsed"
    "sc_broker_id (bi_submit_context bits) = broker_name (rc_site parsed) (rc_env parsed) (rc_broker_slot parsed)"
    "bi_route_factory bits = rc_route_factory parsed" "bi_router bits = rc_router parsed" "bi_added_routes bits = []"
  using assms by (auto simp: from_runtime_config_def Let_def bits_idle_def split: sum.splits)

lemma bits_from_config_Inr:
  assumes "bits_from_config env client ops config w = Some (Inr bits, w')"
  obtains bt where "parse_bootstrap env config w = Some (Inr bt, w')" "into_bits (be_build_runtime env) client ops bt = Inr bits"
  using assms by (auto simp: bits_from_config_def bind_result_eq_Inr)

lemma insert_accepts: "insert_job ctx now persisted job b = (Accepted rid, b') \<Longrightarrow> rid = job_id job"
  by (auto simp: insert_job_def Let_def split: option.splits)

section \<open>The worker server is started with its first pool\<close>

definition started_with_pools :: "'r WorkerServer option \<Rightarrow> bool" where
  "started_with_pools ws \<longleftrightarrow> (\<forall>s \<in> set_option ws. ws_pools s \<noteq> [] \<longrightarrow> ws_started s)"

lemma ensure_started_started: "ws_started (snd (ensure_started listen ws))"
  by (auto simp: ensure_started_def Let_def split: sum.splits listen_error.splits)

lemma register_started: "started_with_pools (Some ws) \<Longrightarrow> started_with_pools (Some (snd (register_pool listen n r ws)))"
  by (auto simp: started_with_pools_def register_pool_def ensure_started_started split: sum.splits)

definition ws_ok :: "'x ParseState \<Rightarrow> bool" where
  "ws_ok st \<longleftrightarrow> started_with_pools (ps_worker_server st)"

lemma scheduler_started:
  assumes "started_with_pools ws" "start_scheduler listen exec ws = (r, ws')"
  shows "started_with_pools ws'"
proof (cases "\<exists>p s. exec = RemoteExecutor p \<and> ws = Some s")
  case True
  then obtain p s where "exec = RemoteExecutor p" "ws = Some s" by blast
  with assms register_started [of s listen "rpe_pool_name p" p] show ?thesis
    by (cases "register_pool listen (rpe_pool_name p) p s") (auto simp: start_scheduler_def started_with_pools_def split: sum.splits)
next
  case False
  then have "ws' = ws" using assms(2) by (auto simp: start_scheduler_def split: ExecutorSpec.splits option.splits)
  with assms(1) show ?thesis by simp
qed

lemma from_config_started:
  assumes "started_with_pools ws" "from_config env t queue exec pool cap ws = (r, ws')"
  shows "started_with_pools ws'"
proof -
  have "ws' = ws \<or> (\<exists>e r. start_scheduler (ce_listen env) e ws = (r, ws'))"
    using assms(2) by (auto simp: from_config_def split: option.splits sum.splits prod.splits if_splits)
  then show ?thesis using assms(1) scheduler_started by blast
qed

lemma make_dispatcher_ws: "make_dispatcher env ctx t p n settings st = (r, st') \<Longrightarrow> ws_ok st \<Longrightarrow> ws_ok st'"
  by (cases t) (auto simp: make_dispatcher_def ws_ok_def split: prod.splits sum.splits dest: from_config_started)

lemma attach_ws: "ws_ok st \<Longrightarrow> ws_ok (snd (attach_dispatcher env ctx e a action settings silent st))"
  by (auto simp: attach_dispatcher_def Let_def dest: make_dispatcher_ws split: sum.splits Action.splits prod.splits)

lemma entry_ws: "ws_ok st \<Longrightarrow> ws_ok (snd (action_from_entry env ctx ns n entry st))"
  by (auto simp: action_from_entry_def Let_def attach_ws split: sum.splits)

lemma entry_wsD: "action_from_entry env ctx ns n entry st = (r, st') \<Longrightarrow> ws_ok st \<Longrightarrow> ws_ok st'"
  using entry_ws [of st env ctx ns n entry] by simp

lemma resolve_named_ws: "ws_ok st \<Longrightarrow> ws_ok (snd (resolve_named env ctx ns n rname st))"
proof -
  have upd: "ws_ok (st\<lparr> ps_resolved := x \<rparr>) = ws_ok st" for st x by (simp add: ws_ok_def)
  show "ws_ok st \<Longrightarrow> ws_ok (snd (resolve_named env ctx ns n rname st))"
    by (auto simp: resolve_named_def upd entry_ws dest!: entry_wsD split: sum.splits prod.splits option.splits Action.splits)
qed

lemma reference_ws: "ws_ok st \<Longrightarrow> ws_ok (snd (parse_reference env ctx rname n st))"
  by (auto simp: parse_reference_def resolve_named_ws split: sum.splits)

lemma inline_ws: "ws_ok st \<Longrightarrow> ws_ok (snd (parse_inline env ctx rname m st))"
  by (auto simp: parse_inline_def attach_ws split: option.splits sum.splits)

lemma and_then_ws:
  assumes "ws_ok (snd r)" "\<And>x st'. r = (Inr x, st') \<Longrightarrow> ws_ok st' \<Longrightarrow> ws_ok (snd (k x st'))"
  shows "ws_ok (snd (and_then r k))"
  using assms by (auto simp: and_then_def split: prod.splits sum.splits)

lemma parse_ws:
  "ws_ok st \<Longrightarrow> ws_ok (snd (parse_routes env ctx sec v st))"
  "ws_ok st \<Longrightarrow> ws_ok (snd (parse_entries env ctx sec index entries st))"
  "ws_ok st \<Longrightarrow> ws_ok (snd (parse_actions env ctx rname vs st))"
  "ws_ok st \<Longrightarrow> ws_ok (snd (parse_action env ctx rname v st))"
proof (induction env ctx sec v st and env ctx sec index entries st and env ctx rname vs st and env ctx rname v st
    rule: parse_routes_parse_entries_parse_actions_parse_action.induct)
  case (1 env ctx sec v st)
  then show ?case by (auto simp: parse_routes.simps split: option.splits)
next
  case (3 env ctx sec index entry entries st)
  then show ?case by (auto split: sum.splits intro!: and_then_ws)
next
  case (5 env ctx rname v vs st)
  then show ?case by (auto intro!: and_then_ws)
next
  case (6 env ctx rname v st)
  then show ?case
    by (cases v) (auto simp: parse_action.simps reference_ws inline_ws split: option.splits sum.splits intro!: and_then_ws)
qed simp_all

text \<open>Whatever a configuration or an added route registers, the server has been asked to start by then.\<close>
lemma parse_route_started:
  assumes "started_with_pools (rf_worker_server rf)" "parse_route env m name v rf = (r, rf')"
  shows "started_with_pools (rf_worker_server rf')"
proof -
  let ?ctx = "\<lparr> pc_registries = rf_registries rf, pc_broker_id = rf_broker_id rf \<rparr>"
  let ?st = "\<lparr> ps_resolved = rf_resolved_targets rf, ps_worker_server = rf_worker_server rf \<rparr>"
  have "ws_ok ?st" using assms(1) by (simp add: ws_ok_def)
  from parse_ws(1) [OF this, of env ?ctx name v] have "started_with_pools (ps_worker_server (snd (parse_routes env ?ctx name v ?st)))"
    by (simp add: ws_ok_def)
  moreover have "rf_worker_server rf' = ps_worker_server (snd (parse_routes env ?ctx name v ?st))"
    using assms(2) by (auto simp: parse_route_def Let_def split: prod.splits sum.splits)
  ultimately show ?thesis by simp
qed

lemma start_idle:
  assumes "started_with_pools (rf_worker_server rf)"
  shows "start_worker_server env rf = (Inr (), rf)"
  using assms by (auto simp: start_worker_server_def worker_server_start_def started_with_pools_def ensure_started_def
      split: option.splits prod.splits)

section \<open>Added routes\<close>

definition bits_ok :: "('x, 's) Bits \<Rightarrow> bool" where
  "bits_ok bits \<longleftrightarrow> started_with_pools (rf_worker_server (bi_route_factory bits))
    \<and> list_all (\<lambda>h. validate (rh_router h) = Inr () \<and> rh_submit_context h = bi_submit_context bits) (bi_added_routes bits)"

lemma settings_worker_server: "parse_settings env raw = Inr se \<Longrightarrow> started_with_pools (se_worker_server se)"
  unfolding parse_settings_def Let_def
  by (elim bind_result_InrE guard_InrE) (auto simp: started_with_pools_def worker_server_new_def)

lemma router_started:
  assumes "parse_router env raw se slot = Inr (branches, rf)" "started_with_pools (se_worker_server se)"
  shows "started_with_pools (rf_worker_server rf)"
  using assms(1) unfolding parse_router_def Let_def
proof (elim bind_result_InrE, goal_cases)
  case (1 checks transforms targets p)
  have "started_with_pools (rf_worker_server (snd p))"
    using 1(4) assms(2)
    by (auto simp: from_parts_def bind_result_eq_Inr split: option.splits prod.splits dest: parse_route_started [rotated])
  with 1(5) show ?case by (auto split: prod.splits if_splits sum.splits)
qed

lemma built_ok:
  assumes "bits_from_config env client ops config w = Some (Inr bits, w')"
  shows "bits_ok bits"
proof -
  obtain bt where bt: "parse_bootstrap env config w = Some (Inr bt, w')" "into_bits (be_build_runtime env) client ops bt = Inr bits"
    using assms by (rule bits_from_config_Inr)
  obtain raw where "boot_raw env raw w = Some (Inr bt, w')" using parse_bootstrap_raw [OF bt(1)] by blast
  then obtain se jstore jstore' ttl pa w1 slot branches rf where "parse_settings env raw = Inr se"
      "parse_router env raw se slot = Inr (branches, rf)" "bt = assemble se jstore' ttl pa slot (branches, rf)"
    by (rule boot_raw_Inr)
  then have "started_with_pools (rf_worker_server (rc_route_factory (bt_runtime_config bt)))"
    using router_started settings_worker_server by (fastforce simp: assemble_def)
  with from_runtime_config_Inr [OF bt(2) [unfolded into_bits_def]] show ?thesis by (simp add: bits_ok_def)
qed

text \<open>A broker that was started from a configuration, after any number of attempts to add routes.\<close>
inductive running :: "('x, 'c, 'h, 'v, 's, 'tc, 'tt, 'tv, 'ts) BootEnv \<Rightarrow> ('x, 'd) Bits \<Rightarrow> bool" for env where
  started: "bits_from_config env client ops config w = Some (Inr bits, w') \<Longrightarrow> running env bits"
| added: "running env bits \<Longrightarrow> running env (snd (add_route (be_config env) meanwhile name v bits))"

lemma add_route_cases:
  assumes "add_route cfg m name v bits = (r, bits')" "bits_ok bits"
  obtains (refused) e rf where "r = Inl e" "bits' = bits\<lparr> bi_route_factory := rf \<rparr>" "started_with_pools (rf_worker_server rf)"
  | (added) routes rf h where "r = Inr h" "validate routes = Inr ()" "started_with_pools (rf_worker_server rf)"
      "h = \<lparr> rh_name = name, rh_router = routes, rh_submit_context = bi_submit_context bits \<rparr>"
      "bits' = bits\<lparr> bi_route_factory := rf, bi_added_routes := bi_added_routes bits @ [h] \<rparr>"
proof -
  obtain p rf where p: "parse_route cfg m name v (bi_route_factory bits) = (p, rf)" by (rule prod.exhaust)
  have ws: "started_with_pools (rf_worker_server rf)" using parse_route_started [OF _ p] assms(2) by (simp add: bits_ok_def)
  show thesis
  proof (cases p)
    case (Inl e)
    then show thesis using assms(1) p ws refused by (auto simp: add_route_def)
  next
    case (Inr routes)
    show thesis
    proof (cases "validate routes")
      case v: (Inl e)
      then show thesis using assms(1) p Inr ws refused by (auto simp: add_route_def)
    next
      case v: (Inr u)
      then show thesis using assms(1) p Inr ws added [of _ routes rf]
        by (auto simp: add_route_def bits_start_worker_server_def start_idle Let_def)
    qed
  qed
qed

lemma running_ok: "running env bits \<Longrightarrow> bits_ok bits"
proof (induction rule: running.induct)
  case (added bits meanwhile name v)
  obtain r bits' where a: "add_route (be_config env) meanwhile name v bits = (r, bits')" by (rule prod.exhaust)
  from a added(2) show ?case by (cases rule: add_route_cases) (use added(2) in \<open>auto simp: a bits_ok_def\<close>)
qed (rule built_ok)

section \<open>Closing\<close>

text \<open>All actions of a tree of routes, in order, and the dispatcher of each.\<close>
fun tree_actions :: "'x Route list \<Rightarrow> 'x Action list"
and flat_actions :: "'x Action list \<Rightarrow> 'x Action list" where
  "tree_actions [] = []"
| "tree_actions (Route name actions # routes) = flat_actions actions @ tree_actions routes"
| "flat_actions [] = []"
| "flat_actions (action # actions) = (case action of Switch routes \<Rightarrow> tree_actions routes | _ \<Rightarrow> [action]) @ flat_actions actions"

definition dispatcher_close :: "'x Action \<Rightarrow> 'x close_fn option" where
  "dispatcher_close a = (case a of Check _ _ d _ \<Rightarrow> map_option snd d | Transform _ _ d _ \<Rightarrow> map_option snd d
    | Target _ _ d _ \<Rightarrow> map_option snd d | Switch _ \<Rightarrow> None)"

lemma dispatcher_close_simps [simp]:
  "dispatcher_close (Check f d disp s) = map_option snd disp" "dispatcher_close (Transform g d disp' s) = map_option snd disp'"
  "dispatcher_close (Target h d disp'' s) = map_option snd disp''"
  by (simp_all add: dispatcher_close_def)

definition closers :: "'x Action list \<Rightarrow> 'x close_fn list" where
  "closers actions = List.map_filter dispatcher_close actions"

lemma closers_simps [simp]:
  "closers [] = []" "closers (xs @ ys) = closers xs @ closers ys"
  "closers (a # as) = (case dispatcher_close a of None \<Rightarrow> [] | Some f \<Rightarrow> [f]) @ closers as"
  by (auto simp: closers_def List.map_filter_def split: option.splits)

lemma close_tree:
  "close_all routes w = fold (\<lambda>f. f) (closers (tree_actions routes)) w"
  "close_actions actions w = fold (\<lambda>f. f) (closers (flat_actions actions)) w"
proof (induction routes w and actions w rule: close_all_close_actions.induct)
  case (4 action actions w)
  then show ?case by (cases action) (auto split: option.splits)
qed simp_all

lemma close_routers_tree:
  "close_routers bits w = fold (\<lambda>f. f) (closers (tree_actions (bi_router bits))
    @ concat (map (\<lambda>h. closers (tree_actions (rh_router h))) (bi_added_routes bits))) w"
proof -
  have "fold (\<lambda>h. close_all (rh_router h)) hs w = fold (\<lambda>f. f) (concat (map (\<lambda>h. closers (tree_actions (rh_router h))) hs)) w"
    for hs :: "('a, 'b) RouteHandle list" and w
    by (induction hs arbitrary: w) (simp_all add: close_tree(1))
  then show ?thesis by (simp add: close_routers_def close_tree(1))
qed

section \<open>The last cleanups\<close>

lemma mem_cleanup_all:
  assumes "list_all valid_job_id jids"
  shows "ms_lookup (b_store (cleanup_all mem_store_ops jids b)) = (\<lambda>j. if j \<in> set jids then None else ms_lookup (b_store b) j)
    \<and> b_cleanup (cleanup_all mem_store_ops jids b) = b_cleanup b"
  using assms
proof (induction jids arbitrary: b)
  case (Cons jid jids)
  have "ms_lookup (snd (ms_delete_job jid (b_store b))) = (ms_lookup (b_store b))(jid := None)"
    using mem.delete_ok [OF TrueI, of jid] Cons.prems by simp
  with Cons.IH [of "cleanup_one mem_store_ops jid b"] Cons.prems show ?case
    by (auto simp: cleanup_one_def mem_store_ops_def fun_eq_iff)
qed simp

lemma heartbeat_end_mem:
  "\<exists>bs. heartbeat_end mem_store_ops bid url ttl in_flight now utc late s = s\<lparr> ms_brokers := bs \<rparr> \<and> map_of bs bid = None"
  by (cases late) (auto simp: heartbeat_end_def heartbeat_round_def drain_and_delete_def mem_store_ops_def
      ms_upsert_broker_lease_def ms_delete_broker_lease_def Let_def delete_conv')

lemma ms_lookup_brokers: "ms_lookup (s\<lparr> ms_brokers := bs \<rparr>) = ms_lookup s"
  by (auto simp: ms_lookup_def fun_eq_iff split: sum.split)

section \<open>Concrete brokers\<close>

definition demo_ops :: "MemoryStore store_ops" where "demo_ops = mem_store_ops"

lemma demo_started:
  "\<exists>bits. bits_from_config demo_boot (Inr ()) demo_ops ''bol'' (empty_server [], job_cluster 0)
    = Some (Inr bits, snd (nats_slot_attempt sim_client sim_codec ''bits-jobs'' ''bol'' ''dev'' (empty_server [])), job_cluster 0)"
proof -
  obtain b where "parse_bootstrap demo_boot ''bol'' (empty_server [], job_cluster 0)
      = Some (Inr b, snd (nats_slot_attempt sim_client sim_codec ''bits-jobs'' ''bol'' ''dev'' (empty_server [])), job_cluster 0)"
    using demo_start [OF demo_first] by blast
  then show ?thesis by (simp add: bits_from_config_def into_bits_def from_runtime_config_def Let_def)
qed

definition demo_bits :: "(unit, MemoryStore) Bits" where
  "demo_bits = from_router_for_tests (Inr ()) demo_routes ''bol-dev-42'' ''http://b'' 5 None (Some mem_store_ops) (secs 30)"

section \<open>Properties\<close>



text \<open>C20 Adding a route to a running broker is all or nothing: a refused route is not listed and no handle exists for it, an
  accepted one is valid, appended to the routes, and submits jobs under the broker's own identity and limits.  In particular
  the start of the worker server, which comes after the route is stored, never fails: the server was asked to start when
  the first pool was registered.\<close>
theorem add_route_atomic:
  assumes "running env bits" "add_route (be_config env) meanwhile name v bits = (r, bits')"
  shows "bi_submit_context bits' = bi_submit_context bits \<and> bi_router bits' = bi_router bits
    \<and> (case r of
         Inl e \<Rightarrow> bi_added_routes bits' = bi_added_routes bits \<and> bits_route_names bits' = bits_route_names bits
       | Inr h \<Rightarrow> rh_name h = name \<and> validate (rh_router h) = Inr () \<and> rh_submit_context h = bi_submit_context bits
           \<and> added_route_names bits' = added_route_names bits @ [name]
           \<and> bits_route_names bits' = bits_route_names bits @ route_names (rh_router h))
    \<and> start_worker_server (be_config env) (bi_route_factory bits') = (Inr (), bi_route_factory bits')"
  using assms(2) running_ok [OF assms(1)]
  by (cases rule: add_route_cases) (auto simp: bits_route_names_def added_route_names_def start_idle)

theorem add_route_atomic_witness:
  "\<exists>bits e bits'. running demo_boot (bits :: (unit, MemoryStore) Bits) \<and> add_route (be_config demo_boot) [] ''r'' JNull bits = (Inl e, bits')
    \<and> bi_added_routes bits' = bi_added_routes bits"
proof -
  obtain bits w' where "bits_from_config demo_boot (Inr ()) demo_ops ''bol'' (empty_server [], job_cluster 0) = Some (Inr bits, w')"
    using demo_started by blast
  then have r: "running demo_boot bits" by (rule running.started)
  have "\<exists>e bits'. add_route (be_config demo_boot) [] ''r'' JNull bits = (Inl e, bits')"
    by (simp add: add_route_def parse_route_def parse_routes.simps as_array_def Let_def)
  then obtain e bits' where a: "add_route (be_config demo_boot) [] ''r'' JNull bits = (Inl e, bits')" by blast
  from add_route_atomic [OF r a] r a show ?thesis by auto
qed



end
