(* ===== verification/Python_Bindings.thy ===== *)
theory Python_Bindings
  imports Bits_Facade
begin

text \<open>
  The Python bindings (\<open>bits-py/src/lib.rs\<close>): the adapters that run Python actions inside the broker, their registration, and
  the Python class around the broker.

  The interpreter is a parameter: converting values, creating an instance, calling a method and running its coroutine, the tests on
  classes.  Python values are opaque; what a coroutine returns is sorted by the class tests of the adapters.  Exceptions are values, and a
  panic is \<open>None\<close>.  The modules, the abstract base classes and \<open>__repr__\<close> are left out.
\<close>

section \<open>Values\<close>

text \<open>What an action returns; the last is an object of another class, with its name when it can be read.\<close>
datatype py_outcome =
    PyPass
  | PyReject string bool
  | PyContinue
  | PySuccess "u8 list" string
  | PyRedirect string string
  | PyError string
  | PyOther "string option"

datatype PyErr = PyValueError string | PyTypeError string | PyRuntimeError string | PyRaised string

datatype ActionKind = KindCheck | KindTransform | KindTarget

record 'p PyJob =
  pj_id :: string
  pj_request :: 'p
  pj_metadata :: 'p
  pj_user :: 'p

text \<open>Where running a method can fail: the call, the blocking thread, the import of \<open>asyncio\<close>, the coroutine.\<close>
datatype py_failure = CallFailed string | SpawnFailed string | ImportFailed string | RunRaised string

record ('p, 'i, 'cls, 'x) PyEnv =
  py_pythonize :: "json \<Rightarrow> string + 'p"
  py_depythonize :: "'p \<Rightarrow> string + json"
  py_is_dict :: "'p \<Rightarrow> string + unit"
  py_new :: "'cls \<Rightarrow> 'p \<Rightarrow> string + 'i"
  py_method :: "'i \<Rightarrow> string \<Rightarrow> 'p PyJob \<Rightarrow> 'x World_scheme \<Rightarrow> (py_failure + py_outcome \<times> 'p \<times> 'p) \<times> 'x World_scheme"
  py_subclass :: "'cls \<Rightarrow> string \<Rightarrow> string + bool"
  py_is_class :: "'cls \<Rightarrow> bool"
  py_getattr :: "'cls \<Rightarrow> string \<Rightarrow> bool"
  py_is_coroutine :: "'cls \<Rightarrow> string \<Rightarrow> string + bool"
  py_from_secs :: "u64 \<Rightarrow> string + duration"

text \<open>The constructors with their defaults.\<close>
definition py_reject :: "string \<Rightarrow> bool option \<Rightarrow> py_outcome" where
  "py_reject reason silent = PyReject reason (unwrap_or silent True)"

datatype py_body = BodyBytes "u8 list" | BodyStr "u8 list" | BodyOther

text \<open>A string is given by its UTF-8 encoding.\<close>
definition py_success :: "py_body \<Rightarrow> string option \<Rightarrow> PyErr + py_outcome" where
  "py_success body content_type =
    (case body of
       BodyBytes raw \<Rightarrow> Inr (PySuccess raw (unwrap_or content_type ''application/octet-stream''))
     | BodyStr raw \<Rightarrow> Inr (PySuccess raw (unwrap_or content_type ''text/plain; charset=utf-8''))
     | BodyOther \<Rightarrow> Inl (PyTypeError ''Success body must be bytes or str''))"

definition py_success_json :: "string + u8 list \<Rightarrow> PyErr + py_outcome" where
  "py_success_json dumps = (case dumps of Inl e \<Rightarrow> Inl (PyRaised e) | Inr raw \<Rightarrow> Inr (PySuccess raw ''application/json''))"

definition py_redirect :: "string \<Rightarrow> string option \<Rightarrow> py_outcome" where
  "py_redirect location message = PyRedirect location (unwrap_or message [])"

definition job_to_py :: "('p, 'i, 'cls, 'x) PyEnv \<Rightarrow> Job \<Rightarrow> string + 'p PyJob" where
  "job_to_py env job =
    bind_result (py_pythonize env (job_request job)) (\<lambda>request.
    bind_result (py_pythonize env (job_metadata job)) (\<lambda>metadata.
    bind_result (py_pythonize env (job_user job)) (\<lambda>user.
    Inr \<lparr> pj_id = job_id job, pj_request = request, pj_metadata = metadata, pj_user = user \<rparr>)))"

section \<open>Adapters\<close>

definition failure_error :: "string \<Rightarrow> py_failure \<Rightarrow> ActionError" where
  "failure_error what f = AE_ConfigError
    (case f of
       CallFailed e \<Rightarrow> what @ ''() call failed: '' @ e
     | SpawnFailed e \<Rightarrow> ''spawn_blocking failed: '' @ e
     | ImportFailed e \<Rightarrow> ''import asyncio: '' @ e
     | RunRaised e \<Rightarrow> ''asyncio.run() raised: '' @ e)"

text \<open>The class name in the error of an unexpected result.\<close>
definition type_name :: "py_outcome \<Rightarrow> string" where
  "type_name obj =
    (case obj of
       PyPass \<Rightarrow> ''Pass'' | PyReject _ _ \<Rightarrow> ''Reject'' | PyContinue \<Rightarrow> ''Continue'' | PySuccess _ _ \<Rightarrow> ''Success''
     | PyRedirect _ _ \<Rightarrow> ''Redirect'' | PyError _ \<Rightarrow> ''Error'' | PyOther n \<Rightarrow> unwrap_or n ''unknown'')"

definition check_result :: "py_outcome \<Rightarrow> ActionError + CheckResult" where
  "check_result obj =
    (case obj of
       PyPass \<Rightarrow> Inr Pass
     | PyReject reason silent \<Rightarrow> Inr (CheckReject reason silent)
     | _ \<Rightarrow> Inl (AE_ConfigError (''evaluate() must return Pass or Reject, got: '' @ type_name obj)))"

definition py_check :: "('p, 'i, 'cls, 'x) PyEnv \<Rightarrow> 'i \<Rightarrow> ('x, CheckResult) action_fn" where
  "py_check env inst job w =
    (case job_to_py env job of
       Inl e \<Rightarrow> (Inl (failure_error ''evaluate'' (CallFailed e)), w)
     | Inr py_job \<Rightarrow>
         (case py_method env inst ''evaluate'' py_job w of
            (Inl f, w) \<Rightarrow> (Inl (failure_error ''evaluate'' f), w)
          | (Inr (obj, _, _), w) \<Rightarrow> (check_result obj, w)))"

definition serialisation_failed :: "string \<Rightarrow> ActionError" where
  "serialisation_failed e = AE_ConfigError (''job serialisation failed: '' @ e)"

definition transform_result :: "py_outcome \<Rightarrow> ActionError + TransformResult" where
  "transform_result obj =
    (case obj of
       PyContinue \<Rightarrow> Inr Continue
     | PyReject reason silent \<Rightarrow> Inr (TransformReject reason silent)
     | _ \<Rightarrow> Inl (AE_ConfigError (''execute() must return Continue or Reject, got: '' @ type_name obj)))"

text \<open>The request and the metadata are read back before the result is looked at.\<close>
definition py_transform :: "('p, 'i, 'cls, 'x) PyEnv \<Rightarrow> 'i \<Rightarrow> 'x transform_fn" where
  "py_transform env inst job w =
    (case job_to_py env job of
       Inl e \<Rightarrow> (Inl (serialisation_failed e), job, w)
     | Inr py_job \<Rightarrow>
         (case py_method env inst ''execute'' py_job w of
            (Inl f, w) \<Rightarrow> (Inl (failure_error ''execute'' f), job, w)
          | (Inr (obj, request, metadata), w) \<Rightarrow>
              (case py_depythonize env request of
                 Inl e \<Rightarrow> (Inl (AE_ConfigError (''request deserialise: '' @ e)), job, w)
               | Inr r \<Rightarrow>
                   let job = job\<lparr> job_request := r \<rparr> in
                   (case py_depythonize env metadata of
                      Inl e \<Rightarrow> (Inl (AE_ConfigError (''metadata deserialise: '' @ e)), job, w)
                    | Inr m \<Rightarrow> (transform_result obj, job\<lparr> job_metadata := m \<rparr>, w)))))"

definition target_result :: "py_outcome \<Rightarrow> ActionError + TargetResult" where
  "target_result obj =
    (case obj of
       PySuccess body ct \<Rightarrow> Inr (Complete (JR_Success ct (sint (of_nat (length body) :: u64)) [Inr body]))
     | PyRedirect location message \<Rightarrow> Inr (Complete (JR_Redirect location message None None))
     | PyError message \<Rightarrow> Inr (Complete (JR_Error message))
     | PyReject reason silent \<Rightarrow> Inr (TargetReject reason silent)
     | _ \<Rightarrow> Inl (AE_ConfigError (''dispatch() must return Success, Redirect, Error, or Reject, got: '' @ type_name obj)))"

definition py_target :: "('p, 'i, 'cls, 'x) PyEnv \<Rightarrow> 'i \<Rightarrow> ('x, TargetResult) action_fn" where
  "py_target env inst job w =
    (case job_to_py env job of
       Inl e \<Rightarrow> (Inl (serialisation_failed e), w)
     | Inr py_job \<Rightarrow>
         (case py_method env inst ''dispatch'' py_job w of
            (Inl f, w) \<Rightarrow> (Inl (failure_error ''dispatch'' f), w)
          | (Inr (obj, _, _), w) \<Rightarrow> (target_result obj, w)))"

section \<open>Registration\<close>

definition detect_kind :: "('p, 'i, 'cls, 'x) PyEnv \<Rightarrow> 'cls \<Rightarrow> PyErr + ActionKind" where
  "detect_kind env cls =
    (if \<not> py_is_class env cls then Inl (PyTypeError ''register_action: second argument must be a class'')
     else case (py_subclass env cls ''CheckAction'', py_subclass env cls ''TransformAction'', py_subclass env cls ''TargetAction'') of
            (Inl e, _, _) \<Rightarrow> Inl (PyRaised e)
          | (_, Inl e, _) \<Rightarrow> Inl (PyRaised e)
          | (_, _, Inl e) \<Rightarrow> Inl (PyRaised e)
          | (Inr True, Inr False, Inr False) \<Rightarrow> Inr KindCheck
          | (Inr False, Inr True, Inr False) \<Rightarrow> Inr KindTransform
          | (Inr False, Inr False, Inr True) \<Rightarrow> Inr KindTarget
          | (Inr False, Inr False, Inr False) \<Rightarrow>
              Inl (PyTypeError ''action class must subclass CheckAction, TransformAction, or TargetAction'')
          | _ \<Rightarrow> Inl (PyTypeError ''action class must subclass exactly one of CheckAction, TransformAction, TargetAction''))"

definition require_async_method :: "('p, 'i, 'cls, 'x) PyEnv \<Rightarrow> 'cls \<Rightarrow> string \<Rightarrow> PyErr + unit" where
  "require_async_method env cls method_name =
    (if \<not> py_getattr env cls method_name
     then Inl (PyTypeError (''action class must define an async method '' @ quoted method_name))
     else case py_is_coroutine env cls method_name of
            Inl e \<Rightarrow> Inl (PyRaised e)
          | Inr is_coro \<Rightarrow>
              if \<not> is_coro then Inl (PyTypeError (''action method '' @ quoted method_name @ '' must be an async (coroutine) function''))
              else Inr ())"

definition method_of :: "ActionKind \<Rightarrow> string" where
  "method_of kind = (case kind of KindCheck \<Rightarrow> ''evaluate'' | KindTransform \<Rightarrow> ''execute'' | KindTarget \<Rightarrow> ''dispatch'')"

definition py_factory :: "('p, 'i, 'cls, 'x) PyEnv \<Rightarrow> ActionKind \<Rightarrow> 'cls \<Rightarrow> 'x action_factory" where
  "py_factory env kind cls config =
    (case py_pythonize env config of
       Inl e \<Rightarrow> Inl (AE_ConfigError (''config pythonize: '' @ e))
     | Inr kwargs \<Rightarrow>
     case py_is_dict env kwargs of
       Inl e \<Rightarrow> Inl (AE_ConfigError (''config must be a dict, got: '' @ e))
     | Inr _ \<Rightarrow>
     case py_new env cls kwargs of
       Inl e \<Rightarrow> Inl (AE_ConfigError (''__init__ failed: '' @ e))
     | Inr inst \<Rightarrow> Inr (case kind of
           KindCheck \<Rightarrow> Check (py_check env inst) (JObject []) None None
         | KindTransform \<Rightarrow> Transform (py_transform env inst) (JObject []) None None
         | KindTarget \<Rightarrow> Target (py_target env inst) (JObject []) None None))"

definition register_action :: "('p, 'i, 'cls, 'x) PyEnv \<Rightarrow> string \<Rightarrow> 'cls \<Rightarrow> 'x ConfigEnv \<Rightarrow> (PyErr + unit) \<times> 'x ConfigEnv" where
  "register_action env name cls cfg =
    (case bind_result (detect_kind env cls) (\<lambda>kind. bind_result (require_async_method env cls (method_of kind)) (\<lambda>_. Inr kind)) of
       Inl e \<Rightarrow> (Inl e, cfg)
     | Inr kind \<Rightarrow>
         (case register_runtime_action name (py_factory env kind cls) cfg of
            (Inl e, cfg) \<Rightarrow> (Inl (PyValueError (action_error_display e)), cfg)
          | (Inr _, cfg) \<Rightarrow> (Inr (), cfg)))"

section \<open>The broker class\<close>

datatype py_value = PyStr string | PyInt int | PyBytes "u8 list" | PyDict "(string \<times> py_value) list"

primrec read_stream :: "ByteStream \<Rightarrow> PyErr + u8 list" where
  "read_stream [] = Inr []"
| "read_stream (chunk # chunks) =
    (case chunk of Inl e \<Rightarrow> Inl (PyRuntimeError e) | Inr bytes \<Rightarrow> bind_result (read_stream chunks) (\<lambda>body. Inr (bytes @ body)))"

definition job_result_to_py :: "JobResult \<Rightarrow> PyErr + py_value" where
  "job_result_to_py result =
    (case result of
       JR_Success content_type len stream \<Rightarrow>
         bind_result (read_stream stream) (\<lambda>body. Inr (PyDict [(''status'', PyStr ''success''), (''content_type'', PyStr content_type),
           (''size'', PyInt len), (''body'', PyBytes body)]))
     | JR_Redirect location message content_type content_length \<Rightarrow>
         Inr (PyDict ([(''status'', PyStr ''redirect''), (''location'', PyStr location), (''message'', PyStr message)]
           @ (case content_type of Some ct \<Rightarrow> [(''content_type'', PyStr ct)] | None \<Rightarrow> [])
           @ (case content_length of Some n \<Rightarrow> [(''content_length'', PyInt (uint n))] | None \<Rightarrow> [])))
     | JR_Error message \<Rightarrow> Inr (PyDict [(''status'', PyStr ''error''), (''message'', PyStr message)])
     | JR_Failed reason \<Rightarrow> Inr (PyDict [(''status'', PyStr ''failed''), (''reason'', PyStr reason)])
     | JR_Overloaded reason \<Rightarrow> Inr (PyDict [(''status'', PyStr ''overloaded''), (''reason'', PyStr reason)])
     | JR_RateLimited reason \<Rightarrow> Inr (PyDict [(''status'', PyStr ''rate_limited''), (''reason'', PyStr reason)])
     | JR_Cancelled \<Rightarrow> Inr (PyDict [(''status'', PyStr ''cancelled'')])
     | JR_ClientGone \<Rightarrow> Inr (PyDict [(''status'', PyStr ''client_gone'')]))"

definition poll_outcome_to_py :: "PollOutcome \<Rightarrow> PyErr + py_value" where
  "poll_outcome_to_py outcome =
    (case outcome of
       Ready result \<Rightarrow> bind_result (job_result_to_py result) (\<lambda>obj. Inr (PyDict [(''status'', PyStr ''ready''), (''result'', obj)]))
     | Pending jid _ \<Rightarrow> Inr (PyDict [(''status'', PyStr ''pending''), (''id'', PyStr jid)])
     | PollNotFound \<Rightarrow> Inr (PyDict [(''status'', PyStr ''not_found'')])
     | JobLost \<Rightarrow> Inr (PyDict [(''status'', PyStr ''job_lost'')]))"

definition to_value_error :: "string \<Rightarrow> PyErr" where "to_value_error = PyValueError"

text \<open>The outer option is a slot allocation that does not return.\<close>
definition py_from_config :: "('x, 'c, 'h, 'v, 's, 'tc, 'tt, 'tv, 'ts) BootEnv \<Rightarrow> (BitsError \<Rightarrow> string) \<Rightarrow> string + unit \<Rightarrow> 'd store_ops
    \<Rightarrow> string \<Rightarrow> 's \<times> 'ts \<Rightarrow> ((PyErr + ('x, 'd) Bits) \<times> 's \<times> 'ts) option" where
  "py_from_config env display client ops config w =
    map_option (\<lambda>(r, w). (case r of Inl e \<Rightarrow> Inl (to_value_error (display e)) | Inr bits \<Rightarrow> Inr bits, w))
      (bits_from_config env client ops config w)"

text \<open>\<open>uuid\<close> is the id that \<open>Job::new\<close> gives; \<open>None\<close> is the panic of the id generation.\<close>
definition py_submit :: "('p, 'i, 'cls, 'x) PyEnv \<Rightarrow> 's PollEnv \<Rightarrow> ('x, 's) Bits \<Rightarrow> string \<Rightarrow> 'p \<Rightarrow> 's Broker
    \<Rightarrow> ((PyErr + string) \<times> 's Broker) option" where
  "py_submit py env bits uuid request b =
    (case py_depythonize py request of
       Inl e \<Rightarrow> Some (Inl (to_value_error e), b)
     | Inr v \<Rightarrow>
         (case job_new_with_id (pe_now env) (pe_utc_now env) uuid v (b_heap b) of (job, h) \<Rightarrow>
          case bits_submit (pe_fill_bytes env) (pe_now env) (pe_utc_now env) (bi_submit_context bits) job (b\<lparr> b_heap := h \<rparr>) of
            None \<Rightarrow> None
          | Some (Accepted jid, b) \<Rightarrow> Some (Inr jid, b)
          | Some (SubmitOverloaded, b) \<Rightarrow> Some (Inl (PyRuntimeError ''broker at capacity''), b)))"

text \<open>A finite timeout that is not negative is converted by \<open>from_secs_f64\<close>, which panics where \<open>py_from_secs\<close> has an error.\<close>
definition py_timeout :: "(u64 \<Rightarrow> string + duration) \<Rightarrow> u64 option \<Rightarrow> (PyErr + duration option) option" where
  "py_timeout from_secs timeout_secs =
    (case timeout_secs of
       None \<Rightarrow> Some (Inr None)
     | Some v \<Rightarrow>
         if \<not> f64_is_finite v \<or> f64_key v < 0
         then Some (Inl (PyValueError ''timeout_secs must be a finite non-negative number''))
         else (case from_secs v of Inl _ \<Rightarrow> None | Inr d \<Rightarrow> Some (Inr (Some d))))"

definition py_poll :: "('p, 'i, 'cls, 'x) PyEnv \<Rightarrow> 's PollEnv \<Rightarrow> ('x, 's) Bits \<Rightarrow> string \<Rightarrow> u64 option \<Rightarrow> 's Broker
    \<Rightarrow> ((PyErr + py_value) \<times> 's Broker) option" where
  "py_poll py env bits jid timeout_secs b =
    (case py_timeout (py_from_secs py) timeout_secs of
       None \<Rightarrow> None
     | Some (Inl e) \<Rightarrow> Some (Inl e, b)
     | Some (Inr timeout) \<Rightarrow>
         map_option (\<lambda>(outcome, b). (poll_outcome_to_py outcome, b))
           (poll env (bi_submit_context bits) (bi_internal_poll_timeout bits) jid timeout b))"

definition py_cancel :: "string \<Rightarrow> 's Broker \<Rightarrow> 's Broker" where
  "py_cancel jid b = snd (cancel jid b)"

section \<open>Registered actions\<close>

text \<open>A refused class leaves the registry alone; an accepted one is found under its name and nothing else changes.\<close>
lemma register_action_cases:
  assumes "register_action env name cls cfg = (r, cfg')"
  obtains (refused) e where "r = Inl e" "cfg' = cfg"
  | (registered) kind where "r = Inr ()" "detect_kind env cls = Inr kind" "require_async_method env cls (method_of kind) = Inr ()"
      "\<And>config. create_action cfg' name config = py_factory env kind cls config"
      "\<And>other config a. other \<noteq> name \<Longrightarrow> create_action cfg other config = Inr a \<Longrightarrow> create_action cfg' other config = Inr a"
proof (cases "bind_result (detect_kind env cls) (\<lambda>kind. bind_result (require_async_method env cls (method_of kind)) (\<lambda>_. Inr kind))")
  case (Inl e)
  then show thesis using assms refused by (auto simp: register_action_def)
next
  case (Inr kind)
  then have k: "detect_kind env cls = Inr kind" "require_async_method env cls (method_of kind) = Inr ()" by (auto simp: bind_result_eq_Inr)
  obtain q cfg1 where q: "register_runtime_action name (py_factory env kind cls) cfg = (q, cfg1)" by (rule prod.exhaust)
  show thesis
  proof (cases q)
    case (Inl e)
    then have "cfg1 = cfg" using q by (auto simp: register_runtime_action_def split: if_splits)
    then show thesis using assms Inr q Inl refused by (auto simp: register_action_def)
  next
    case ok: (Inr u)
    then have cfg1: "cfg1 = cfg\<lparr> ce_runtime := AList.update name (py_factory env kind cls) (ce_runtime cfg) \<rparr>"
      using q by (auto simp: register_runtime_action_def split: if_splits)
    have "r = Inr ()" "cfg' = cfg1" using assms Inr q ok by (simp_all add: register_action_def)
    then show thesis using k cfg1
      by (intro registered [of kind]) (auto simp: create_action_def update_conv' split: option.splits)
  qed
qed

text \<open>A Python transform changes nothing of a job but the request and the metadata.\<close>
lemma py_transform_frame:
  assumes "py_transform env inst job w = (r, job', w')"
  shows "job' = job\<lparr> job_request := job_request job', job_metadata := job_metadata job' \<rparr>"
  using assms by (cases job) (auto simp: py_transform_def Let_def split: sum.splits prod.splits)

section \<open>Results\<close>

text \<open>What a Python client cannot tell apart: the chunks of a stream, and whether a pending job is queued or claimed.\<close>
definition alike :: "PollOutcome \<Rightarrow> PollOutcome \<Rightarrow> bool" where
  "alike o1 o2 \<longleftrightarrow> o1 = o2
    \<or> (\<exists>jid s1 s2. o1 = Pending jid s1 \<and> o2 = Pending jid s2)
    \<or> (\<exists>ct len s1 s2. o1 = Ready (JR_Success ct len s1) \<and> o2 = Ready (JR_Success ct len s2) \<and> read_stream s1 = read_stream s2)"

lemma job_result_to_py_inj:
  "job_result_to_py r1 = Inr p \<Longrightarrow> job_result_to_py r2 = Inr p \<Longrightarrow> alike (Ready r1) (Ready r2)"
  by (cases r1; cases r2) (auto simp: job_result_to_py_def alike_def bind_result_eq_Inr word_uint_eq_iff split: option.splits)

lemma poll_outcome_to_py_inj:
  assumes "poll_outcome_to_py o1 = Inr p" "poll_outcome_to_py o2 = Inr p"
  shows "alike o1 o2"
proof (cases "(\<exists>r1. o1 = Ready r1) \<and> (\<exists>r2. o2 = Ready r2)")
  case True
  then show ?thesis using assms job_result_to_py_inj by (auto simp: poll_outcome_to_py_def bind_result_eq_Inr)
next
  case False
  then show ?thesis using assms by (cases o1; cases o2) (auto simp: poll_outcome_to_py_def bind_result_eq_Inr alike_def)
qed

lemma sint_len: "n < 9223372036854775808 \<Longrightarrow> sint (of_nat n :: u64) = int n"
  by (simp add: signed_of_nat signed_take_bit_int_eq_self)

section \<open>What the client of a Python target is told\<close>

text \<open>The dictionary a client polls for, by the result of the target; results without one end the job in another way.\<close>
definition client_view :: "py_outcome \<Rightarrow> py_value option" where
  "client_view obj =
    (case obj of
       PySuccess body ct \<Rightarrow> Some (PyDict [(''status'', PyStr ''success''), (''content_type'', PyStr ct),
         (''size'', PyInt (int (length body))), (''body'', PyBytes body)])
     | PyRedirect location message \<Rightarrow> Some (PyDict [(''status'', PyStr ''redirect''), (''location'', PyStr location), (''message'', PyStr message)])
     | PyError message \<Rightarrow> Some (PyDict [(''status'', PyStr ''error''), (''message'', PyStr message)])
     | _ \<Rightarrow> None)"

definition unexpected_target_result :: "py_outcome \<Rightarrow> ActionError" where
  "unexpected_target_result obj =
    AE_ConfigError (''dispatch() must return Success, Redirect, Error, or Reject, got: '' @ type_name obj)"

text \<open>A buffer is at most \<open>isize::MAX\<close> bytes long.\<close>
definition body_fits :: "py_outcome \<Rightarrow> bool" where
  "body_fits obj \<longleftrightarrow> (case obj of PySuccess body _ \<Rightarrow> length body < 2 ^ 63 | _ \<Rightarrow> True)"

lemma target_result_view:
  assumes "client_view obj = Some v" "body_fits obj"
  shows "\<exists>r. target_result obj = Inr (Complete r)
    \<and> poll_outcome_to_py (Ready r) = Inr (PyDict [(''status'', PyStr ''ready''), (''result'', v)])"
  using assms by (cases obj)
    (auto simp: client_view_def body_fits_def sint_len target_result_def poll_outcome_to_py_def job_result_to_py_def bind_result_def)

lemma target_result_other:
  assumes "client_view obj = None" "\<And>reason silent. obj \<noteq> PyReject reason silent"
  shows "target_result obj = Inl (unexpected_target_result obj)"
  using assms by (cases obj) (auto simp: client_view_def target_result_def unexpected_target_result_def)

lemma registered_target:
  assumes "register_action env name cls cfg = (Inr (), cfg')" "detect_kind env cls = Inr KindTarget" "create_action cfg' name config = Inr action"
  obtains kwargs inst where "py_pythonize env config = Inr kwargs" "py_new env cls kwargs = Inr inst"
    "action = Target (py_target env inst) (JObject []) None None"
  using assms(1)
proof (cases rule: register_action_cases)
  case (registered kind)
  then have "py_factory env KindTarget cls config = Inr action" using assms(2,3) by simp
  then show thesis using that by (auto simp: py_factory_def split: sum.splits)
qed simp

lemma target_route:
  assumes "\<not> is_cancelled (w_heap w) job" "client_present (w_now w) (w_heap w) job"
  shows "switch_dispatch [Route rn [Target f d None None]] job w =
    (case f job w of
       (Inr (TargetReject reason silent), w') \<Rightarrow> (Inr (all_rejected (if silent then [] else [reason])), w')
     | r \<Rightarrow> r)"
  using assms by (auto simp: switch_dispatch_def run_target_def rejected_def unwrap_or_def split: sum.splits TargetResult.splits prod.splits)

definition demo_py :: "(json, unit, unit, unit) PyEnv" where
  "demo_py = \<lparr> py_pythonize = Inr, py_depythonize = Inr, py_is_dict = (\<lambda>_. Inr ()), py_new = (\<lambda>_ _. Inr ()),
    py_method = (\<lambda>_ _ job w. (Inr (PySuccess [7] ''text/plain'', pj_request job, pj_metadata job), w)),
    py_subclass = (\<lambda>_ base. Inr (base = ''TargetAction'')), py_is_class = (\<lambda>_. True), py_getattr = (\<lambda>_ _. True),
    py_is_coroutine = (\<lambda>_ _. Inr True), py_from_secs = (\<lambda>_. Inr 0) \<rparr>"


section \<open>Properties\<close>

text \<open>C36 A Python class that is registered as a target is what the configuration creates under its name, and what its
  \<open>dispatch\<close> returns is what the client polls for: a success with the same bytes, content type and size, a redirect or an error
  with the same texts.  A \<open>Reject\<close> rejects the route, with its reason unless it is silent; an object of any other class is
  an error that names the class, and a failure of the call is an error of the job.\<close>
theorem python_target_roundtrip:
  assumes "register_action env name cls cfg = (Inr (), cfg')" "detect_kind env cls = Inr KindTarget"
    and "create_action cfg' name config = Inr action"
    and "\<not> is_cancelled (w_heap w) job" "client_present (w_now w) (w_heap w) job"
    and "job_to_py env job = Inr py_job"
  shows "\<exists>kwargs inst. py_pythonize env config = Inr kwargs \<and> py_new env cls kwargs = Inr inst
    \<and> (case py_method env inst ''dispatch'' py_job w of
         (Inl f, w') \<Rightarrow> switch_dispatch [Route rn [action]] job w = (Inl (failure_error ''dispatch'' f), w')
       | (Inr (obj, _, _), w') \<Rightarrow> body_fits obj \<longrightarrow>
           (case client_view obj of
              Some v \<Rightarrow> \<exists>r. switch_dispatch [Route rn [action]] job w = (Inr (Complete r), w')
                \<and> poll_outcome_to_py (Ready r) = Inr (PyDict [(''status'', PyStr ''ready''), (''result'', v)])
            | None \<Rightarrow>
                (case obj of
                   PyReject reason silent \<Rightarrow>
                     switch_dispatch [Route rn [action]] job w = (Inr (all_rejected (if silent then [] else [reason])), w')
                 | _ \<Rightarrow> switch_dispatch [Route rn [action]] job w = (Inl (unexpected_target_result obj), w'))))"
proof -
  obtain kwargs inst where i: "py_pythonize env config = Inr kwargs" "py_new env cls kwargs = Inr inst"
      and action: "action = Target (py_target env inst) (JObject []) None None"
    using registered_target [OF assms(1-3)] .
  obtain r w' where m: "py_method env inst ''dispatch'' py_job w = (r, w')" by (rule prod.exhaust)
  note route = target_route [OF assms(4,5), of rn "py_target env inst" "JObject []", folded action]
  show ?thesis
  proof (cases r)
    case (Inl f)
    then show ?thesis using i m route assms(6) by (auto simp: py_target_def)
  next
    case (Inr x)
    obtain obj rq md where x: "x = (obj, rq, md)" by (rule prod_cases3)
    have d: "switch_dispatch [Route rn [action]] job w =
        (case target_result obj of Inr (TargetReject reason silent) \<Rightarrow> (Inr (all_rejected (if silent then [] else [reason])), w') | q \<Rightarrow> (q, w'))"
      using route m Inr x assms(6) by (auto simp: py_target_def split: sum.splits TargetResult.splits)
    show ?thesis
    proof (cases "client_view obj")
      case None
      have "switch_dispatch [Route rn [action]] job w = (Inr (all_rejected (if silent then [] else [reason])), w')"
        if "obj = PyReject reason silent" for reason silent using d that by (simp add: target_result_def)
      moreover have "switch_dispatch [Route rn [action]] job w = (Inl (unexpected_target_result obj), w')"
        if "\<And>reason silent. obj \<noteq> PyReject reason silent" using d target_result_other [OF None that] by simp
      ultimately show ?thesis using i m Inr x None by (auto split: py_outcome.split)
    next
      case (Some v)
      then show ?thesis using i m Inr x d target_result_view [OF Some] by fastforce
    qed
  qed
qed

theorem python_target_roundtrip_witness:
  "\<exists>cfg' action r. register_action demo_py ''echo'' () demo_cfg = (Inr (), cfg') \<and> create_action cfg' ''echo'' (JObject []) = Inr action
    \<and> switch_dispatch [Route ''r'' [action]] demo_job demo_world = (Inr (Complete r), demo_world)
    \<and> poll_outcome_to_py (Ready r) = Inr (PyDict [(''status'', PyStr ''ready''), (''result'', PyDict [(''status'', PyStr ''success''),
        (''content_type'', PyStr ''text/plain''), (''size'', PyInt 1), (''body'', PyBytes [7])])])"
proof -
  have kind: "detect_kind demo_py () = Inr KindTarget" by (simp add: detect_kind_def demo_py_def)
  have "\<exists>cfg'. register_action demo_py ''echo'' () demo_cfg = (Inr (), cfg')"
    using kind by (simp add: register_action_def register_runtime_action_def require_async_method_def bind_result_def demo_cfg_def demo_py_def)
  then obtain cfg' where reg: "register_action demo_py ''echo'' () demo_cfg = (Inr (), cfg')" ..
  from reg have "create_action cfg' ''echo'' (JObject []) = py_factory demo_py KindTarget () (JObject [])"
    by (cases rule: register_action_cases) (use kind in auto)
  then have "\<exists>action. create_action cfg' ''echo'' (JObject []) = Inr action" by (simp add: py_factory_def demo_py_def)
  then obtain action where act: "create_action cfg' ''echo'' (JObject []) = Inr action" ..
  have py: "\<exists>py_job. job_to_py demo_py demo_job = Inr py_job" by (simp add: job_to_py_def bind_result_def demo_py_def)
  then obtain py_job where "job_to_py demo_py demo_job = Inr py_job" ..
  from python_target_roundtrip [OF reg kind act _ _ this, of demo_world "''r''"] reg act show ?thesis
    by (auto simp: demo_world_live demo_py_def body_fits_def client_view_def)
qed

end
