(* ===== verification/Spec2Isabelle.thy ===== *)
theory Spec2Isabelle
  imports Fifo_Queue Cost_Weighted_Queue Age_Priority_Queue Switch_Routing Remote_Pool Http_Target Python_Bindings
begin

text \<open>
  \<^bold>\<open>BITS broker: a verification development.\<close>

  BITS (\<open>bits/src\<close>) is a job broker.  A client submits a JSON request over HTTP and polls for its result.  The broker
  gives the request an id that encodes the owning broker, keeps the job in a map with a bounded counter, and runs it
  through a tree of routes.  Targets run behind dispatchers: a bounded queue with permits, per-user limits, and a pool of
  workers, local or remote over HTTP.  A job that runs long is persisted; brokers hold leases in the shared store, and a
  poll that reaches the wrong broker is proxied to the owner while its lease is alive, or recovers the job when not.

  \<^bold>\<open>Theories\<close>, in the order of their imports.

  \<^item> \<open>Bits_Prelude\<close>: machine integers, bytes, digits, number formatting, association lists, JSON values, results as sums.
  \<^item> \<open>Request_Id\<close> (\<open>request_id.rs\<close>): the 128-bit layout, tags in base 37, Crockford base 32, all errors.
  \<^item> \<open>Job_Model\<close> (\<open>job.rs\<close>, \<open>result.rs\<close>, \<open>error.rs\<close>, the errors of \<open>actions/mod.rs\<close> and \<open>db/mod.rs\<close>): the job record.  The
    cells that clones of a job share (cancellation flag, pollers, deadline, status) are in a \<open>Heap\<close>, addressed by \<open>job_lc\<close>.
  \<^item> \<open>Job_Queue\<close> is the \<open>Queue\<close> trait as a locale; \<open>Fifo_Queue\<close>, \<open>Cost_Weighted_Queue\<close> and \<open>Age_Priority_Queue\<close>
    (\<open>dispatcher/queue\<close>) interpret it, with the worker task, command channel and waiters of the latter two.
  \<^item> \<open>Job_Store\<close> has the store contracts (\<open>db/mod.rs\<close>) as locales, \<open>Memory_Store\<close> (\<open>db/memory.rs\<close>) interprets them.
  \<^item> \<open>User_Limit\<close> and \<open>Dispatch\<close> (\<open>dispatcher/mod.rs\<close>, \<open>executor/async_pool.rs\<close>, \<open>executor/thread_pool.rs\<close>): admission per
    user, and dispatching as a step relation over callers, workers and close.
  \<^item> \<open>Shared_Store\<close>: errors and serialisation of the remote stores, the atomic claim, retry loops, and the locale \<open>slot_counter\<close>.
  \<^item> \<open>Nats_Store\<close>, \<open>Nats_Keys\<close>, \<open>Nats_Contract\<close>, \<open>Nats_Server\<close> (\<open>db/nats.rs\<close>): the NATS store over the operations of its
    client; \<open>nats_kv\<close> and its extensions state what the code relies on, with other brokers acting at every call.  The
    contracts of \<open>Job_Store\<close> follow on a healthy server (\<open>nats_calm\<close>).  \<open>Nats_Server\<close> is a small scripted server on which all
    laws hold and witnesses run.
  \<^item> \<open>Tikv_Store\<close>, \<open>Tikv_Contract\<close>, \<open>Tikv_Cluster\<close> (\<open>db/tikv.rs\<close>): the same for TiKV, over optimistic transactions.
  \<^item> \<open>Persistence\<close> (\<open>db/mod.rs\<close>): the handle that finds the backend by downcast, and the user limiter over it.
  \<^item> \<open>Switch_Routing\<close> (\<open>routing\<close>): route trees, validation, dispatch with checks, targets and nested switches.
  \<^item> \<open>Remote_Pool\<close> (\<open>executor/remote_pool.rs\<close>): the endpoints of remote workers, the waiters, the heartbeat reaper.
  \<^item> \<open>Broker_Runtime\<close> (\<open>runtime/submission.rs\<close>, \<open>runner.rs\<close>, \<open>maintenance.rs\<close>, \<open>bits.rs\<close>): the broker as a record of job map,
    counters, job objects and running tasks; its operations, and their atomic parts interleaved as \<open>broker_step\<close>.
  \<^item> \<open>Broker_Recovery\<close> (\<open>runtime/recovery.rs\<close>, \<open>Bits::poll\<close>): leases, claims, proxying, heartbeat, shutdown.
  \<^item> \<open>Http_Server\<close> (\<open>server.rs\<close>): responses and handlers, composed with the proxy of another broker.
  \<^item> \<open>Worker_Server\<close> (\<open>worker_server.rs\<close>): pools of remote workers behind one listener.
  \<^item> \<open>Route_Config\<close> (\<open>config.rs\<close>, \<open>actions/registry.rs\<close>, \<open>actions/target_remote.rs\<close>, \<open>Dispatcher::from_config\<close>): the action registry and
    the parsing of routes, actions, dispatcher settings and user limits, with the cache of shared targets.
  \<^item> \<open>Broker_Bootstrap\<close> (\<open>parse_bootstrap\<close> in \<open>config.rs\<close>, the buckets of \<open>metrics.rs\<close>): from the configuration text to the
    running configuration, with the checks in their order, the opened store, the allocated slot and the parsed routes.
  \<^item> \<open>Deployment\<close>: brokers that start one after the other on one NATS server (\<open>nats_admin\<close>).
  \<^item> \<open>Bits_Facade\<close> (\<open>bits.rs\<close>, \<open>route_handle.rs\<close>): building the broker and its threads, adding routes, dropping it.
  \<^item> \<open>Http_Target\<close> (\<open>actions/target_http.rs\<close>): the built-in HTTP target.
  \<^item> \<open>Python_Bindings\<close> (\<open>bits-py/src/lib.rs\<close>): Python actions as actions of the broker, their registration, the broker class.

  \<^bold>\<open>What is shown.\<close>
  Identifiers decode to what was encoded and only encodings decode.  Every queue delivers each job once, in its order, and
  a closed queue never blocks; the age comparison does not saturate and is a total order.  Dispatching conserves permits,
  bounds the queue, never strands a caller and leaves nothing behind; user ceilings hold across brokers, and a failing
  store never blocks a user.  On NATS and TiKV a claim acts at one instant whatever others write meanwhile, broker slots are
  never handed out twice, and allocation returns once others stop; reclaiming removes exactly the entries of dead brokers.
  All brokers that ever start on one NATS bucket have distinct ids, failed starts included, a start gives NATS exactly the
  configured number of chances, and an accepted configuration is usable.  The jobs that a started broker accepts carry its id;
  adding a route is all or nothing; dropping the broker closes every dispatcher, finishes the pending deletions and gives
  up the lease.  HTTP targets form a chain of fallbacks, and a Python client polls for what a Python
  target returned.
  Three deviations are stated: \<open>nats_claim_spurious_active\<close>, \<open>nats_reserve_race_overadmits\<close>, \<open>tikv_user_limit_not_enforced\<close>.  The first route that does not reject decides a job, and
  nothing runs for a cancelled one.  A remote job is handed out once, its first completion wins, and a lost worker or a
  shutdown answers its caller.  On every interleaving of submissions, runners, pollers, sweeps and clean-up a result is
  handed to one poller at most and the counters agree with the map.  A job is recovered only when the lease of its owner is
  gone, and then it is; a live heartbeat keeps it; a shutdown ends and gives the lease up.  A proxied response is the
  owner's, with the exceptions stated by \<open>proxy_lossy\<close>; a second failover is not recovered (\<open>second_failover_stays_queued\<close>).
  Accepted user limits are effective and can be written back, references to one target share its dispatcher, and remote targets
  have their pool.

  \<^bold>\<open>Conventions.\<close>  Instants and durations are nanoseconds; wall-clock times are integers.  Errors are \<open>Inl\<close>, a panic is
  \<open>None\<close>.  Concurrency is interleaving of the parts that the code runs under one lock or as one atomic operation; what
  other tasks do while one waits is an argument (\<open>pe_wait\<close>, the wake-ups of \<open>poll_submit_loop\<close>) or another step.  Loops are
  total: the claim and drain loops decrease the time left to their deadline, the others follow their data; there is no
  fuel.  The two slot allocation loops may not end and are a \<open>partial_function\<close>.  What the code takes from libraries (HTTP
  client and headers, NATS and TiKV clients, serde, floating-point durations, clocks, random bytes) is a parameter.

  \<^bold>\<open>Not modelled.\<close>  The debug functions of the NATS store for tests, telemetry and metric instruments, and process
  start-up.
\<close>

section \<open>The queues keep their contract\<close>

text \<open>C8 All three queue implementations keep the contract of the \<open>Queue\<close> trait while open: the jobs
  enqueued on a fresh queue come out exactly once each, the FIFO queue in the order of arrival, and
  then a caller waits.\<close>
theorem queues_deliver_exactly_once:
  "fst (drain fifo_dequeue (length js) (enqueue_all fifo_enqueue js fifo_new)) = js
    \<and> mset (fst (drain cw_dequeue (length js) (enqueue_all cw_enqueue js cw_new))) = mset js
    \<and> mset (fst (drain age_dequeue (length js) (enqueue_all age_enqueue js (age_new now)))) = mset js
    \<and> fst (fifo_dequeue (snd (drain fifo_dequeue (length js) (enqueue_all fifo_enqueue js fifo_new)))) = Waiting
    \<and> fst (cw_dequeue (snd (drain cw_dequeue (length js) (enqueue_all cw_enqueue js cw_new)))) = Waiting
    \<and> fst (age_dequeue (snd (drain age_dequeue (length js) (enqueue_all age_enqueue js (age_new now))))) = Waiting"
proof -
  have f: "fq_tx fifo_new" "fifo_contents fifo_new = {#}" "fq_buf fifo_new = []"
    by (simp_all add: fifo_new_def fifo_contents_def)
  have c: "cw_contents cw_new = {#}" by (simp add: cw_contents_def cw_new_idle)
  have a: "age_idle (age_new now)" "ag_tx (age_new now)" "age_contents (age_new now) = {#}"
    by (simp_all add: age_new_def age_idle_def age_contents_def age_entries_def age_cmd_entries_def)
  show ?thesis
    using fifo.roundtrip_all [OF TrueI f(1,2) prod.collapse [symmetric], of js]
      cw.roundtrip_all [OF cw_new_idle(1,2) c prod.collapse [symmetric], of js]
      age.roundtrip_all [OF a prod.collapse [symmetric], of js]
      fifo_drain_buf [of "length js" "enqueue_all fifo_enqueue js fifo_new"]
      fifo_enqueue_all_buf [OF f(1), of js] f(3)
    by simp
qed



end
